(* ===== verification/Prelude.thy ===== *)
theory Prelude
  imports Main "HOL-Library.AList" "HOL-Library.Word" "HOL-Library.Char_ord"
    "HOL-Library.List_Lexorder" "HOL-Library.Multiset"
begin

text \<open>
  Shared vocabulary of the development: the collections of facts the component theories feed,
  Go maps as association lists with their lookup laws, sorting facts, and the list lemmas more
  than one component needs. Nothing here is specific to ChromaFlow.
\<close>

section \<open>Collections\<close>

named_theorems go_simps \<open>unfolding rules for the small operations modelled from Go\<close>
named_theorems store_simps \<open>what the job store operations do to its abstract view\<close>
named_theorems wf_intros \<open>preservation of well-formedness, one rule per operation\<close>

section \<open>Go maps\<close>

text \<open>
  A Go map is an association list with distinct keys. \<open>map_of\<close> reads it, \<^const>\<open>AList.update\<close>
  stores, \<^const>\<open>AList.delete\<close> removes; the order of the list stands for the unspecified
  iteration order of the Go runtime, and what iterates over a map is proved independent of it.
\<close>

type_synonym ('k, 'v) gomap = "('k \<times> 'v) list"

abbreviation gm_put :: "'k \<Rightarrow> 'v \<Rightarrow> ('k, 'v) gomap \<Rightarrow> ('k, 'v) gomap" where
  "gm_put \<equiv> AList.update"

abbreviation gm_del :: "'k \<Rightarrow> ('k, 'v) gomap \<Rightarrow> ('k, 'v) gomap" where
  "gm_del \<equiv> AList.delete"

abbreviation gm_keys :: "('k, 'v) gomap \<Rightarrow> 'k list" where
  "gm_keys m \<equiv> map fst m"

definition gm_wf :: "('k, 'v) gomap \<Rightarrow> bool" where
  "gm_wf m \<longleftrightarrow> distinct (gm_keys m)"

text \<open>Reading a missing key of a map of numbers gives the zero value.\<close>

definition gm_get0 :: "('k, 'v::zero) gomap \<Rightarrow> 'k \<Rightarrow> 'v" where
  "gm_get0 m k = (case map_of m k of None \<Rightarrow> 0 | Some v \<Rightarrow> v)"

lemma gm_wf_Nil [simp, intro]: "gm_wf []"
  by (simp add: gm_wf_def)

lemma gm_wf_put [wf_intros]: "gm_wf m \<Longrightarrow> gm_wf (gm_put k v m)"
  by (simp add: gm_wf_def distinct_update)

lemma gm_wf_del [wf_intros]: "gm_wf m \<Longrightarrow> gm_wf (gm_del k m)"
  by (simp add: gm_wf_def distinct_delete)

lemma gm_put_lookup [simp]: "map_of (gm_put k v m) = (map_of m)(k \<mapsto> v)"
  by (rule update_conv')

lemma gm_del_lookup [simp]: "map_of (gm_del k m) = (map_of m)(k := None)"
  by (rule delete_conv')

lemma gm_put_keys: "fst ` set (gm_put k v m) = insert k (fst ` set m)"
  by (simp add: dom_update)

lemma gm_del_keys: "fst ` set (gm_del k m) = fst ` set m - {k}"
  by (simp only: set_map [symmetric] delete_keys set_removeAll)

lemma gm_get0_put [simp]:
  "gm_get0 (gm_put k v m) k' = (if k' = k then v else gm_get0 m k')"
  by (simp add: gm_get0_def)

lemma gm_get0_Nil [simp]: "gm_get0 [] k = 0"
  by (simp add: gm_get0_def)

lemma map_of_Some_in_keys: "map_of m k = Some v \<Longrightarrow> k \<in> set (gm_keys m)"
  by (force dest: map_of_SomeD)

lemma map_of_None_iff_keys: "map_of m k = None \<longleftrightarrow> k \<notin> set (gm_keys m)"
  by (simp add: map_of_eq_None_iff)

lemma map_of_iff_mem: "gm_wf m \<Longrightarrow> map_of m k = Some v \<longleftrightarrow> (k, v) \<in> set m"
  by (simp add: gm_wf_def)

section \<open>Lists\<close>

lemma distinct_snoc_new: "distinct xs \<Longrightarrow> x \<notin> set xs \<Longrightarrow> distinct (xs @ [x])"
  by simp

lemma set_remove1_distinct: "distinct xs \<Longrightarrow> set (remove1 x xs) = set xs - {x}"
  by (simp add: set_remove1_eq)

lemma remove1_snoc_new: "x \<notin> set xs \<Longrightarrow> remove1 x (xs @ [x]) = xs"
  by (simp add: remove1_append)

lemma map_filter_total:
  "(\<And>x. x \<in> set xs \<Longrightarrow> f x = Some (g x)) \<Longrightarrow> List.map_filter f xs = map g xs"
  by (induction xs) (auto simp: List.map_filter_def)

lemma fold_permuted:
  assumes "\<And>x y s. x \<in> set xs \<Longrightarrow> y \<in> set xs \<Longrightarrow> f x (f y s) = f y (f x s)"
    and "mset xs = mset ys"
  shows "fold f xs s = fold f ys s"
proof -
  have "fold f xs = fold f ys"
  proof (rule fold_multiset_equiv)
    show "mset xs = mset ys" by (rule assms(2))
    show "f x \<circ> f y = f y \<circ> f x" if "x \<in> set xs" "y \<in> set xs" for x y
      using that assms(1) by (simp add: fun_eq_iff)
  qed
  then show ?thesis by simp
qed

end
