(* ===== verification/Go_Runtime.thy ===== *)
theory Go_Runtime
  imports Prelude
begin

text \<open>
  The parts of the Go language and runtime every component uses: error values with wrapping and
  \<open>errors.Is\<close>, results that carry an error, times and durations, and the wrap-around of the
  64-bit \<open>int\<close>.
\<close>

section \<open>Errors\<close>

text \<open>
  The sentinels the program compares against are constructors of their own; an error made by
  \<open>errors.New\<close> or by a formatted message without wrapping carries its text; \<open>ErrWrap\<close> is a
  message of the form \<open>prefix: cause\<close> that keeps the cause for \<open>errors.Is\<close>.
\<close>

datatype go_error =
    ErrNew string
  | ErrContextCanceled
  | ErrDeadlineExceeded
  | ErrQueueFull
  | ErrEOF
  | ErrUnexpectedEOF
  | ErrWrap string go_error

type_synonym 'a result = "go_error + 'a"

fun error_text :: "go_error \<Rightarrow> string" where
  "error_text (ErrNew m) = m"
| "error_text ErrContextCanceled = ''context canceled''"
| "error_text ErrDeadlineExceeded = ''context deadline exceeded''"
| "error_text ErrQueueFull = ''queue is full''"
| "error_text ErrEOF = ''EOF''"
| "error_text ErrUnexpectedEOF = ''unexpected EOF''"
| "error_text (ErrWrap p e) = p @ '': '' @ error_text e"

text \<open>\<open>errors.Is\<close>, used with sentinels only: compare, then look through the wrapping.\<close>

fun errors_is :: "go_error \<Rightarrow> go_error \<Rightarrow> bool" where
  "errors_is (ErrWrap p e) target = (ErrWrap p e = target \<or> errors_is e target)"
| "errors_is e target = (e = target)"

lemma errors_is_refl [simp]: "errors_is e e"
  by (cases e) auto

section \<open>Times\<close>

text \<open>
  A \<open>time.Time\<close> is its number of nanoseconds since the zero time (1 January of year 1, UTC),
  so the zero value of Go is 0; a \<open>time.Duration\<close> is a number of nanoseconds. Every
  \<open>time.Now()\<close> of the source is an argument of the model.
\<close>

type_synonym time = int
type_synonym duration = int

definition time_is_zero :: "time \<Rightarrow> bool" where
  [go_simps]: "time_is_zero t \<longleftrightarrow> t = 0"

definition time_before :: "time \<Rightarrow> time \<Rightarrow> bool" where
  [go_simps]: "time_before a b \<longleftrightarrow> a < b"

definition time_after :: "time \<Rightarrow> time \<Rightarrow> bool" where
  [go_simps]: "time_after a b \<longleftrightarrow> b < a"

abbreviation second :: duration where "second \<equiv> 1000000000"
abbreviation millisecond :: duration where "millisecond \<equiv> 1000000"

text \<open>Seconds since the Unix epoch, rounded down.\<close>

definition unix_seconds :: "time \<Rightarrow> int" where
  "unix_seconds t = t div second - 62135596800"

lemma unix_seconds_mono: "s \<le> t \<Longrightarrow> unix_seconds s \<le> unix_seconds t"
  by (simp add: unix_seconds_def zdiv_mono1)

section \<open>Machine integers\<close>

text \<open>Go's \<open>int\<close> is 64 bits wide and wraps around; \<open>to_int64\<close> is the value an exact result wraps to.\<close>

definition to_int64 :: "int \<Rightarrow> int" where
  "to_int64 x = (x + 2 ^ 63) mod 2 ^ 64 - 2 ^ 63"

definition is_int64 :: "int \<Rightarrow> bool" where
  "is_int64 x \<longleftrightarrow> - (2 ^ 63) \<le> x \<and> x < 2 ^ 63"

lemma to_int64_id [simp]: "is_int64 x \<Longrightarrow> to_int64 x = x"
  by (simp add: to_int64_def is_int64_def)

lemma is_int64_to_int64 [simp]: "is_int64 (to_int64 x)"
proof -
  have "0 \<le> (x + 2 ^ 63) mod 2 ^ 64" and "(x + 2 ^ 63) mod (2 ^ 64 :: int) < 2 ^ 64"
    by simp_all
  then show ?thesis by (simp add: is_int64_def to_int64_def)
qed

end
