(* ===== verification/Queue_Types.thy ===== *)
theory Queue_Types
  imports Go_Runtime
begin

text \<open>
  \<open>internal/queue/types.go\<close>: the job a client submits, the record the metadata store keeps for
  it, and the snapshot the dashboard shows.
\<close>

section \<open>Job status\<close>

text \<open>\<open>type JobStatus string\<close>: a string type of its own, ordered as strings are.\<close>

datatype JobStatus = JobStatus (status_text: string)

instantiation JobStatus :: linorder
begin

definition less_eq_JobStatus :: "JobStatus \<Rightarrow> JobStatus \<Rightarrow> bool" where
  "less_eq_JobStatus a b \<longleftrightarrow> status_text a \<le> status_text b"

definition less_JobStatus :: "JobStatus \<Rightarrow> JobStatus \<Rightarrow> bool" where
  "less_JobStatus a b \<longleftrightarrow> status_text a < status_text b"

instance
  by standard
    (auto simp: less_eq_JobStatus_def less_JobStatus_def JobStatus.expand)

end

definition StatusPending :: JobStatus where "StatusPending = JobStatus ''pending''"
definition StatusProcessing :: JobStatus where "StatusProcessing = JobStatus ''processing''"
definition StatusCompleted :: JobStatus where "StatusCompleted = JobStatus ''completed''"
definition StatusFailed :: JobStatus where "StatusFailed = JobStatus ''failed''"
definition StatusCanceled :: JobStatus where "StatusCanceled = JobStatus ''canceled''"

lemmas status_defs =
  StatusPending_def StatusProcessing_def StatusCompleted_def StatusFailed_def StatusCanceled_def

lemma status_distinct [simp]:
  "StatusPending \<noteq> StatusProcessing" "StatusPending \<noteq> StatusCompleted"
  "StatusPending \<noteq> StatusFailed" "StatusPending \<noteq> StatusCanceled"
  "StatusProcessing \<noteq> StatusPending" "StatusProcessing \<noteq> StatusCompleted"
  "StatusProcessing \<noteq> StatusFailed" "StatusProcessing \<noteq> StatusCanceled"
  "StatusCompleted \<noteq> StatusPending" "StatusCompleted \<noteq> StatusProcessing"
  "StatusCompleted \<noteq> StatusFailed" "StatusCompleted \<noteq> StatusCanceled"
  "StatusFailed \<noteq> StatusPending" "StatusFailed \<noteq> StatusProcessing"
  "StatusFailed \<noteq> StatusCompleted" "StatusFailed \<noteq> StatusCanceled"
  "StatusCanceled \<noteq> StatusPending" "StatusCanceled \<noteq> StatusProcessing"
  "StatusCanceled \<noteq> StatusCompleted" "StatusCanceled \<noteq> StatusFailed"
  by (simp_all add: status_defs)

text \<open>The statuses a job does not leave any more: the test both \<open>Cancel\<close> methods make.\<close>

definition terminal :: "JobStatus \<Rightarrow> bool" where
  "terminal st \<longleftrightarrow> st = StatusCompleted \<or> st = StatusFailed \<or> st = StatusCanceled"

lemma terminal_simps [simp]:
  "terminal StatusCompleted" "terminal StatusFailed" "terminal StatusCanceled"
  "\<not> terminal StatusPending" "\<not> terminal StatusProcessing"
  by (simp_all add: terminal_def)

section \<open>Jobs, their records and their snapshots\<close>

record job =
  ID :: string
  job_URL :: string
  job_IdempotencyKey :: string
  job_CallbackURL :: string
  job_RequestID :: string
  QueueMessageID :: string
  LeaseUntil :: time

type_synonym bytes = "8 word list"

record job_result =
  URL :: string
  Status :: JobStatus
  PDF :: bytes
  PDFKey :: string
  PDFSize :: int
  Error :: string
  IdempotencyKey :: string
  CallbackURL :: string
  RequestID :: string
  CreatedAt :: time
  UpdatedAt :: time

text \<open>The zero value, from which the composite literals of the source start.\<close>

definition zero_result :: job_result where
  "zero_result = \<lparr>URL = '''', Status = JobStatus '''', PDF = [], PDFKey = '''', PDFSize = 0,
     Error = '''', IdempotencyKey = '''', CallbackURL = '''', RequestID = '''',
     CreatedAt = 0, UpdatedAt = 0\<rparr>"

definition zero_job :: job where
  "zero_job = \<lparr>ID = '''', job_URL = '''', job_IdempotencyKey = '''', job_CallbackURL = '''',
     job_RequestID = '''', QueueMessageID = '''', LeaseUntil = 0\<rparr>"

record job_snapshot =
  snap_ID :: string
  snap_URL :: string
  snap_Status :: JobStatus
  snap_Error :: string
  snap_CreatedAt :: time
  snap_UpdatedAt :: time

definition snapshot_of :: "string \<Rightarrow> job_result \<Rightarrow> job_snapshot" where
  "snapshot_of jobID result = \<lparr>snap_ID = jobID, snap_URL = URL result, snap_Status = Status result,
     snap_Error = Error result, snap_CreatedAt = CreatedAt result, snap_UpdatedAt = UpdatedAt result\<rparr>"

lemma snapshot_of_simps [simp]:
  "snap_ID (snapshot_of i r) = i" "snap_URL (snapshot_of i r) = URL r"
  "snap_Status (snapshot_of i r) = Status r" "snap_Error (snapshot_of i r) = Error r"
  "snap_CreatedAt (snapshot_of i r) = CreatedAt r" "snap_UpdatedAt (snapshot_of i r) = UpdatedAt r"
  by (simp_all add: snapshot_of_def)

end
