(* ===== verification/Memory_Queue.thy ===== *)
theory Memory_Queue
  imports Queue_Types
begin

text \<open>
  The queue interface \<open>queue.Backend\<close> (\<open>internal/queue/types.go\<close>) and its in-memory
  implementation over a buffered Go channel (\<open>internal/queue/memory.go\<close>).
\<close>

section \<open>The interface\<close>

text \<open>
  What the HTTP handlers and the workers call, as a dictionary of operations over the backend's
  state. \<open>Pop\<close> can block, so it is modelled with each backend and not here.
\<close>

record 'q queue_ops =
  q_Push :: "job \<Rightarrow> 'q \<Rightarrow> 'q \<times> go_error option"
  q_Ack :: "job \<Rightarrow> 'q \<Rightarrow> 'q \<times> go_error option"
  q_Len :: "'q \<Rightarrow> 'q \<times> int result"
  q_Cap :: "'q \<Rightarrow> int"

text \<open>
  The contract clients rely on: \<open>contents\<close> lists the accepted jobs no worker has taken yet.
  An accepted push adds its job at the back and a rejected one changes nothing.
\<close>

locale job_queue =
  fixes Q :: "'q queue_ops"
    and qinv :: "'q \<Rightarrow> bool"
    and contents :: "'q \<Rightarrow> job list"
  assumes push_accepted: "qinv q \<Longrightarrow> q_Push Q j q = (q', None) \<Longrightarrow> contents q' = contents q @ [j]"
    and push_rejected: "qinv q \<Longrightarrow> q_Push Q j q = (q', Some e) \<Longrightarrow> contents q' = contents q"
    and push_inv: "qinv q \<Longrightarrow> qinv (fst (q_Push Q j q))"
    and ack_inv: "qinv q \<Longrightarrow> qinv (fst (q_Ack Q j q))"
    and ack_contents: "qinv q \<Longrightarrow> contents (fst (q_Ack Q j q)) = contents q"
begin

lemma push_mono: "qinv q \<Longrightarrow> set (contents q) \<subseteq> set (contents (fst (q_Push Q j q)))"
  by (cases "q_Push Q j q"; cases "snd (q_Push Q j q)")
     (auto dest: push_accepted push_rejected)

lemma push_in_contents: "qinv q \<Longrightarrow> snd (q_Push Q j q) = None \<Longrightarrow> j \<in> set (contents (fst (q_Push Q j q)))"
  by (cases "q_Push Q j q") (auto dest: push_accepted)

end

section \<open>The channel\<close>

text \<open>
  A channel of capacity \<open>capacity\<close> with its buffer \<open>buf\<close>, the number \<open>recvq\<close> of goroutines
  blocked in \<open>Pop\<close>, and the jobs \<open>handed\<close> straight to such a goroutine that has not resumed
  yet. A send with a blocked receiver bypasses the buffer, which is what makes a channel of
  capacity 0 usable at all.
\<close>

record mem_queue =
  buf :: "job list"
  capacity :: nat
  recvq :: nat
  handed :: "job list"

text \<open>\<open>make(chan Job, size)\<close> panics on a negative size: \<open>None\<close>.\<close>

definition NewMemoryQueue :: "int \<Rightarrow> mem_queue option" where
  "NewMemoryQueue sz =
     (if sz < 0 then None else Some \<lparr>buf = [], capacity = nat sz, recvq = 0, handed = []\<rparr>)"

definition mq_Push :: "job \<Rightarrow> mem_queue \<Rightarrow> mem_queue \<times> go_error option" where
  "mq_Push job q =
     (if 0 < recvq q then (q\<lparr>recvq := recvq q - 1, handed := handed q @ [job]\<rparr>, None)
      else if length (buf q) < capacity q then (q\<lparr>buf := buf q @ [job]\<rparr>, None)
      else (q, Some ErrQueueFull))"

text \<open>
  \<open>Pop\<close> selects between the context and the channel. When both are ready Go picks either, so
  the choice is an argument; when neither is, the goroutine blocks.
\<close>

datatype pop_outcome = PopReturns "job result" | PopBlocks

definition mq_Pop :: "bool \<Rightarrow> bool \<Rightarrow> mem_queue \<Rightarrow> mem_queue \<times> pop_outcome" where
  "mq_Pop ctx_done prefer_ctx q =
     (case buf q of
        [] \<Rightarrow> if ctx_done then (q, PopReturns (Inl ErrContextCanceled))
               else (q\<lparr>recvq := Suc (recvq q)\<rparr>, PopBlocks)
      | job # rest \<Rightarrow>
          if ctx_done \<and> prefer_ctx then (q, PopReturns (Inl ErrContextCanceled))
          else (q\<lparr>buf := rest\<rparr>, PopReturns (Inr job)))"

text \<open>A blocked \<open>Pop\<close> resumes with the job it was handed, or because its context ended.\<close>

definition mq_Pop_resume :: "mem_queue \<Rightarrow> mem_queue \<times> pop_outcome" where
  "mq_Pop_resume q =
     (case handed q of
        [] \<Rightarrow> (q, PopBlocks)
      | job # rest \<Rightarrow> (q\<lparr>handed := rest\<rparr>, PopReturns (Inr job)))"

definition mq_Pop_abort :: "mem_queue \<Rightarrow> mem_queue \<times> pop_outcome" where
  "mq_Pop_abort q =
     (if 0 < recvq q then (q\<lparr>recvq := recvq q - 1\<rparr>, PopReturns (Inl ErrContextCanceled))
      else (q, PopBlocks))"

definition mq_Ack :: "job \<Rightarrow> mem_queue \<Rightarrow> mem_queue \<times> go_error option" where
  "mq_Ack job q = (q, None)"

definition mq_Len :: "mem_queue \<Rightarrow> mem_queue \<times> int result" where
  "mq_Len q = (q, Inr (int (length (buf q))))"

definition mq_Cap :: "mem_queue \<Rightarrow> int" where
  "mq_Cap q = int (capacity q)"

definition mem_queue_ops :: "mem_queue queue_ops" where
  "mem_queue_ops = \<lparr>q_Push = mq_Push, q_Ack = mq_Ack, q_Len = mq_Len, q_Cap = mq_Cap\<rparr>"

lemma mem_queue_ops_simps [simp]:
  "q_Push mem_queue_ops = mq_Push" "q_Ack mem_queue_ops = mq_Ack"
  "q_Len mem_queue_ops = mq_Len" "q_Cap mem_queue_ops = mq_Cap"
  by (simp_all add: mem_queue_ops_def)

lemmas mq_defs = mq_Push_def mq_Pop_def mq_Pop_resume_def mq_Pop_abort_def mq_Ack_def

section \<open>Well-formedness\<close>

text \<open>The buffer respects its capacity, and goroutines wait only on an empty buffer.\<close>

definition mq_wf :: "mem_queue \<Rightarrow> bool" where
  "mq_wf q \<longleftrightarrow> length (buf q) \<le> capacity q \<and> (0 < recvq q \<longrightarrow> buf q = [])"

definition mq_pending :: "mem_queue \<Rightarrow> job list" where
  "mq_pending q = handed q @ buf q"

lemma NewMemoryQueue_wf: "NewMemoryQueue n = Some q \<Longrightarrow> mq_wf q \<and> mq_pending q = []"
  by (auto simp: NewMemoryQueue_def mq_wf_def mq_pending_def split: if_splits)

lemma mq_Push_wf [wf_intros]: "mq_wf q \<Longrightarrow> mq_wf (fst (mq_Push j q))"
  by (auto simp: mq_Push_def mq_wf_def)

lemma mq_Pop_wf [wf_intros]: "mq_wf q \<Longrightarrow> mq_wf (fst (mq_Pop c p q))"
  by (auto simp: mq_Pop_def mq_wf_def split: list.splits)

lemma mq_Pop_resume_wf [wf_intros]: "mq_wf q \<Longrightarrow> mq_wf (fst (mq_Pop_resume q))"
  by (auto simp: mq_Pop_resume_def mq_wf_def split: list.splits)

lemma mq_Pop_abort_wf [wf_intros]: "mq_wf q \<Longrightarrow> mq_wf (fst (mq_Pop_abort q))"
  by (auto simp: mq_Pop_abort_def mq_wf_def)

lemma mq_Push_accepted:
  "mq_wf q \<Longrightarrow> mq_Push j q = (q', None) \<Longrightarrow> mq_pending q' = mq_pending q @ [j]"
  by (auto simp: mq_Push_def mq_wf_def mq_pending_def split: if_splits)

lemma mq_Push_rejected: "mq_Push j q = (q', Some e) \<Longrightarrow> q' = q \<and> e = ErrQueueFull"
  by (auto simp: mq_Push_def split: if_splits)

interpretation mq: job_queue mem_queue_ops mq_wf mq_pending
  by unfold_locales
    (auto simp: mq_Ack_def dest: mq_Push_accepted mq_Push_rejected intro: mq_Push_wf)

section \<open>Runs of the queue\<close>

text \<open>
  A run is a sequence of operations by any number of goroutines. For each step \<open>mq_step\<close> also
  says which job was accepted and which job left the channel (was read from the buffer or handed
  to a blocked receiver).
\<close>

datatype queue_op = OpPush job | OpPop bool bool | OpResume | OpAbort

fun mq_step :: "queue_op \<Rightarrow> mem_queue \<Rightarrow> mem_queue \<times> job list \<times> job list" where
  "mq_step (OpPush j) q =
     (case mq_Push j q of (q', e) \<Rightarrow>
        (q', if e = None then [j] else [], if 0 < recvq q then [j] else []))"
| "mq_step (OpPop c p) q =
     (case mq_Pop c p q of (q', r) \<Rightarrow>
        (q', [], (case r of PopReturns (Inr j) \<Rightarrow> [j] | _ \<Rightarrow> [])))"
| "mq_step OpResume q = (fst (mq_Pop_resume q), [], [])"
| "mq_step OpAbort q = (fst (mq_Pop_abort q), [], [])"

fun mq_run :: "queue_op list \<Rightarrow> mem_queue \<Rightarrow> mem_queue \<times> job list \<times> job list" where
  "mq_run [] q = (q, [], [])"
| "mq_run (op # ops) q =
     (case mq_step op q of (q1, acc1, out1) \<Rightarrow>
      case mq_run ops q1 of (q2, acc2, out2) \<Rightarrow> (q2, acc1 @ acc2, out1 @ out2))"

lemma mq_step_wf: "mq_wf q \<Longrightarrow> mq_wf (fst (mq_step op q))"
  by (cases op) (auto simp: mq_defs mq_wf_def split: if_splits list.splits prod.splits)

lemma mq_step_fifo:
  "mq_wf q \<Longrightarrow> mq_step op q = (q', accepted, out) \<Longrightarrow> buf q @ accepted = out @ buf q'"
  by (cases op) (auto simp: mq_defs mq_wf_def split: if_splits list.splits)

lemma mq_step_capacity: "mq_step op q = (q', accepted, out) \<Longrightarrow> capacity q' = capacity q"
  by (cases op) (auto simp: mq_defs split: if_splits list.splits)

lemma mq_run_fifo_wf:
  "mq_wf q \<Longrightarrow> mq_run ops q = (q', accepted, out) \<Longrightarrow>
     mq_wf q' \<and> capacity q' = capacity q \<and> buf q @ accepted = out @ buf q'"
proof (induction ops arbitrary: q q' accepted out)
  case Nil
  then show ?case by simp
next
  case (Cons op ops)
  obtain q1 acc1 out1 where one: "mq_step op q = (q1, acc1, out1)" by (metis surj_pair)
  obtain q2 acc2 out2 where rest: "mq_run ops q1 = (q2, acc2, out2)" by (metis surj_pair)
  have wf1: "mq_wf q1" using mq_step_wf [OF Cons.prems(1), of op] one by simp
  have "mq_wf q2 \<and> capacity q2 = capacity q1 \<and> buf q1 @ acc2 = out2 @ buf q2"
    by (rule Cons.IH [OF wf1 rest])
  moreover have "buf q @ acc1 = out1 @ buf q1" by (rule mq_step_fifo [OF Cons.prems(1) one])
  moreover have "capacity q1 = capacity q" by (rule mq_step_capacity [OF one])
  ultimately show ?case using Cons.prems(2) one rest
    by (simp del: append_assoc add: append_assoc [symmetric]) (metis append_assoc)
qed

text \<open>C14: First in, first out, nothing lost, nothing twice, never over capacity. Whatever goroutines
  do with a new queue of size \<open>n\<close>, the jobs accepted so far are, in order, those that left the
  channel followed by those in its buffer, and the buffer holds at most \<open>n\<close>; a further push fails
  exactly when no goroutine waits and the buffer is full.\<close>

theorem queue_fifo:
  assumes new: "NewMemoryQueue n = Some q" and run: "mq_run ops q = (q', accepted, out)"
  shows "accepted = out @ buf q' \<and> int (length (buf q')) \<le> n
    \<and> (snd (mq_Push j q') = Some ErrQueueFull \<longleftrightarrow> recvq q' = 0 \<and> int (length (buf q')) = n)"
proof -
  have q: "mq_wf q" "buf q = []" "int (capacity q) = n"
    using new NewMemoryQueue_wf [OF new] by (auto simp: NewMemoryQueue_def split: if_splits)
  have "mq_wf q' \<and> capacity q' = capacity q \<and> buf q @ accepted = out @ buf q'"
    by (rule mq_run_fifo_wf [OF q(1) run])
  then show ?thesis using q by (auto simp: mq_wf_def mq_Push_def)
qed

definition demo_jobs :: "string \<Rightarrow> job" where
  "demo_jobs i = zero_job\<lparr>ID := i\<rparr>"

theorem queue_fifo_witness:
  "case NewMemoryQueue 2 of
     None \<Rightarrow> False
   | Some q \<Rightarrow>
       (case mq_run [OpPush (demo_jobs ''a''), OpPop False False, OpPop False False,
                     OpPush (demo_jobs ''b''), OpResume, OpPush (demo_jobs ''c''),
                     OpPush (demo_jobs ''d''), OpPush (demo_jobs ''e'')] q of
          (q', accepted, out) \<Rightarrow>
            map ID accepted = [''a'', ''b'', ''c'', ''d''] \<and> map ID out = [''a'', ''b'']
            \<and> accepted = out @ buf q' \<and> snd (mq_Push (demo_jobs ''f'') q') = Some ErrQueueFull)"
proof -
  let ?ops = "[OpPush (demo_jobs ''a''), OpPop False False, OpPop False False,
               OpPush (demo_jobs ''b''), OpResume, OpPush (demo_jobs ''c''),
               OpPush (demo_jobs ''d''), OpPush (demo_jobs ''e'')]"
  let ?q = "\<lparr>buf = [], capacity = 2, recvq = 0, handed = []\<rparr>"
  have new: "NewMemoryQueue 2 = Some ?q" by (simp add: NewMemoryQueue_def)
  obtain q' acc out where run: "mq_run ?ops ?q = (q', acc, out)" by (metis surj_pair)
  have "map ID acc = [''a'', ''b'', ''c'', ''d''] \<and> map ID out = [''a'', ''b'']
      \<and> map ID (buf q') = [''c'', ''d''] \<and> recvq q' = 0 \<and> length (buf q') = 2"
    using run by (auto simp: mq_defs demo_jobs_def zero_job_def)
  then show ?thesis using queue_fifo [OF new run, of "demo_jobs ''f''"] new run
    by (simp del: mq_run.simps)
qed


end
