(* ===== verification/Store_Interface.thy ===== *)
theory Store_Interface
  imports Queue_Types
begin

text \<open>
  The metadata store interface \<open>storage.Store\<close> (\<open>internal/storage/storage.go\<close>): its operations
  as a dictionary, its abstract specification over plain maps, and the contract its clients rely
  on as a locale. \<open>observability.StorageStats\<close> is here too, since the interface returns it.
\<close>

section \<open>The operations\<close>

record StorageStats =
  Total :: int
  ByStatus :: "(JobStatus, int) gomap"
  PDFBytes :: int
  OldestJobAt :: time

text \<open>
  \<open>Set\<close> receives a pointer and may complete the record it points to, so it returns the pointee
  after the call. The operations that read return a state as well: a remote store talks to its
  server. The time argument is what \<open>time.Now()\<close> returns inside the call.
\<close>

record 's store_ops =
  s_Set :: "time \<Rightarrow> string \<Rightarrow> job_result \<Rightarrow> 's \<Rightarrow> 's \<times> job_result \<times> go_error option"
  s_Delete :: "string \<Rightarrow> 's \<Rightarrow> 's \<times> go_error option"
  s_Get :: "string \<Rightarrow> 's \<Rightarrow> 's \<times> job_result result"
  s_Cancel :: "time \<Rightarrow> string \<Rightarrow> 's \<Rightarrow> 's \<times> job_result result"
  s_ReserveIdempotencyKey :: "string \<Rightarrow> string \<Rightarrow> 's \<Rightarrow> 's \<times> (string \<times> bool) result"
  s_Stats :: "'s \<Rightarrow> 's \<times> StorageStats"
  s_List :: "'s \<Rightarrow> 's \<times> job_snapshot list"

section \<open>The abstract store\<close>

type_synonym jobs_view = "string \<rightharpoonup> job_result"
type_synonym keys_view = "string \<rightharpoonup> string"

text \<open>
  The record a \<open>Set\<close> leaves behind: the creation time and the request's identifying fields are
  inherited from the existing record where the new one does not carry them.
\<close>

definition inherit_created :: "time \<Rightarrow> job_result option \<Rightarrow> job_result \<Rightarrow> job_result" where
  "inherit_created now existing r =
     (if time_is_zero (CreatedAt r)
      then (case existing of
              Some e \<Rightarrow> if \<not> time_is_zero (CreatedAt e) then r\<lparr>CreatedAt := CreatedAt e\<rparr>
                        else r\<lparr>CreatedAt := now\<rparr>
            | None \<Rightarrow> r\<lparr>CreatedAt := now\<rparr>)
      else r)"

definition inherit_fields :: "job_result option \<Rightarrow> job_result \<Rightarrow> job_result" where
  "inherit_fields existing r =
     (case existing of
        None \<Rightarrow> r
      | Some e \<Rightarrow>
          r\<lparr>IdempotencyKey := (if IdempotencyKey r = '''' then IdempotencyKey e else IdempotencyKey r),
            CallbackURL := (if CallbackURL r = '''' then CallbackURL e else CallbackURL r),
            RequestID := (if RequestID r = '''' then RequestID e else RequestID r)\<rparr>)"

definition merge_result :: "time \<Rightarrow> job_result option \<Rightarrow> job_result \<Rightarrow> job_result" where
  "merge_result now existing r =
     inherit_fields existing ((inherit_created now existing r)\<lparr>UpdatedAt := now\<rparr>)"

definition spec_set :: "time \<Rightarrow> string \<Rightarrow> job_result \<Rightarrow> jobs_view \<Rightarrow> jobs_view" where
  "spec_set now i r m = m(i \<mapsto> merge_result now (m i) r)"

definition mark_canceled :: "job_result \<Rightarrow> job_result" where
  "mark_canceled r = r\<lparr>Status := StatusCanceled, Error := ''job canceled''\<rparr>"

definition spec_cancel :: "time \<Rightarrow> string \<Rightarrow> jobs_view \<Rightarrow> jobs_view" where
  "spec_cancel now i m =
     (case m i of
        None \<Rightarrow> m
      | Some r \<Rightarrow> if terminal (Status r) then m else spec_set now i (mark_canceled r) m)"

definition spec_delete_key :: "job_result option \<Rightarrow> keys_view \<Rightarrow> keys_view" where
  "spec_delete_key old k =
     (case old of None \<Rightarrow> k
      | Some r \<Rightarrow> if IdempotencyKey r \<noteq> '''' then k(IdempotencyKey r := None) else k)"

definition spec_reserve :: "string \<Rightarrow> string \<Rightarrow> keys_view \<Rightarrow> keys_view \<times> string \<times> bool" where
  "spec_reserve key jobID k =
     (if key = '''' then (k, '''', True)
      else case k key of Some existing \<Rightarrow> (k, existing, False)
           | None \<Rightarrow> (k(key \<mapsto> jobID), jobID, True))"

lemma merge_result_simps [simp]:
  "URL (merge_result now old r) = URL r"
  "Status (merge_result now old r) = Status r"
  "Error (merge_result now old r) = Error r"
  "PDFKey (merge_result now old r) = PDFKey r"
  "PDFSize (merge_result now old r) = PDFSize r"
  "PDF (merge_result now old r) = PDF r"
  "UpdatedAt (merge_result now old r) = now"
  by (simp_all add: merge_result_def inherit_fields_def inherit_created_def split: option.splits)

lemma merge_result_keeps:
  "IdempotencyKey r \<noteq> '''' \<Longrightarrow> IdempotencyKey (merge_result now old r) = IdempotencyKey r"
  "CallbackURL r \<noteq> '''' \<Longrightarrow> CallbackURL (merge_result now old r) = CallbackURL r"
  "RequestID r \<noteq> '''' \<Longrightarrow> RequestID (merge_result now old r) = RequestID r"
  "CreatedAt r \<noteq> 0 \<Longrightarrow> CreatedAt (merge_result now old r) = CreatedAt r"
  by (simp_all add: merge_result_def inherit_fields_def inherit_created_def go_simps
      split: option.splits)

lemma merge_result_inherits:
  "IdempotencyKey r = '''' \<Longrightarrow> IdempotencyKey (merge_result now (Some e) r) = IdempotencyKey e"
  "CallbackURL r = '''' \<Longrightarrow> CallbackURL (merge_result now (Some e) r) = CallbackURL e"
  "RequestID r = '''' \<Longrightarrow> RequestID (merge_result now (Some e) r) = RequestID e"
  "CreatedAt r = 0 \<Longrightarrow> CreatedAt e \<noteq> 0 \<Longrightarrow> CreatedAt (merge_result now (Some e) r) = CreatedAt e"
  by (simp_all add: merge_result_def inherit_fields_def inherit_created_def go_simps)

lemma merge_result_fresh:
  "merge_result now None r =
     r\<lparr>CreatedAt := (if CreatedAt r = 0 then now else CreatedAt r), UpdatedAt := now\<rparr>"
  by (simp add: merge_result_def inherit_fields_def inherit_created_def go_simps)

lemma merge_result_created_nonzero: "now \<noteq> 0 \<Longrightarrow> CreatedAt (merge_result now old r) \<noteq> 0"
  by (simp add: merge_result_def inherit_fields_def inherit_created_def go_simps
      split: option.splits)

lemma mark_canceled_simps [simp]:
  "Status (mark_canceled r) = StatusCanceled" "Error (mark_canceled r) = ''job canceled''"
  "URL (mark_canceled r) = URL r" "IdempotencyKey (mark_canceled r) = IdempotencyKey r"
  "PDFKey (mark_canceled r) = PDFKey r" "CreatedAt (mark_canceled r) = CreatedAt r"
  "CallbackURL (mark_canceled r) = CallbackURL r" "RequestID (mark_canceled r) = RequestID r"
  by (simp_all add: mark_canceled_def)

lemma spec_set_apply [simp]:
  "spec_set now i r m j = (if j = i then Some (merge_result now (m i) r) else m j)"
  by (simp add: spec_set_def)

section \<open>The contract\<close>

text \<open>What a caller sees of a record it handed to \<open>Set\<close>: only bookkeeping fields may change.\<close>

definition same_outcome :: "job_result \<Rightarrow> job_result \<Rightarrow> bool" where
  "same_outcome a b \<longleftrightarrow> URL a = URL b \<and> Status a = Status b \<and> Error a = Error b
     \<and> PDFKey a = PDFKey b \<and> PDFSize a = PDFSize b"

lemma same_outcome_refl [simp]: "same_outcome r r"
  by (simp add: same_outcome_def)

lemma same_outcome_merge [simp]: "same_outcome (merge_result now old r) r"
  by (simp add: same_outcome_def)

text \<open>
  \<open>view\<close> and \<open>keys\<close> are the abstract store behind a concrete state. Every law speaks of calls
  that succeed; what a store does when a call fails is left open, except that failing keeps its
  own invariant.
\<close>

locale job_store =
  fixes S :: "'s store_ops"
    and inv :: "'s \<Rightarrow> bool"
    and view :: "'s \<Rightarrow> jobs_view"
    and keys :: "'s \<Rightarrow> keys_view"
  assumes set_inv: "inv s \<Longrightarrow> now \<noteq> 0 \<Longrightarrow> inv (fst (s_Set S now i r s))"
    and set_view: "inv s \<Longrightarrow> now \<noteq> 0 \<Longrightarrow> s_Set S now i r s = (s', r', None) \<Longrightarrow>
        view s' = spec_set now i r (view s) \<and> keys s' = keys s \<and> same_outcome r' r"
    and set_pointee: "same_outcome (fst (snd (s_Set S now i r s))) r"
    and get_inv: "inv s \<Longrightarrow> inv (fst (s_Get S i s))"
    and get_frame: "inv s \<Longrightarrow> view (fst (s_Get S i s)) = view s \<and> keys (fst (s_Get S i s)) = keys s"
    and get_view: "inv s \<Longrightarrow> s_Get S i s = (s', Inr r) \<Longrightarrow> view s i = Some r"
    and delete_inv: "inv s \<Longrightarrow> inv (fst (s_Delete S i s))"
    and delete_view: "inv s \<Longrightarrow> s_Delete S i s = (s', None) \<Longrightarrow>
        view s' = (view s)(i := None) \<and> keys s' = spec_delete_key (view s i) (keys s)"
    and cancel_inv: "inv s \<Longrightarrow> now \<noteq> 0 \<Longrightarrow> inv (fst (s_Cancel S now i s))"
    and cancel_view: "inv s \<Longrightarrow> now \<noteq> 0 \<Longrightarrow> s_Cancel S now i s = (s', Inr r) \<Longrightarrow>
        view s i \<noteq> None \<and> view s' = spec_cancel now i (view s) \<and> keys s' = keys s
        \<and> same_outcome r (the (view s' i))"
    and reserve_inv: "inv s \<Longrightarrow> inv (fst (s_ReserveIdempotencyKey S key i s))"
    and reserve_view: "inv s \<Longrightarrow> s_ReserveIdempotencyKey S key i s = (s', Inr (j, fresh)) \<Longrightarrow>
        view s' = view s \<and> spec_reserve key i (keys s) = (keys s', j, fresh)"
begin

lemma set_other:
  "inv s \<Longrightarrow> now \<noteq> 0 \<Longrightarrow> s_Set S now i r s = (s', r', None) \<Longrightarrow> j \<noteq> i \<Longrightarrow> view s' j = view s j"
  by (drule (2) set_view) simp

lemma cancel_terminal:
  "inv s \<Longrightarrow> now \<noteq> 0 \<Longrightarrow> s_Cancel S now i s = (s', Inr r) \<Longrightarrow>
     \<exists>r1. view s' i = Some r1 \<and> terminal (Status r1) \<and> Status r = Status r1"
  by (drule (2) cancel_view)
    (auto simp: spec_cancel_def same_outcome_def split: if_splits option.splits)

lemma cancel_keeps_terminal:
  "inv s \<Longrightarrow> now \<noteq> 0 \<Longrightarrow> s_Cancel S now i s = (s', Inr r) \<Longrightarrow> view s j = Some q \<Longrightarrow>
     terminal (Status q) \<Longrightarrow> view s' j = Some q"
  by (drule (2) cancel_view) (auto simp: spec_cancel_def split: if_splits option.splits)

end

text \<open>A store whose calls do not fail, as the in-memory one.\<close>

locale total_job_store = job_store +
  assumes set_total: "inv s \<Longrightarrow> snd (snd (s_Set S now i r s)) = None"
    and get_total: "inv s \<Longrightarrow> view s i = Some r \<Longrightarrow> snd (s_Get S i s) = Inr r"
    and get_missing: "inv s \<Longrightarrow> view s i = None \<Longrightarrow> \<exists>e. snd (s_Get S i s) = Inl e"
    and delete_total: "inv s \<Longrightarrow> snd (s_Delete S i s) = None"
    and cancel_total: "inv s \<Longrightarrow> view s i \<noteq> None \<Longrightarrow> \<exists>r. snd (s_Cancel S now i s) = Inr r"
    and cancel_missing: "inv s \<Longrightarrow> view s i = None \<Longrightarrow>
        \<exists>e. s_Cancel S now i s = (s, Inl e)"
    and reserve_total: "inv s \<Longrightarrow> \<exists>j fresh. snd (s_ReserveIdempotencyKey S key i s) = Inr (j, fresh)"
begin

lemma set_total_view:
  assumes "inv s" "now \<noteq> 0"
  shows "view (fst (s_Set S now i r s)) = spec_set now i r (view s)"
    and "keys (fst (s_Set S now i r s)) = keys s"
proof -
  obtain s' r' where eq: "s_Set S now i r s = (s', r', None)"
    using set_total [OF assms(1), of now i r] by (metis prod.collapse)
  show "view (fst (s_Set S now i r s)) = spec_set now i r (view s)"
    and "keys (fst (s_Set S now i r s)) = keys s"
    using set_view [OF assms eq] eq by simp_all
qed

lemma get_iff:
  "inv s \<Longrightarrow> snd (s_Get S i s) = Inr r \<longleftrightarrow> view s i = Some r"
  by (cases "view s i") (auto dest: get_total get_missing)

end

end
