(* ===== verification/Memory_Storage.thy ===== *)
theory Memory_Storage
  imports Store_Interface
begin

text \<open>
  The in-memory metadata store (\<open>internal/storage/memory.go\<close>). Each operation runs under the
  store's mutex and is one step; \<open>Cancel\<close> is not: it is a \<open>Get\<close> and a \<open>Set\<close> with the lock
  released in between, which the theory of interleavings takes apart again.
\<close>

section \<open>State and operations\<close>

text \<open>\<open>onSet\<close> says whether a change callback is installed; the server's callback is a broadcast.\<close>

record mem_storage =
  results :: "(string, job_result) gomap"
  idempotency :: "(string, string) gomap"
  order :: "string list"
  onSet :: bool

definition NewMemoryStorage :: mem_storage where
  "NewMemoryStorage = \<lparr>results = [], idempotency = [], order = [], onSet = False\<rparr>"

definition mem_SetOnChange :: "bool \<Rightarrow> mem_storage \<Rightarrow> mem_storage" where
  "mem_SetOnChange f s = s\<lparr>onSet := f\<rparr>"

definition mem_Set ::
    "time \<Rightarrow> string \<Rightarrow> job_result \<Rightarrow> mem_storage \<Rightarrow> mem_storage \<times> job_result \<times> go_error option" where
  "mem_Set now jobID result s =
     (let existing = map_of (results s) jobID;
          order' = (if existing = None then order s @ [jobID] else order s);
          result' = merge_result now existing result
      in (s\<lparr>results := gm_put jobID result' (results s), order := order'\<rparr>, result', None))"

definition mem_Delete :: "string \<Rightarrow> mem_storage \<Rightarrow> mem_storage \<times> go_error option" where
  "mem_Delete jobID s =
     (case map_of (results s) jobID of
        None \<Rightarrow> (s, None)
      | Some result \<Rightarrow>
          (s\<lparr>results := gm_del jobID (results s),
             idempotency := (if IdempotencyKey result \<noteq> ''''
                             then gm_del (IdempotencyKey result) (idempotency s)
                             else idempotency s),
             order := remove1 jobID (order s)\<rparr>, None))"

definition mem_Get :: "string \<Rightarrow> mem_storage \<Rightarrow> mem_storage \<times> job_result result" where
  "mem_Get jobID s =
     (s, case map_of (results s) jobID of
           None \<Rightarrow> Inl (ErrNew ''job not found'')
         | Some result \<Rightarrow> Inr result)"

definition mem_Cancel :: "time \<Rightarrow> string \<Rightarrow> mem_storage \<Rightarrow> mem_storage \<times> job_result result" where
  "mem_Cancel now jobID s =
     (case mem_Get jobID s of
        (s1, Inl e) \<Rightarrow> (s1, Inl e)
      | (s1, Inr result) \<Rightarrow>
          if Status result = StatusCompleted \<or> Status result = StatusFailed
             \<or> Status result = StatusCanceled
          then (s1, Inr result)
          else (case mem_Set now jobID (mark_canceled result) s1 of
                  (s2, result', Some e) \<Rightarrow> (s2, Inl e)
                | (s2, result', None) \<Rightarrow> (s2, Inr result')))"

definition mem_ReserveIdempotencyKey ::
    "string \<Rightarrow> string \<Rightarrow> mem_storage \<Rightarrow> mem_storage \<times> (string \<times> bool) result" where
  "mem_ReserveIdempotencyKey key jobID s =
     (if key = '''' then (s, Inr ('''', True))
      else (case map_of (idempotency s) key of
              Some existing \<Rightarrow> (s, Inr (existing, False))
            | None \<Rightarrow> (s\<lparr>idempotency := gm_put key jobID (idempotency s)\<rparr>, Inr (jobID, True))))"

text \<open>\<open>Stats\<close> folds over the records in the order the runtime happens to iterate the map.\<close>

definition stats_step :: "job_result \<Rightarrow> StorageStats \<Rightarrow> StorageStats" where
  "stats_step result stats =
     stats\<lparr>ByStatus := gm_put (Status result) (gm_get0 (ByStatus stats) (Status result) + 1) (ByStatus stats),
           PDFBytes := PDFBytes stats + (PDFSize result + int (length (PDF result))),
           OldestJobAt := (if time_is_zero (OldestJobAt stats)
                              \<or> time_before (CreatedAt result) (OldestJobAt stats)
                           then CreatedAt result else OldestJobAt stats)\<rparr>"

definition empty_stats :: "int \<Rightarrow> StorageStats" where
  "empty_stats n = \<lparr>Total = n, ByStatus = [], PDFBytes = 0, OldestJobAt = 0\<rparr>"

definition stats_over :: "(string \<times> job_result) list \<Rightarrow> StorageStats" where
  "stats_over entries =
     fold (\<lambda>(_, result). stats_step result) entries (empty_stats (int (length entries)))"

definition mem_Stats :: "mem_storage \<Rightarrow> mem_storage \<times> StorageStats" where
  "mem_Stats s = (s, stats_over (results s))"

definition mem_snapshots :: "mem_storage \<Rightarrow> job_snapshot list" where
  "mem_snapshots s =
     List.map_filter (\<lambda>jobID. map_option (snapshot_of jobID) (map_of (results s) jobID)) (order s)"

text \<open>\<open>sort.SliceStable\<close> by creation time, newest first.\<close>

definition newest_first :: "job_snapshot list \<Rightarrow> job_snapshot list" where
  "newest_first jobs = sort_key (\<lambda>j. - snap_CreatedAt j) jobs"

definition mem_List :: "mem_storage \<Rightarrow> mem_storage \<times> job_snapshot list" where
  "mem_List s = (s, newest_first (mem_snapshots s))"

definition mem_store_ops :: "mem_storage store_ops" where
  "mem_store_ops = \<lparr>s_Set = mem_Set, s_Delete = mem_Delete, s_Get = mem_Get, s_Cancel = mem_Cancel,
     s_ReserveIdempotencyKey = mem_ReserveIdempotencyKey, s_Stats = mem_Stats, s_List = mem_List\<rparr>"

lemma mem_store_ops_simps [simp]:
  "s_Set mem_store_ops = mem_Set" "s_Delete mem_store_ops = mem_Delete"
  "s_Get mem_store_ops = mem_Get" "s_Cancel mem_store_ops = mem_Cancel"
  "s_ReserveIdempotencyKey mem_store_ops = mem_ReserveIdempotencyKey"
  "s_Stats mem_store_ops = mem_Stats" "s_List mem_store_ops = mem_List"
  by (simp_all add: mem_store_ops_def)

section \<open>Well-formedness\<close>

text \<open>
  The submission order lists exactly the stored jobs, each once, and every record carries real
  times.
\<close>

definition ms_wf :: "mem_storage \<Rightarrow> bool" where
  "ms_wf s \<longleftrightarrow> gm_wf (results s) \<and> gm_wf (idempotency s) \<and> distinct (order s)
     \<and> set (order s) = set (gm_keys (results s))
     \<and> (\<forall>(i, r) \<in> set (results s). CreatedAt r \<noteq> 0 \<and> UpdatedAt r \<noteq> 0)"

definition ms_view :: "mem_storage \<Rightarrow> jobs_view" where
  "ms_view s = map_of (results s)"

definition ms_keys :: "mem_storage \<Rightarrow> keys_view" where
  "ms_keys s = map_of (idempotency s)"

lemma ms_wf_new: "ms_wf NewMemoryStorage"
  by (simp add: ms_wf_def NewMemoryStorage_def)

lemma ms_wf_order_iff: "ms_wf s \<Longrightarrow> i \<in> set (order s) \<longleftrightarrow> map_of (results s) i \<noteq> None"
  by (auto simp: ms_wf_def map_of_None_iff_keys)

lemma set_gm_put_subset: "set (gm_put k v m) \<subseteq> insert (k, v) (set m)"
  by (induction m) auto

lemma set_gm_del_subset: "set (gm_del k m) \<subseteq> set m"
  by (auto simp: AList.delete_eq)

lemma ms_wf_Set [wf_intros]:
  assumes wf: "ms_wf s" and now: "now \<noteq> 0"
  shows "ms_wf (fst (mem_Set now i r s))"
proof -
  let ?r = "merge_result now (map_of (results s) i) r"
  let ?m = "gm_put i ?r (results s)"
  have times: "CreatedAt q \<noteq> 0 \<and> UpdatedAt q \<noteq> 0" if "(j, q) \<in> set ?m" for j q
  proof -
    from that have "(j, q) \<in> insert (i, ?r) (set (results s))" using set_gm_put_subset by fast
    then show ?thesis using wf now by (auto simp: ms_wf_def merge_result_created_nonzero)
  qed
  have ord: "i \<in> set (order s) \<longleftrightarrow> map_of (results s) i \<noteq> None" by (rule ms_wf_order_iff [OF wf])
  have "gm_wf ?m" using wf by (auto simp: ms_wf_def intro: gm_wf_put)
  with wf times ord show ?thesis
    by (auto simp: ms_wf_def mem_Set_def Let_def gm_put_keys)
qed

lemma ms_wf_Delete [wf_intros]:
  assumes wf: "ms_wf s"
  shows "ms_wf (fst (mem_Delete i s))"
proof (cases "map_of (results s) i")
  case None
  then show ?thesis using wf by (simp add: mem_Delete_def)
next
  case (Some r)
  have "set (gm_del i (results s)) \<subseteq> set (results s)" by (rule set_gm_del_subset)
  moreover have "set (remove1 i (order s)) = set (order s) - {i}"
    using wf by (simp add: ms_wf_def set_remove1_distinct)
  ultimately show ?thesis using wf Some
    by (auto simp: ms_wf_def mem_Delete_def gm_del_keys gm_wf_del distinct_remove1)
qed

lemma ms_wf_Reserve [wf_intros]: "ms_wf s \<Longrightarrow> ms_wf (fst (mem_ReserveIdempotencyKey k i s))"
  by (auto simp: ms_wf_def mem_ReserveIdempotencyKey_def gm_wf_put split: option.splits)

lemma mem_Get_simps [simp]:
  "fst (mem_Get i s) = s"
  "mem_Get i s = (s', Inr r) \<longleftrightarrow> s' = s \<and> map_of (results s) i = Some r"
  by (auto simp: mem_Get_def split: option.splits)

lemma mem_Cancel_cases:
  "mem_Cancel now i s =
     (case map_of (results s) i of
        None \<Rightarrow> (s, Inl (ErrNew ''job not found''))
      | Some r \<Rightarrow> if terminal (Status r) then (s, Inr r)
                  else (fst (mem_Set now i (mark_canceled r) s),
                        Inr (merge_result now (Some r) (mark_canceled r))))"
  by (auto simp: mem_Cancel_def mem_Get_def terminal_def mem_Set_def Let_def split: option.splits)

lemma ms_wf_Cancel [wf_intros]: "ms_wf s \<Longrightarrow> now \<noteq> 0 \<Longrightarrow> ms_wf (fst (mem_Cancel now i s))"
  by (auto simp: mem_Cancel_cases intro: ms_wf_Set split: option.splits)

section \<open>Refinement of the abstract store\<close>

lemma ms_view_Set [store_simps]:
  "ms_view (fst (mem_Set now i r s)) = spec_set now i r (ms_view s)"
  "ms_keys (fst (mem_Set now i r s)) = ms_keys s"
  by (simp_all add: ms_view_def ms_keys_def mem_Set_def spec_set_def Let_def)

lemma ms_view_Delete [store_simps]:
  "ms_view (fst (mem_Delete i s)) = (ms_view s)(i := None)"
  "ms_keys (fst (mem_Delete i s)) = spec_delete_key (ms_view s i) (ms_keys s)"
  by (auto simp: ms_view_def ms_keys_def mem_Delete_def spec_delete_key_def split: option.splits)

lemma ms_view_Cancel [store_simps]:
  "ms_view (fst (mem_Cancel now i s)) = spec_cancel now i (ms_view s)"
  "ms_keys (fst (mem_Cancel now i s)) = ms_keys s"
  using ms_view_Set [of now i _ s]
  by (auto simp: mem_Cancel_cases spec_cancel_def ms_view_def split: option.splits)

lemma ms_view_Reserve [store_simps]:
  "ms_view (fst (mem_ReserveIdempotencyKey k i s)) = ms_view s"
  "ms_keys (fst (mem_ReserveIdempotencyKey k i s)) = fst (spec_reserve k i (ms_keys s))"
  by (auto simp: ms_view_def ms_keys_def mem_ReserveIdempotencyKey_def spec_reserve_def
      split: option.splits)

lemma mem_Set_result:
  "mem_Set now i r s = (s', r', e) \<Longrightarrow> r' = merge_result now (ms_view s i) r \<and> e = None"
  by (auto simp: mem_Set_def ms_view_def Let_def)

lemma mem_Delete_result: "snd (mem_Delete i s) = None"
  by (simp add: mem_Delete_def split: option.splits)

lemma mem_Reserve_result:
  "snd (mem_ReserveIdempotencyKey k i s) = Inr (snd (spec_reserve k i (ms_keys s)))"
  by (auto simp: mem_ReserveIdempotencyKey_def spec_reserve_def ms_keys_def split: option.splits)

interpretation ms: total_job_store mem_store_ops ms_wf ms_view ms_keys
proof (unfold_locales, goal_cases)
  case (2 s now i r s' r')
  then show ?case using ms_view_Set [of now i r s] mem_Set_result [of now i r s s' r' None] by simp
next
  case (3 now i r s)
  show ?case using mem_Set_result [of now i r s] by (cases "mem_Set now i r s") auto
next
  case (8 s i s')
  then show ?case using ms_view_Delete [of i s] by simp
next
  case (10 s now i s' r)
  then show ?case using ms_view_Cancel [of now i s]
    by (auto simp: mem_Cancel_cases ms_view_def spec_cancel_def mem_Set_def Let_def
        split: option.splits if_splits)
next
  case (12 s key i s' j fresh)
  then show ?case using ms_view_Reserve [of key i s] mem_Reserve_result [of key i s]
    by (cases "spec_reserve key i (ms_keys s)") auto
next
  case (13 s now i r)
  then show ?case by (simp add: mem_Set_def Let_def)
next
  case (19 s key i)
  show ?case by (simp add: mem_Reserve_result)
qed (auto simp: ms_view_def mem_Get_def mem_Delete_result mem_Cancel_cases split: option.splits
      intro: wf_intros)

end
