(* ===== verification/Storage_Properties.thy ===== *)
theory Storage_Properties
  imports Memory_Storage
begin

text \<open>
  What the in-memory store promises its users: runs of operations keep it well-formed and refine
  the abstract store, listings are complete, ordered and stable, the statistics are exact and do
  not depend on Go's map iteration order, and an idempotency key is granted once.
\<close>

section \<open>Runs\<close>

datatype store_op =
    SetOp time string job_result
  | DeleteOp string
  | CancelOp time string
  | ReserveOp string string

fun mem_op :: "store_op \<Rightarrow> mem_storage \<Rightarrow> mem_storage" where
  "mem_op (SetOp now i r) s = fst (mem_Set now i r s)"
| "mem_op (DeleteOp i) s = fst (mem_Delete i s)"
| "mem_op (CancelOp now i) s = fst (mem_Cancel now i s)"
| "mem_op (ReserveOp k i) s = fst (mem_ReserveIdempotencyKey k i s)"

fun spec_op :: "store_op \<Rightarrow> jobs_view \<times> keys_view \<Rightarrow> jobs_view \<times> keys_view" where
  "spec_op (SetOp now i r) (m, k) = (spec_set now i r m, k)"
| "spec_op (DeleteOp i) (m, k) = (m(i := None), spec_delete_key (m i) k)"
| "spec_op (CancelOp now i) (m, k) = (spec_cancel now i m, k)"
| "spec_op (ReserveOp key i) (m, k) = (m, fst (spec_reserve key i k))"

fun op_time_ok :: "store_op \<Rightarrow> bool" where
  "op_time_ok (SetOp now i r) = (now \<noteq> 0)"
| "op_time_ok (CancelOp now i) = (now \<noteq> 0)"
| "op_time_ok _ = True"

definition mem_run :: "store_op list \<Rightarrow> mem_storage \<Rightarrow> mem_storage" where
  "mem_run ops s = fold mem_op ops s"

definition abs_store :: "mem_storage \<Rightarrow> jobs_view \<times> keys_view" where
  "abs_store s = (ms_view s, ms_keys s)"

lemma mem_op_refines: "abs_store (mem_op op s) = spec_op op (abs_store s)"
  by (cases op) (simp_all add: abs_store_def store_simps)

lemma mem_op_wf: "ms_wf s \<Longrightarrow> op_time_ok op \<Longrightarrow> ms_wf (mem_op op s)"
  by (cases op) (auto intro: wf_intros)

text \<open>C13: Refinement. Any run of store operations takes the abstract store (job records and
  reserved keys) exactly where the same run of the abstract operations takes it.\<close>

theorem mem_run_refines: "abs_store (mem_run ops s) = fold spec_op ops (abs_store s)"
  by (induction ops arbitrary: s) (simp_all add: mem_run_def mem_op_refines)

lemma mem_run_wf_from: "ms_wf s \<Longrightarrow> \<forall>op \<in> set ops. op_time_ok op \<Longrightarrow> ms_wf (mem_run ops s)"
  by (induction ops arbitrary: s) (simp_all add: mem_run_def mem_op_wf)

text \<open>Invariant. After any run of operations on a new store, the submission order lists every
  stored job exactly once, no key is stored twice, and every record has real times.\<close>

theorem mem_run_wf:
  "\<forall>op \<in> set ops. op_time_ok op \<Longrightarrow> ms_wf (mem_run ops NewMemoryStorage)"
  by (rule mem_run_wf_from [OF ms_wf_new])

theorem mem_run_wf_witness:
  "ms_wf (mem_run [SetOp 5 ''a'' zero_result, CancelOp 7 ''a'', DeleteOp ''a''] NewMemoryStorage)"
  by (rule mem_run_wf) simp

section \<open>Listing\<close>

lemma newest_first_set [simp]: "set (newest_first js) = set js"
  by (simp add: newest_first_def)

lemma newest_first_mset [simp]: "mset (newest_first js) = mset js"
  by (simp add: newest_first_def)

lemma newest_first_sorted:
  "sorted_wrt (\<lambda>a b. snap_CreatedAt b \<le> snap_CreatedAt a) (newest_first js)"
proof -
  have "sorted (map (\<lambda>j. - snap_CreatedAt j) (newest_first js))"
    by (simp add: newest_first_def)
  then show ?thesis by (simp add: sorted_map)
qed

lemma newest_first_stable:
  "filter (\<lambda>j. snap_CreatedAt j = t) (newest_first js) = filter (\<lambda>j. snap_CreatedAt j = t) js"
  using sort_key_stable [of "\<lambda>j. - snap_CreatedAt j" "- t" js] by (simp add: newest_first_def)

lemma mem_snapshots_eq:
  assumes "ms_wf s"
  shows "mem_snapshots s = map (\<lambda>i. snapshot_of i (the (map_of (results s) i))) (order s)"
proof -
  have "map_of (results s) i \<noteq> None" if "i \<in> set (order s)" for i
    using that ms_wf_order_iff [OF assms] by simp
  then show ?thesis unfolding mem_snapshots_def
    by (intro map_filter_total) fastforce
qed

lemma mem_snapshots_ids: "ms_wf s \<Longrightarrow> map snap_ID (mem_snapshots s) = order s"
  by (simp add: mem_snapshots_eq comp_def)

text \<open>\<open>List\<close> returns each stored job once and nothing else, newest first, and jobs created at
  the same time in the order they were first stored.\<close>

theorem mem_List_correct:
  assumes "ms_wf s" and "snd (mem_List s) = js"
  shows "distinct (map snap_ID js)
    \<and> set js = {snapshot_of i r | i r. ms_view s i = Some r}
    \<and> sorted_wrt (\<lambda>a b. snap_CreatedAt b \<le> snap_CreatedAt a) js
    \<and> (\<forall>t. filter (\<lambda>j. snap_CreatedAt j = t) js = filter (\<lambda>j. snap_CreatedAt j = t) (mem_snapshots s))
    \<and> map snap_ID (mem_snapshots s) = order s"
proof -
  have js: "js = newest_first (mem_snapshots s)" using assms(2) by (simp add: mem_List_def)
  have "mset (map snap_ID js) = mset (map snap_ID (mem_snapshots s))" by (simp add: js)
  moreover have "distinct (map snap_ID (mem_snapshots s))"
    using assms(1) by (simp add: mem_snapshots_ids ms_wf_def)
  ultimately have "distinct (map snap_ID js)" by (metis mset_eq_imp_distinct_iff)
  moreover have "set js = {snapshot_of i r | i r. ms_view s i = Some r}"
    using ms_wf_order_iff [OF assms(1)]
    by (force simp: js mem_snapshots_eq [OF assms(1)] ms_view_def image_iff)
  ultimately show ?thesis
    using newest_first_sorted newest_first_stable mem_snapshots_ids [OF assms(1)]
    by (simp add: js)
qed

definition demo_result :: "time \<Rightarrow> job_result" where
  "demo_result t = zero_result\<lparr>URL := ''http://e'', Status := StatusPending, CreatedAt := t, UpdatedAt := t\<rparr>"

definition demo_store :: mem_storage where
  "demo_store = mem_run [SetOp 5 ''a'' (demo_result 5), SetOp 6 ''b'' (demo_result 6),
     SetOp 7 ''c'' (demo_result 6)] NewMemoryStorage"

lemma demo_store_wf: "ms_wf demo_store"
  unfolding demo_store_def by (rule mem_run_wf_from [OF ms_wf_new]) simp

theorem mem_List_correct_witness:
  "map snap_ID (snd (mem_List demo_store)) = [''b'', ''c'', ''a'']
   \<and> distinct (map snap_ID (snd (mem_List demo_store)))"
proof
  show "map snap_ID (snd (mem_List demo_store)) = [''b'', ''c'', ''a'']" by code_simp
  show "distinct (map snap_ID (snd (mem_List demo_store)))"
    using mem_List_correct [OF demo_store_wf refl] by blast
qed

section \<open>Statistics\<close>

lemma stats_step_fields [simp]:
  "Total (stats_step r st) = Total st"
  "PDFBytes (stats_step r st) = PDFBytes st + (PDFSize r + int (length (PDF r)))"
  "gm_get0 (ByStatus (stats_step r st)) x
     = gm_get0 (ByStatus st) x + (if x = Status r then 1 else 0)"
  by (simp_all add: stats_step_def)

lemma fold_stats_fields:
  "Total (fold (\<lambda>(_, r). stats_step r) es st) = Total st"
  "PDFBytes (fold (\<lambda>(_, r). stats_step r) es st)
     = PDFBytes st + (\<Sum>(_, r)\<leftarrow>es. PDFSize r + int (length (PDF r)))"
  "gm_get0 (ByStatus (fold (\<lambda>(_, r). stats_step r) es st)) x
     = gm_get0 (ByStatus st) x + int (length (filter (\<lambda>(_, r). Status r = x) es))"
  by (induction es arbitrary: st) (auto simp: case_prod_beta)

text \<open>The oldest creation time, as the loop finds it among records with real times.\<close>

lemma fold_stats_oldest:
  assumes "\<forall>(i, r) \<in> set es. CreatedAt r \<noteq> 0"
  shows "OldestJobAt (fold (\<lambda>(_, r). stats_step r) es st) =
     (if OldestJobAt st = 0 then (if es = [] then 0 else Min (CreatedAt ` snd ` set es))
      else Min (insert (OldestJobAt st) (CreatedAt ` snd ` set es)))"
  using assms
proof (induction es arbitrary: st)
  case Nil
  then show ?case by simp
next
  case (Cons e es)
  obtain i r where e: "e = (i, r)" by (cases e)
  let ?st = "stats_step r st"
  have r: "CreatedAt r \<noteq> 0" using Cons.prems e by simp
  have old: "OldestJobAt ?st =
      (if OldestJobAt st = 0 then CreatedAt r else min (CreatedAt r) (OldestJobAt st))"
    by (auto simp: stats_step_def go_simps)
  then have nz: "OldestJobAt ?st \<noteq> 0" using r by (auto simp: min_def)
  have ih: "OldestJobAt (fold (\<lambda>(_, r). stats_step r) es ?st) =
      Min (insert (OldestJobAt ?st) (CreatedAt ` snd ` set es))"
    using Cons nz by simp
  have ins: "Min (insert (min a b) A) = Min (insert b (insert a A))" if "finite A"
    for a b :: int and A
    using that by (cases "A = {}") (auto simp: min.commute min.left_commute)
  show ?case using ih old e by (simp add: ins insert_commute)
qed

text \<open>\<open>Stats\<close> counts exactly: the total and each status count are the numbers of stored
  records, the byte count is their sum, the oldest time is the least creation time, and none of
  it depends on the order in which the Go runtime iterates over the map.\<close>

theorem mem_Stats_correct:
  assumes wf: "ms_wf s" and perm: "mset entries = mset (results s)"
  shows "Total (stats_over entries) = int (card (dom (ms_view s)))
    \<and> (\<forall>x. gm_get0 (ByStatus (stats_over entries)) x
           = int (card {i. \<exists>r. ms_view s i = Some r \<and> Status r = x}))
    \<and> PDFBytes (stats_over entries) = PDFBytes (snd (mem_Stats s))
    \<and> OldestJobAt (stats_over entries)
        = (if results s = [] then 0 else Min (CreatedAt ` ran (ms_view s)))"
proof -
  let ?es = entries
  have set_eq: "set ?es = set (results s)" by (rule mset_eq_setD [OF perm])
  have len: "length ?es = length (results s)" by (rule mset_eq_length [OF perm])
  have dist: "distinct (gm_keys (results s))" using wf by (simp add: ms_wf_def gm_wf_def)
  have total: "length (results s) = card (dom (ms_view s))"
    using distinct_card [OF dist] by (simp add: ms_view_def dom_map_of_conv_image_fst)
  have count: "length (filter (\<lambda>(_, r). Status r = x) ?es)
      = card {i. \<exists>r. ms_view s i = Some r \<and> Status r = x}" for x
  proof -
    let ?f = "filter (\<lambda>(_, r). Status r = x) (results s)"
    have "mset (filter (\<lambda>(_, r). Status r = x) ?es) = mset ?f" using perm by simp
    then have "length (filter (\<lambda>(_, r). Status r = x) ?es) = length (map fst ?f)"
      by (metis mset_eq_length length_map)
    also have "\<dots> = card (set (map fst ?f))"
      using dist by (intro distinct_card [symmetric] distinct_map_filter)
    also have "set (map fst ?f) = {i. \<exists>r. ms_view s i = Some r \<and> Status r = x}"
      using dist by (force simp: ms_view_def)
    finally show ?thesis .
  qed
  have bytes: "(\<Sum>(_, r)\<leftarrow>?es. PDFSize r + int (length (PDF r)))
      = (\<Sum>(_, r)\<leftarrow>results s. PDFSize r + int (length (PDF r)))"
    by (simp only: sum_mset_sum_list [symmetric] mset_map perm)
  have created: "\<forall>(i, r) \<in> set ?es. CreatedAt r \<noteq> 0" using wf set_eq by (auto simp: ms_wf_def)
  have "ran (ms_view s) = snd ` set (results s)"
    using ran_distinct [OF dist] by (simp add: ms_view_def)
  then have oldest: "OldestJobAt (stats_over ?es)
      = (if results s = [] then 0 else Min (CreatedAt ` ran (ms_view s)))"
    using fold_stats_oldest [OF created] set_eq
    by (auto simp: stats_over_def empty_stats_def)
  show ?thesis
    using total count bytes oldest len
    by (simp add: stats_over_def mem_Stats_def fold_stats_fields empty_stats_def)
qed

theorem mem_Stats_correct_witness:
  "OldestJobAt (stats_over (rev (results demo_store))) = 5
   \<and> gm_get0 (ByStatus (stats_over (rev (results demo_store)))) StatusPending = 3
   \<and> Total (stats_over (rev (results demo_store))) = int (card (dom (ms_view demo_store)))"
proof -
  have "Total (stats_over (rev (results demo_store))) = int (card (dom (ms_view demo_store)))"
    using mem_Stats_correct [OF demo_store_wf, of "rev (results demo_store)"] by simp
  moreover have "OldestJobAt (stats_over (rev (results demo_store))) = 5" by code_simp
  moreover have "gm_get0 (ByStatus (stats_over (rev (results demo_store)))) StatusPending = 3"
    by code_simp
  ultimately show ?thesis by blast
qed

end
