(* ===== verification/Go_Float.thy ===== *)
theory Go_Float
  imports Go_Runtime Complex_Main "HOL-Library.Log_Nat"
begin

text \<open>
  \<open>float64\<close> values as the rationals they denote, with the rounding to 53 significant bits (ties to
  even) that every Go operation performs. The magnitudes of the program, nanoseconds to sums of
  years of seconds, are far from overflow and from subnormal numbers, which are not modelled.
\<close>

definition pow2 :: "int \<Rightarrow> rat" where
  "pow2 k = (if 0 \<le> k then 2 ^ nat k else 1 / 2 ^ nat (- k))"

definition round_half_even :: "rat \<Rightarrow> int" where
  "round_half_even x =
     (let f = \<lfloor>x\<rfloor>; d = x - of_int f
      in if d < 1 / 2 then f else if d > 1 / 2 then f + 1 else if even f then f else f + 1)"

text \<open>The scaling exponent that brings a positive rational between 2 to the 52 and 2 to the 53.\<close>

definition float_scale :: "rat \<Rightarrow> int" where
  "float_scale x =
     (case quotient_of x of (p, q) \<Rightarrow>
        let e = bitlen p - bitlen q in if pow2 e \<le> x then 52 - e else 53 - e)"

definition float_round :: "rat \<Rightarrow> rat" where
  "float_round x =
     (if x = 0 then 0
      else let k = float_scale \<bar>x\<bar>
           in sgn x * of_int (round_half_even (\<bar>x\<bar> * pow2 k)) / pow2 k)"

definition float_add :: "rat \<Rightarrow> rat \<Rightarrow> rat" where
  "float_add a b = float_round (a + b)"

definition float_div :: "rat \<Rightarrow> rat \<Rightarrow> rat" where
  "float_div a b = float_round (a / b)"

text \<open>Truncating division of Go integers, and \<open>Duration.Seconds\<close>.\<close>

definition go_div :: "int \<Rightarrow> int \<Rightarrow> int" where
  "go_div a b = sgn a * sgn b * (\<bar>a\<bar> div \<bar>b\<bar>)"

definition go_mod :: "int \<Rightarrow> int \<Rightarrow> int" where
  "go_mod a b = a - b * go_div a b"

definition duration_seconds :: "duration \<Rightarrow> rat" where
  "duration_seconds d =
     float_add (float_round (of_int (go_div d second)))
               (float_div (float_round (of_int (go_mod d second))) (of_int second))"

end
