(* ===== verification/Metrics.thy ===== *)
theory Metrics
  imports Go_Float Store_Interface
begin

text \<open>
  The metrics registry (\<open>internal/observability/metrics.go\<close>): counters as 64-bit words that wrap
  around, histograms with cumulative buckets, and the order in which a scrape writes them.
\<close>

section \<open>State\<close>

datatype httpLabel = HttpLabel (lbl_method: string) (lbl_path: string) (lbl_code: string)

text \<open>The order of \<open>sortedHTTPKeys\<close>.\<close>

definition http_label_less :: "httpLabel \<Rightarrow> httpLabel \<Rightarrow> bool" where
  "http_label_less a b \<longleftrightarrow>
     (if lbl_method a \<noteq> lbl_method b then lbl_method a < lbl_method b
      else if lbl_path a \<noteq> lbl_path b then lbl_path a < lbl_path b
      else lbl_code a < lbl_code b)"

instantiation httpLabel :: linorder
begin

definition less_httpLabel :: "httpLabel \<Rightarrow> httpLabel \<Rightarrow> bool" where
  "less_httpLabel a b \<longleftrightarrow> http_label_less a b"

definition less_eq_httpLabel :: "httpLabel \<Rightarrow> httpLabel \<Rightarrow> bool" where
  "less_eq_httpLabel a b \<longleftrightarrow> a = b \<or> a < b"

instance
proof
  fix a b c :: httpLabel
  show "(a < b) = (a \<le> b \<and> \<not> b \<le> a)"
    by (auto simp: less_eq_httpLabel_def less_httpLabel_def http_label_less_def httpLabel.expand split: if_splits)
  show "a \<le> a" by (simp add: less_eq_httpLabel_def)
  show "a \<le> b \<Longrightarrow> b \<le> c \<Longrightarrow> a \<le> c"
    by (auto simp: less_eq_httpLabel_def less_httpLabel_def http_label_less_def split: if_splits)
  show "a \<le> b \<Longrightarrow> b \<le> a \<Longrightarrow> a = b"
    by (auto simp: less_eq_httpLabel_def less_httpLabel_def http_label_less_def split: if_splits)
  show "a \<le> b \<or> b \<le> a"
    by (cases a; cases b) (auto simp: less_eq_httpLabel_def less_httpLabel_def http_label_less_def)
qed

end

type_synonym counter = "64 word"

definition renderBucketBounds :: "rat list" where
  "renderBucketBounds = [1, 5 / 2, 5, 10, 15, 30, 60, 120]"

definition httpBucketBounds :: "rat list" where
  "httpBucketBounds = map float_round
     [5 / 1000, 1 / 100, 25 / 1000, 5 / 100, 1 / 10, 25 / 100, 5 / 10, 1, 5 / 2, 5, 10]"

record metrics =
  jobsSubmitted :: counter
  jobsRejected :: "(string, counter) gomap"
  jobsFinished :: "(string, counter) gomap"
  renderCount :: "(string, counter) gomap"
  renderSum :: "(string, rat) gomap"
  renderBuckets :: "(string, counter list) gomap"
  pdfBytes :: counter
  activeWorkers :: counter
  httpRequests :: "(httpLabel, counter) gomap"
  httpCount :: "(httpLabel, counter) gomap"
  httpSum :: "(httpLabel, rat) gomap"
  httpBuckets :: "(httpLabel, counter list) gomap"

definition NewMetrics :: metrics where
  "NewMetrics = \<lparr>jobsSubmitted = 0, jobsRejected = [], jobsFinished = [], renderCount = [],
     renderSum = [], renderBuckets = [], pdfBytes = 0, activeWorkers = 0, httpRequests = [],
     httpCount = [], httpSum = [], httpBuckets = []\<rparr>"

section \<open>Updates\<close>

definition bump :: "'k \<Rightarrow> ('k, counter) gomap \<Rightarrow> ('k, counter) gomap" where
  "bump k m = gm_put k (gm_get0 m k + 1) m"

text \<open>
  One observation of a histogram: the bucket slice is created on first use, then every bucket
  whose bound is at least the value is incremented.
\<close>

definition observe_buckets ::
    "rat list \<Rightarrow> rat \<Rightarrow> 'k \<Rightarrow> ('k, counter list) gomap \<Rightarrow> ('k, counter list) gomap" where
  "observe_buckets bounds secs k m =
     (let old = (case map_of m k of None \<Rightarrow> replicate (length bounds) 0 | Some bs \<Rightarrow> bs)
      in gm_put k (map2 (\<lambda>upper c. if secs \<le> upper then c + 1 else c) bounds old) m)"

definition JobSubmitted :: "metrics \<Rightarrow> metrics" where
  "JobSubmitted m = m\<lparr>jobsSubmitted := jobsSubmitted m + 1\<rparr>"

definition JobRejected :: "string \<Rightarrow> metrics \<Rightarrow> metrics" where
  "JobRejected reason m = m\<lparr>jobsRejected := bump reason (jobsRejected m)\<rparr>"

definition WorkerStarted :: "metrics \<Rightarrow> metrics" where
  "WorkerStarted m = m\<lparr>activeWorkers := activeWorkers m + 1\<rparr>"

definition WorkerStopped :: "metrics \<Rightarrow> metrics" where
  "WorkerStopped m = m\<lparr>activeWorkers := activeWorkers m - 1\<rparr>"

definition RenderFinished :: "string \<Rightarrow> duration \<Rightarrow> int \<Rightarrow> metrics \<Rightarrow> metrics" where
  "RenderFinished status dur nbytes m =
     (let secs = duration_seconds dur
      in m\<lparr>jobsFinished := bump status (jobsFinished m),
           renderCount := bump status (renderCount m),
           renderSum := gm_put status (float_add (gm_get0 (renderSum m) status) secs) (renderSum m),
           renderBuckets := observe_buckets renderBucketBounds secs status (renderBuckets m),
           pdfBytes := (if 0 < nbytes then pdfBytes m + word_of_int nbytes else pdfBytes m)\<rparr>)"

definition RecordHTTP :: "string \<Rightarrow> string \<Rightarrow> string \<Rightarrow> duration \<Rightarrow> metrics \<Rightarrow> metrics" where
  "RecordHTTP meth path code dur m =
     (let label = HttpLabel meth path code; secs = duration_seconds dur
      in m\<lparr>httpRequests := bump label (httpRequests m),
           httpCount := bump label (httpCount m),
           httpSum := gm_put label (float_add (gm_get0 (httpSum m) label) secs) (httpSum m),
           httpBuckets := observe_buckets httpBucketBounds secs label (httpBuckets m)\<rparr>)"

section \<open>Key order of a scrape\<close>

text \<open>
  \<open>sortedStringKeys\<close>, \<open>sortedJobStatusKeys\<close> and \<open>sortedHTTPKeys\<close> collect the keys in iteration
  order and sort them by the order of their type.
\<close>

definition sorted_keys :: "('k::linorder, 'v) gomap \<Rightarrow> 'k list" where
  "sorted_keys m = sort (gm_keys m)"

section \<open>Histograms count exactly\<close>

lemma gm_get0_bump [simp]: "gm_get0 (bump k m) k' = gm_get0 m k' + (if k' = k then 1 else 0)"
  by (simp add: bump_def)

text \<open>The bucket list a key should hold after the observations \<open>vs\<close> of that key.\<close>

definition bucket_counts :: "rat list \<Rightarrow> rat list \<Rightarrow> counter list" where
  "bucket_counts bounds vs = map (\<lambda>upper. of_nat (length (filter (\<lambda>v. v \<le> upper) vs))) bounds"

lemma bucket_counts_Nil: "bucket_counts bounds [] = replicate (length bounds) 0"
  by (simp add: bucket_counts_def map_replicate_const)

lemma bucket_counts_snoc:
  "bucket_counts bounds (vs @ [v]) =
     map2 (\<lambda>upper c. if v \<le> upper then c + 1 else c) bounds (bucket_counts bounds vs)"
  by (induction bounds) (simp_all add: bucket_counts_def)

definition buckets_for :: "rat list \<Rightarrow> ('k \<times> rat) list \<Rightarrow> 'k \<Rightarrow> counter list option" where
  "buckets_for bounds obs k =
     (let vs = map snd (filter (\<lambda>(k', _). k' = k) obs)
      in if vs = [] then None else Some (bucket_counts bounds vs))"

lemma observe_buckets_step:
  assumes "\<forall>k. map_of m k = buckets_for bounds obs k"
  shows "map_of (observe_buckets bounds v k m) k' = buckets_for bounds (obs @ [(k, v)]) k'"
proof (cases "k' = k")
  case True
  have old: "(case map_of m k of None \<Rightarrow> replicate (length bounds) 0 | Some bs \<Rightarrow> bs)
      = bucket_counts bounds (map snd (filter (\<lambda>(k', _). k' = k) obs))"
    using assms by (auto simp: buckets_for_def Let_def bucket_counts_Nil split: option.splits)
  show ?thesis using True
    by (simp add: observe_buckets_def Let_def old bucket_counts_snoc buckets_for_def)
next
  case False
  then show ?thesis using assms by (simp add: observe_buckets_def buckets_for_def Let_def)
qed

text \<open>A render observation: status, duration, size of the PDF.\<close>

type_synonym render_obs = "string \<times> duration \<times> int"

definition render_run :: "render_obs list \<Rightarrow> metrics \<Rightarrow> metrics" where
  "render_run obs m = fold (\<lambda>(st, d, n). RenderFinished st d n) obs m"

definition obs_secs :: "render_obs list \<Rightarrow> (string \<times> rat) list" where
  "obs_secs obs = map (\<lambda>(st, d, n). (st, duration_seconds d)) obs"

lemma render_run_snoc:
  "render_run (obs @ [(st, d, n)]) m = RenderFinished st d n (render_run obs m)"
  by (simp add: render_run_def)

text \<open>After any sequence of finished renders the counter of each status is its number of
  renders modulo 2 to the 64, the bucket of each bound counts exactly the renders of that status
  that took at most the bound, and the byte counter sums the positive sizes.\<close>

theorem render_metrics_exact:
  "gm_get0 (jobsFinished (render_run obs NewMetrics)) st
       = of_nat (length (filter (\<lambda>(s, _). s = st) obs))
   \<and> gm_get0 (renderCount (render_run obs NewMetrics)) st
       = gm_get0 (jobsFinished (render_run obs NewMetrics)) st
   \<and> map_of (renderBuckets (render_run obs NewMetrics)) st
       = buckets_for renderBucketBounds (obs_secs obs) st
   \<and> pdfBytes (render_run obs NewMetrics)
       = word_of_int (\<Sum>(_, _, n)\<leftarrow>obs. max 0 n)"
proof (induction obs arbitrary: st rule: rev_induct)
  case Nil
  show ?case by (simp add: render_run_def NewMetrics_def buckets_for_def obs_secs_def)
next
  case (snoc x obs)
  obtain s d n where x: "x = (s, d, n)" by (cases x)
  have buckets: "map_of (renderBuckets (render_run (obs @ [x]) NewMetrics)) st
      = buckets_for renderBucketBounds (obs_secs (obs @ [x])) st"
    using observe_buckets_step [of "renderBuckets (render_run obs NewMetrics)" renderBucketBounds
        "obs_secs obs" "duration_seconds d" s st] snoc
    by (simp add: x render_run_snoc RenderFinished_def Let_def obs_secs_def)
  show ?case using snoc [of st] snoc [of s] buckets
    by (auto simp: x render_run_snoc RenderFinished_def Let_def)
qed

text \<open>
  Consequently the buckets of a histogram are cumulative: counted without wrap-around, a larger
  bound never counts fewer renders, and no bucket more than the total.
\<close>

lemma bucket_nat_mono:
  "u \<le> (w :: rat) \<Longrightarrow> length (filter (\<lambda>v. v \<le> u) vs) \<le> length (filter (\<lambda>v. v \<le> w) vs)"
  by (induction vs) auto

text \<open>The buckets are cumulative: while fewer than 2 to the 64 renders were observed, the
  bucket of a larger bound is at least the bucket of a smaller one, and the bucket of the largest
  bound is at most the count, as the exposition format requires.\<close>

theorem render_buckets_cumulative:
  assumes "length obs < 2 ^ 64"
    and "map_of (renderBuckets (render_run obs NewMetrics)) st = Some bs"
    and "i \<le> j" and "j < length renderBucketBounds"
  shows "length bs = length renderBucketBounds \<and> bs ! i \<le> bs ! j
    \<and> bs ! j \<le> gm_get0 (renderCount (render_run obs NewMetrics)) st"
proof -
  let ?b = renderBucketBounds
  let ?vs = "map snd (filter (\<lambda>(k', _). k' = st) (obs_secs obs))"
  have bs: "bs = bucket_counts ?b ?vs"
    using assms(2) render_metrics_exact [of obs st]
    by (auto simp: buckets_for_def Let_def split: if_splits)
  have len: "length ?vs = length (filter (\<lambda>(s, _). s = st) obs)"
    by (simp add: obs_secs_def filter_map comp_def split_def)
  then have small: "length ?vs < 2 ^ 64" using assms(1) length_filter_le
    by (metis order.strict_trans1)
  have cnt: "gm_get0 (renderCount (render_run obs NewMetrics)) st = of_nat (length ?vs)"
    using render_metrics_exact [of obs st] len by simp
  have "sorted ?b" by (simp add: renderBucketBounds_def)
  then have "?b ! i \<le> ?b ! j" using assms(3,4) by (rule sorted_nth_mono)
  then have le: "length (filter (\<lambda>v. v \<le> ?b ! i) ?vs) \<le> length (filter (\<lambda>v. v \<le> ?b ! j) ?vs)"
    by (rule bucket_nat_mono)
  have nth: "bs ! k = of_nat (length (filter (\<lambda>v. v \<le> ?b ! k) ?vs))" if "k < length ?b" for k
    using that bs by (simp add: bucket_counts_def)
  have word_le: "(of_nat a :: counter) \<le> of_nat b" if "a \<le> b" "b \<le> length ?vs" for a b
    using that small by (simp add: word_le_nat_alt unat_of_nat)
  have i: "i < length ?b" using assms(3,4) by simp
  have "bs ! i \<le> bs ! j" unfolding nth [OF i] nth [OF assms(4)]
    by (rule word_le [OF le length_filter_le])
  moreover have "bs ! j \<le> gm_get0 (renderCount (render_run obs NewMetrics)) st"
    unfolding nth [OF assms(4)] cnt by (rule word_le [OF length_filter_le order_refl])
  ultimately show ?thesis using bs by (simp add: bucket_counts_def)
qed

theorem render_buckets_cumulative_witness:
  "map_of (renderBuckets (render_run [(''completed'', 3 * second, 10)] NewMetrics)) ''completed''
      = Some [0, 0, 1, 1, 1, 1, 1, 1]
   \<and> ([0, 0, 1, 1, 1, 1, 1, 1] :: counter list) ! 1 \<le> [0, 0, 1, 1, 1, 1, 1, 1] ! 2"
proof -
  have bs: "map_of (renderBuckets (render_run [(''completed'', 3 * second, 10)] NewMetrics)) ''completed''
      = Some [0, 0, 1, 1, 1, 1, 1, 1]"
    by code_simp
  show ?thesis
    using bs render_buckets_cumulative [OF _ bs, of 1 2] by (simp add: renderBucketBounds_def)
qed

text \<open>A scrape lists the keys of each metric in increasing order without repetition, whatever
  order the runtime iterates the map in.\<close>

theorem sorted_keys_deterministic:
  fixes m m' :: "(httpLabel, counter) gomap"
  assumes "gm_wf m" and "mset m' = mset m"
  shows "sorted_keys m' = sorted_keys m \<and> sorted (sorted_keys m) \<and> distinct (sorted_keys m)
    \<and> set (sorted_keys m) = dom (map_of m)"
proof -
  have "mset (gm_keys m') = mset (gm_keys m)" using assms(2) by simp
  then have "sort (gm_keys m') = sort (gm_keys m)"
    by (metis properties_for_sort mset_sort sorted_sort)
  then show ?thesis using assms(1)
    by (simp add: sorted_keys_def gm_wf_def dom_map_of_conv_image_fst)
qed

theorem sorted_keys_deterministic_witness:
  "sorted_keys [(HttpLabel ''POST'' ''/pdf'' ''202'', 1), (HttpLabel ''GET'' ''/'' ''200'', 2 :: counter)]
     = [HttpLabel ''GET'' ''/'' ''200'', HttpLabel ''POST'' ''/pdf'' ''202'']
   \<and> sorted_keys [(HttpLabel ''GET'' ''/'' ''200'', 2 :: counter), (HttpLabel ''POST'' ''/pdf'' ''202'', 1)]
     = sorted_keys [(HttpLabel ''POST'' ''/pdf'' ''202'', 1), (HttpLabel ''GET'' ''/'' ''200'', 2 :: counter)]"
proof
  show "sorted_keys [(HttpLabel ''POST'' ''/pdf'' ''202'', 1), (HttpLabel ''GET'' ''/'' ''200'', 2 :: counter)]
     = [HttpLabel ''GET'' ''/'' ''200'', HttpLabel ''POST'' ''/pdf'' ''202'']"
    by code_simp
  show "sorted_keys [(HttpLabel ''GET'' ''/'' ''200'', 2 :: counter), (HttpLabel ''POST'' ''/pdf'' ''202'', 1)]
     = sorted_keys [(HttpLabel ''POST'' ''/pdf'' ''202'', 1), (HttpLabel ''GET'' ''/'' ''200'', 2 :: counter)]"
    using sorted_keys_deterministic
      [of "[(HttpLabel ''POST'' ''/pdf'' ''202'', 1), (HttpLabel ''GET'' ''/'' ''200'', 2 :: counter)]"
          "[(HttpLabel ''GET'' ''/'' ''200'', 2 :: counter), (HttpLabel ''POST'' ''/pdf'' ''202'', 1)]"]
    by (simp add: gm_wf_def)
qed

end
