(* ===== verification/Cancel_Registry.thy ===== *)
theory Cancel_Registry
  imports Queue_Types
begin

text \<open>
  The registry of in-process render contexts (\<open>internal/cancellation/registry.go\<close>). A
  \<open>context.CancelFunc\<close> is the number of the context it cancels; \<open>Cancel\<close> returns the contexts it
  cancels beside its result, since the cancelling itself happens outside the lock.
\<close>

type_synonym context_id = nat

type_synonym registry = "(string, context_id) gomap"

definition NewRegistry :: registry where
  "NewRegistry = []"

definition reg_Register :: "string \<Rightarrow> context_id \<Rightarrow> registry \<Rightarrow> registry" where
  "reg_Register jobID cancel r = gm_put jobID cancel r"

definition reg_Unregister :: "string \<Rightarrow> registry \<Rightarrow> registry" where
  "reg_Unregister jobID r = gm_del jobID r"

definition reg_Cancel :: "string \<Rightarrow> registry \<Rightarrow> bool \<times> context_id list" where
  "reg_Cancel jobID r =
     (case map_of r jobID of Some cancel \<Rightarrow> (True, [cancel]) | None \<Rightarrow> (False, []))"

lemma reg_wf [wf_intros]:
  "gm_wf r \<Longrightarrow> gm_wf (reg_Register i c r)" "gm_wf r \<Longrightarrow> gm_wf (reg_Unregister i r)"
  by (simp_all add: reg_Register_def reg_Unregister_def wf_intros)

lemma reg_Cancel_registered: "reg_Cancel i (reg_Register i c r) = (True, [c])"
  by (simp add: reg_Cancel_def reg_Register_def)

lemma reg_Cancel_unregistered: "reg_Cancel i (reg_Unregister i r) = (False, [])"
  by (simp add: reg_Cancel_def reg_Unregister_def)

lemma reg_Cancel_other:
  "j \<noteq> i \<Longrightarrow> reg_Cancel j (reg_Register i c r) = reg_Cancel j r"
  "j \<noteq> i \<Longrightarrow> reg_Cancel j (reg_Unregister i r) = reg_Cancel j r"
  by (simp_all add: reg_Cancel_def reg_Register_def reg_Unregister_def)

text \<open>A registration that is taken back leaves no trace when the job was not registered before.\<close>

lemma reg_bracket: "map_of r i = None \<Longrightarrow> reg_Unregister i (reg_Register i c r) = r"
  by (simp add: reg_Unregister_def reg_Register_def delete_update_same map_of_None_iff_keys)

end
