(* ===== verification/Blob_Store.thy ===== *)
theory Blob_Store
  imports Queue_Types
begin

text \<open>
  Object storage for the generated PDFs: the interface \<open>blob.Store\<close> (\<open>internal/blob/blob.go\<close>) with
  its contract, and the in-memory implementation (\<open>internal/blob/memory.go\<close>). The copies the
  code makes of its byte slices are what lets them be values here.
\<close>

section \<open>The interface\<close>

record 'b blob_ops =
  b_Put :: "string \<Rightarrow> bytes \<Rightarrow> 'b \<Rightarrow> 'b \<times> go_error option"
  b_Get :: "string \<Rightarrow> 'b \<Rightarrow> 'b \<times> bytes result"
  b_Delete :: "string \<Rightarrow> 'b \<Rightarrow> 'b \<times> go_error option"

text \<open>
  The contract, for the keys an implementation can tell apart (\<open>usable\<close>). A write that fails may or
  may not have happened, but only to its own object.
\<close>

locale blob_store =
  fixes B :: "'b blob_ops"
    and objects :: "'b \<Rightarrow> (string \<rightharpoonup> bytes)"
    and usable :: "string \<Rightarrow> bool"
  assumes put_objects: "usable k \<Longrightarrow> b_Put B k d b = (b', None) \<Longrightarrow> usable j \<Longrightarrow>
      objects b' j = ((objects b)(k \<mapsto> d)) j"
    and put_failed: "usable k \<Longrightarrow> b_Put B k d b = (b', Some e) \<Longrightarrow> usable j \<Longrightarrow> j \<noteq> k \<Longrightarrow>
      objects b' j = objects b j"
    and get_frame: "usable k \<Longrightarrow> usable j \<Longrightarrow> objects (fst (b_Get B k b)) j = objects b j"
    and get_objects: "usable k \<Longrightarrow> b_Get B k b = (b', Inr d) \<Longrightarrow> objects b k = Some d"
    and delete_objects: "usable k \<Longrightarrow> b_Delete B k b = (b', None) \<Longrightarrow> usable j \<Longrightarrow>
      objects b' j = ((objects b)(k := None)) j"
    and delete_failed: "usable k \<Longrightarrow> b_Delete B k b = (b', Some e) \<Longrightarrow> usable j \<Longrightarrow> j \<noteq> k \<Longrightarrow>
      objects b' j = objects b j"
begin

lemma put_get:
  "usable k \<Longrightarrow> b_Put B k d b = (b1, None) \<Longrightarrow> b_Get B k b1 = (b2, Inr d') \<Longrightarrow> d' = d"
  using put_objects [of k d b b1 k] get_objects [of k b1 b2 d'] by simp

lemma put_other:
  "usable k \<Longrightarrow> b_Put B k d b = (b', r) \<Longrightarrow> usable j \<Longrightarrow> j \<noteq> k \<Longrightarrow> objects b' j = objects b j"
  by (cases r) (auto dest: put_objects put_failed)

lemma get_missing:
  "usable k \<Longrightarrow> objects b k = None \<Longrightarrow> \<exists>e. snd (b_Get B k b) = Inl e"
  using get_objects [of k b] by (cases "b_Get B k b"; cases "snd (b_Get B k b)") auto

end

section \<open>In memory\<close>

type_synonym mem_blobs = "(string, bytes) gomap"

definition NewMemoryStore :: mem_blobs where
  "NewMemoryStore = []"

definition mb_Put :: "string \<Rightarrow> bytes \<Rightarrow> mem_blobs \<Rightarrow> mem_blobs \<times> go_error option" where
  "mb_Put key data b = (gm_put key data b, None)"

definition mb_Get :: "string \<Rightarrow> mem_blobs \<Rightarrow> mem_blobs \<times> bytes result" where
  "mb_Get key b =
     (b, case map_of b key of None \<Rightarrow> Inl (ErrNew ''object not found'') | Some d \<Rightarrow> Inr d)"

definition mb_Delete :: "string \<Rightarrow> mem_blobs \<Rightarrow> mem_blobs \<times> go_error option" where
  "mb_Delete key b = (gm_del key b, None)"

definition mem_blob_ops :: "mem_blobs blob_ops" where
  "mem_blob_ops = \<lparr>b_Put = mb_Put, b_Get = mb_Get, b_Delete = mb_Delete\<rparr>"

lemma mem_blob_ops_simps [simp]:
  "b_Put mem_blob_ops = mb_Put" "b_Get mem_blob_ops = mb_Get" "b_Delete mem_blob_ops = mb_Delete"
  by (simp_all add: mem_blob_ops_def)

lemma mb_simps [simp]:
  "mb_Put k d b = (gm_put k d b, None)" "mb_Delete k b = (gm_del k b, None)"
  "fst (mb_Get k b) = b"
  "mb_Get k b = (b', Inr d) \<longleftrightarrow> b' = b \<and> map_of b k = Some d"
  by (auto simp: mb_Put_def mb_Delete_def mb_Get_def split: option.splits)

interpretation mb: blob_store mem_blob_ops map_of "\<lambda>_. True"
  by unfold_locales (auto simp: mb_Get_def split: option.splits)

end
