(* ===== verification/Go_Strings.thy ===== *)
theory Go_Strings
  imports Go_Runtime
begin

text \<open>
  The functions of Go's \<open>strings\<close> and \<open>strconv\<close> packages the program calls, on strings as lists
  of bytes. Unicode matters in three places only: the white space \<open>TrimSpace\<close> removes, and the
  two letters outside ASCII that fold to ASCII letters; both are spelled out as UTF-8 sequences.
\<close>

section \<open>Searching, cutting and joining\<close>

definition has_prefix :: "string \<Rightarrow> string \<Rightarrow> bool" where
  "has_prefix s p \<longleftrightarrow> take (length p) s = p"

definition has_suffix :: "string \<Rightarrow> string \<Rightarrow> bool" where
  "has_suffix s p \<longleftrightarrow> has_prefix (rev s) (rev p)"

definition trim_prefix :: "string \<Rightarrow> string \<Rightarrow> string" where
  "trim_prefix s p = (if has_prefix s p then drop (length p) s else s)"

definition trim_suffix :: "string \<Rightarrow> string \<Rightarrow> string" where
  "trim_suffix s p = (if has_suffix s p then take (length s - length p) s else s)"

definition contains_char :: "string \<Rightarrow> char \<Rightarrow> bool" where
  "contains_char s c \<longleftrightarrow> c \<in> set s"

text \<open>\<open>strings.Cut\<close> at the first separator byte: before, after, and whether it was found.\<close>

definition cut :: "string \<Rightarrow> char \<Rightarrow> string \<times> string \<times> bool" where
  "cut s c = (takeWhile (\<lambda>x. x \<noteq> c) s, tl (dropWhile (\<lambda>x. x \<noteq> c) s), c \<in> set s)"

text \<open>Cut at the last occurrence (\<open>LastIndex\<close> with slicing): before, after.\<close>

definition cut_last :: "string \<Rightarrow> char \<Rightarrow> string \<times> string" where
  "cut_last s c = (rev (tl (dropWhile (\<lambda>x. x \<noteq> c) (rev s))), rev (takeWhile (\<lambda>x. x \<noteq> c) (rev s)))"

fun split_on :: "char \<Rightarrow> string \<Rightarrow> string list" where
  "split_on c [] = [[]]"
| "split_on c (x # xs) =
     (if x = c then [] # split_on c xs
      else (case split_on c xs of [] \<Rightarrow> [[x]] | p # ps \<Rightarrow> (x # p) # ps))"

fun join_with :: "string \<Rightarrow> string list \<Rightarrow> string" where
  "join_with sep [] = []"
| "join_with sep [p] = p"
| "join_with sep (p # q # ps) = p @ sep @ join_with sep (q # ps)"

lemma split_on_nonempty [simp]: "split_on c s \<noteq> []"
  by (induction s) (auto split: list.splits)

lemma join_split [simp]: "join_with [c] (split_on c s) = s"
proof (induction s)
  case Nil
  then show ?case by simp
next
  case (Cons x xs)
  then show ?case by (cases "split_on c xs"; cases "tl (split_on c xs)") (auto split: list.splits)
qed

section \<open>White space and letter case\<close>

text \<open>The runes \<open>unicode.IsSpace\<close> accepts, as UTF-8.\<close>

definition space_runes :: "string list" where
  "space_runes =
    [[CHR 0x09], [CHR 0x0A], [CHR 0x0B], [CHR 0x0C], [CHR 0x0D], [CHR 0x20],
     [CHR 0xC2, CHR 0x85], [CHR 0xC2, CHR 0xA0], [CHR 0xE1, CHR 0x9A, CHR 0x80],
     [CHR 0xE2, CHR 0x80, CHR 0xA8], [CHR 0xE2, CHR 0x80, CHR 0xA9],
     [CHR 0xE2, CHR 0x80, CHR 0xAF], [CHR 0xE2, CHR 0x81, CHR 0x9F],
     [CHR 0xE3, CHR 0x80, CHR 0x80], [CHR 0xE2, CHR 0x80, CHR 0x80],
     [CHR 0xE2, CHR 0x80, CHR 0x81], [CHR 0xE2, CHR 0x80, CHR 0x82],
     [CHR 0xE2, CHR 0x80, CHR 0x83], [CHR 0xE2, CHR 0x80, CHR 0x84],
     [CHR 0xE2, CHR 0x80, CHR 0x85], [CHR 0xE2, CHR 0x80, CHR 0x86],
     [CHR 0xE2, CHR 0x80, CHR 0x87], [CHR 0xE2, CHR 0x80, CHR 0x88],
     [CHR 0xE2, CHR 0x80, CHR 0x89], [CHR 0xE2, CHR 0x80, CHR 0x8A]]"

definition first_match :: "string list \<Rightarrow> string \<Rightarrow> string option" where
  "first_match ps s = List.find (\<lambda>p. p \<noteq> [] \<and> has_prefix s p) ps"

lemma first_match_shorter: "first_match ps s = Some p \<Longrightarrow> length s - length p < length s"
  by (cases s) (auto simp: first_match_def find_Some_iff has_prefix_def)

function drop_all :: "string list \<Rightarrow> string \<Rightarrow> string" where
  "drop_all ps s =
     (case first_match ps s of None \<Rightarrow> s | Some p \<Rightarrow> drop_all ps (drop (length p) s))"
  by pat_completeness auto
termination
  by (relation "measure (\<lambda>(ps, s). length s)") (auto dest: first_match_shorter)

declare drop_all.simps [simp del]

text \<open>The same recursion with a plain conditional, which evaluation unfolds only where it has to.\<close>

lemma drop_all_code [code]:
  "drop_all ps s =
     (if first_match ps s = None then s
      else drop_all ps (drop (length (the (first_match ps s))) s))"
  by (subst drop_all.simps) (auto split: option.splits)


definition trim_space :: "string \<Rightarrow> string" where
  "trim_space s = rev (drop_all (map rev space_runes) (rev (drop_all space_runes s)))"

text \<open>Text that begins and ends with visible ASCII is left alone; blanks around it go.\<close>

definition graphic :: "char \<Rightarrow> bool" where
  "graphic c \<longleftrightarrow> CHR ''!'' \<le> c \<and> c \<le> CHR ''~''"

lemma space_runes_not_graphic:
  "list_all (\<lambda>p. p \<noteq> [] \<and> \<not> graphic (hd p) \<and> \<not> graphic (last p)) space_runes"
  by code_simp

lemma first_match_graphic:
  assumes "list_all (\<lambda>p. p \<noteq> [] \<and> \<not> graphic (hd p)) ps" and "s = [] \<or> graphic (hd s)"
  shows "first_match ps s = None"
proof -
  have "\<not> has_prefix s p" if p: "p \<in> set ps" for p
  proof
    assume "has_prefix s p"
    moreover from p assms(1) have "p \<noteq> []" "\<not> graphic (hd p)" by (auto simp: list_all_iff)
    ultimately show False using assms(2) by (cases s; cases p) (auto simp: has_prefix_def)
  qed
  then show ?thesis by (auto simp: first_match_def find_None_iff)
qed

lemma drop_all_graphic:
  "s = [] \<or> graphic (hd s) \<Longrightarrow> drop_all space_runes s = s"
  "s = [] \<or> graphic (hd s) \<Longrightarrow> drop_all (map rev space_runes) s = s"
proof -
  have "list_all (\<lambda>p. p \<noteq> [] \<and> \<not> graphic (hd p)) space_runes"
    "list_all (\<lambda>p. p \<noteq> [] \<and> \<not> graphic (hd p)) (map rev space_runes)"
    using space_runes_not_graphic by (auto simp: list_all_iff hd_rev)
  then show "s = [] \<or> graphic (hd s) \<Longrightarrow> drop_all space_runes s = s"
    "s = [] \<or> graphic (hd s) \<Longrightarrow> drop_all (map rev space_runes) s = s"
    by (subst drop_all.simps, simp add: first_match_graphic)+
qed

lemma first_match_blank:
  assumes "list_all (\<lambda>p. case p of [] \<Rightarrow> False | x # xs \<Rightarrow> x = CHR '' '' \<longrightarrow> xs = []) ps"
  shows "first_match ps (CHR '' '' # s) = first_match ps '' ''"
  using assms unfolding first_match_def
  by (induction ps) (auto simp: has_prefix_def split: list.splits)

lemma first_match_space:
  "first_match space_runes (CHR '' '' # s) = Some '' ''"
  "first_match (map rev space_runes) (CHR '' '' # s) = Some '' ''"
proof -
  let ?ok = "list_all (\<lambda>p. case p of [] \<Rightarrow> False | x # xs \<Rightarrow> x = CHR '' '' \<longrightarrow> xs = [])"
  have "?ok space_runes" by code_simp
  moreover have "?ok (map rev space_runes)" by code_simp
  moreover have "first_match space_runes '' '' = Some '' ''" by code_simp
  moreover have "first_match (map rev space_runes) '' '' = Some '' ''" by code_simp
  ultimately show "first_match space_runes (CHR '' '' # s) = Some '' ''"
    "first_match (map rev space_runes) (CHR '' '' # s) = Some '' ''"
    using first_match_blank [of space_runes s] first_match_blank [of "map rev space_runes" s]
    by (simp_all only: HOL.simp_thms)
qed

lemma drop_all_blank:
  "graphic (hd s) \<Longrightarrow> drop_all space_runes (CHR '' '' # s) = s"
  "graphic (hd s) \<Longrightarrow> drop_all (map rev space_runes) (CHR '' '' # s) = s"
  by (subst drop_all.simps, simp add: first_match_space drop_all_graphic)+

lemma trim_space_graphic:
  "s \<noteq> [] \<Longrightarrow> graphic (hd s) \<Longrightarrow> graphic (last s) \<Longrightarrow> trim_space s = s"
  "s \<noteq> [] \<Longrightarrow> graphic (hd s) \<Longrightarrow> graphic (last s) \<Longrightarrow> trim_space (CHR '' '' # s @ '' '') = s"
  by (simp_all add: trim_space_def drop_all_graphic drop_all_blank hd_rev)

lemma trim_space_Nil [simp]: "trim_space [] = []"
  by (simp add: trim_space_def drop_all_graphic)


definition is_upper :: "char \<Rightarrow> bool" where
  "is_upper c \<longleftrightarrow> CHR ''A'' \<le> c \<and> c \<le> CHR ''Z''"

definition is_lower :: "char \<Rightarrow> bool" where
  "is_lower c \<longleftrightarrow> CHR ''a'' \<le> c \<and> c \<le> CHR ''z''"

definition is_digit :: "char \<Rightarrow> bool" where
  "is_digit c \<longleftrightarrow> CHR ''0'' \<le> c \<and> c \<le> CHR ''9''"

definition is_alnum :: "char \<Rightarrow> bool" where
  "is_alnum c \<longleftrightarrow> is_upper c \<or> is_lower c \<or> is_digit c"

definition lower_char :: "char \<Rightarrow> char" where
  "lower_char c = (if is_upper c then char_of (of_char c + (32 :: nat)) else c)"

text \<open>
  \<open>strings.ToLower\<close>, as far as a comparison with an ASCII word can tell: besides the ASCII capitals
  the dotted capital I (C4 B0) and the Kelvin sign (E2 84 AA) have ASCII lower-case letters; every
  other rune stays outside ASCII and is left as it is.
\<close>

fun to_lower :: "string \<Rightarrow> string" where
  "to_lower (a # b # c # s) =
     (if a = char_of (0xE2 :: nat) \<and> b = char_of (0x84 :: nat) \<and> c = char_of (0xAA :: nat)
      then CHR ''k'' # to_lower s
      else if a = char_of (0xC4 :: nat) \<and> b = char_of (0xB0 :: nat)
      then CHR ''i'' # to_lower (c # s)
      else lower_char a # to_lower (b # c # s))"
| "to_lower [a, b] =
     (if a = char_of (0xC4 :: nat) \<and> b = char_of (0xB0 :: nat) then ''i''
      else [lower_char a, lower_char b])"
| "to_lower [a] = [lower_char a]"
| "to_lower [] = []"

text \<open>
  \<open>strings.EqualFold s t\<close> for an ASCII word \<open>t\<close>: besides the two cases of each letter, the long s
  (C5 BF) folds to \<open>s\<close> and the Kelvin sign to \<open>k\<close>.
\<close>

fun equal_fold :: "string \<Rightarrow> string \<Rightarrow> bool" where
  "equal_fold [] t = (t = [])"
| "equal_fold (a # s) [] = False"
| "equal_fold (a # s) (t # ts) =
     (if lower_char a = lower_char t then equal_fold s ts
      else if a = char_of (0xC5 :: nat) \<and> lower_char t = CHR ''s''
      then (case s of b # s' \<Rightarrow> b = char_of (0xBF :: nat) \<and> equal_fold s' ts | [] \<Rightarrow> False)
      else if a = char_of (0xE2 :: nat) \<and> lower_char t = CHR ''k''
      then (case s of b # c # s' \<Rightarrow> b = char_of (0x84 :: nat) \<and> c = char_of (0xAA :: nat)
                                     \<and> equal_fold s' ts
            | _ \<Rightarrow> False)
      else False)"

section \<open>Numbers\<close>

definition digit_char :: "nat \<Rightarrow> char" where
  "digit_char d = char_of (48 + d)"

definition digit_val :: "char \<Rightarrow> nat" where
  "digit_val c = of_char c - 48"

fun itoa_nat :: "nat \<Rightarrow> string" where
  "itoa_nat n = (if n < 10 then [digit_char n] else itoa_nat (n div 10) @ [digit_char (n mod 10)])"

declare itoa_nat.simps [simp del]

definition itoa :: "int \<Rightarrow> string" where
  "itoa n = (if n < 0 then CHR ''-'' # itoa_nat (nat (- n)) else itoa_nat (nat n))"

datatype num_error = ErrSyntax | ErrRange

text \<open>\<open>strconv.ParseUint\<close> in base 10: the first offending byte or the first overflow decides.\<close>

fun parse_uint :: "nat \<Rightarrow> string \<Rightarrow> num_error + nat" where
  "parse_uint n [] = Inr n"
| "parse_uint n (c # cs) =
     (if \<not> is_digit c then Inl ErrSyntax
      else if 10 * n + digit_val c \<ge> 2 ^ 64 then Inl ErrRange
      else parse_uint (10 * n + digit_val c) cs)"

text \<open>
  \<open>strconv.ParseInt(s, 10, 64)\<close>, which \<open>Atoi\<close> agrees with: the value comes with the error, 0 on a
  syntax error and the nearest bound when out of range.
\<close>

definition parse_int :: "string \<Rightarrow> int \<times> num_error option" where
  "parse_int s =
     (let neg = (s \<noteq> [] \<and> hd s = CHR ''-'');
          body = (if s \<noteq> [] \<and> (hd s = CHR ''-'' \<or> hd s = CHR ''+'') then tl s else s)
      in if body = [] then (0, Some ErrSyntax)
         else (case parse_uint 0 body of
                 Inl ErrSyntax \<Rightarrow> (0, Some ErrSyntax)
               | Inl ErrRange \<Rightarrow> (if neg then - (2 ^ 63) else 2 ^ 63 - 1, Some ErrRange)
               | Inr n \<Rightarrow>
                   if \<not> neg \<and> n \<ge> 2 ^ 63 then (2 ^ 63 - 1, Some ErrRange)
                   else if neg \<and> n > 2 ^ 63 then (- (2 ^ 63), Some ErrRange)
                   else (if neg then - int n else int n, None)))"

lemma of_char_digit_char: "d < 10 \<Longrightarrow> (of_char (digit_char d) :: nat) = 48 + d"
  by (simp add: digit_char_def of_char_of)

lemma digit_val_digit_char [simp]: "d < 10 \<Longrightarrow> digit_val (digit_char d) = d"
  by (simp add: digit_val_def of_char_digit_char)

lemma is_digit_digit_char [simp]: "d < 10 \<Longrightarrow> is_digit (digit_char d)"
  by (simp add: is_digit_def less_eq_char_def of_char_digit_char)

lemma itoa_nat_digits: "c \<in> set (itoa_nat n) \<Longrightarrow> is_digit c"
proof (induction n rule: itoa_nat.induct)
  case (1 n)
  then show ?case by (subst (asm) (2) itoa_nat.simps) (auto split: if_splits)
qed

lemma itoa_nat_nonempty [simp]: "itoa_nat n \<noteq> []"
  by (subst itoa_nat.simps) simp

lemma parse_uint_append:
  "parse_uint n (xs @ ys) =
     (case parse_uint n xs of Inl e \<Rightarrow> Inl e | Inr m \<Rightarrow> parse_uint m ys)"
  by (induction xs arbitrary: n) auto

lemma parse_uint_itoa: "n < 2 ^ 64 \<Longrightarrow> parse_uint 0 (itoa_nat n) = Inr n"
proof (induction n rule: itoa_nat.induct)
  case (1 n)
  show ?case
  proof (cases "n < 10")
    case True
    then show ?thesis by (subst itoa_nat.simps) simp
  next
    case False
    have "parse_uint 0 (itoa_nat (n div 10)) = Inr (n div 10)"
      using 1 False by simp
    moreover have "10 * (n div 10) + n mod 10 = n" by simp
    ultimately show ?thesis using False 1
      by (subst itoa_nat.simps) (simp add: parse_uint_append)
  qed
qed

lemma digit_not_sign: "is_digit c \<Longrightarrow> c \<noteq> CHR ''-'' \<and> c \<noteq> CHR ''+''"
  by (auto simp: is_digit_def less_eq_char_def)

lemma parse_int_itoa_nat: "n < 2 ^ 63 \<Longrightarrow> parse_int (itoa_nat n) = (int n, None)"
proof -
  assume n: "n < 2 ^ 63"
  obtain c cs where c: "itoa_nat n = c # cs" by (meson itoa_nat_nonempty neq_Nil_conv)
  then have "c \<noteq> CHR ''-''" "c \<noteq> CHR ''+''" using itoa_nat_digits [of c n] digit_not_sign by auto
  moreover have "parse_uint 0 (itoa_nat n) = Inr n" using n by (intro parse_uint_itoa) simp
  ultimately show ?thesis using n c by (simp add: parse_int_def Let_def del: parse_uint.simps)
qed

end
