(* ===== verification/Go_Url.thy ===== *)
theory Go_Url
  imports Go_Strings
begin

text \<open>
  Go's \<open>net/url\<close> parser as far as the program uses it: \<open>url.ParseRequestURI\<close> in the API's URL
  check, \<open>url.Parse\<close> with \<open>Hostname\<close> for log fields and the Redis address, and \<open>url.PathEscape\<close>
  for object keys. Error messages are not modelled, since every caller replaces or drops them.
\<close>

section \<open>Escaping\<close>

datatype encoding = EncodePath | EncodePathSegment | EncodeHost | EncodeZone | EncodeUserPassword
  | EncodeFragment

definition is_hex :: "char \<Rightarrow> bool" where
  "is_hex c \<longleftrightarrow> is_digit c \<or> CHR ''a'' \<le> c \<and> c \<le> CHR ''f'' \<or> CHR ''A'' \<le> c \<and> c \<le> CHR ''F''"

definition unhex :: "char \<Rightarrow> nat" where
  "unhex c = (if is_digit c then of_char c - 48
     else if CHR ''a'' \<le> c \<and> c \<le> CHR ''f'' then of_char c - 87
     else if CHR ''A'' \<le> c \<and> c \<le> CHR ''F'' then of_char c - 55 else 0)"

definition should_escape :: "char \<Rightarrow> encoding \<Rightarrow> bool" where
  "should_escape c mode =
     (if is_alnum c then False
      else if (mode = EncodeHost \<or> mode = EncodeZone) \<and> c \<in> set ''!$&()*+,;=:[]<>'' \<union> {CHR 0x27, CHR 0x22}
      then False
      else if c \<in> set ''-_.~'' then False
      else if c \<in> set ''$&+,/:;=?@''
      then (case mode of
              EncodePath \<Rightarrow> c = CHR ''?''
            | EncodePathSegment \<Rightarrow> c \<in> set ''/;,?''
            | EncodeUserPassword \<Rightarrow> c \<in> set ''@/?:''
            | EncodeFragment \<Rightarrow> False
            | _ \<Rightarrow> True)
      else if mode = EncodeFragment \<and> c \<in> set ''!()*'' then False
      else True)"

text \<open>\<open>unescape\<close>: \<open>None\<close> for a malformed or forbidden escape, or a byte a host may not contain.\<close>

fun unescape :: "encoding \<Rightarrow> string \<Rightarrow> string option" where
  "unescape mode [] = Some []"
| "unescape mode (c # s) =
     (if c = CHR ''%'' then
        (case s of
           a # b # s' \<Rightarrow>
             if \<not> is_hex a \<or> \<not> is_hex b then None
             else if mode = EncodeHost \<and> unhex a < 8 \<and> [a, b] \<noteq> ''25'' then None
             else if mode = EncodeZone \<and> [a, b] \<noteq> ''25''
                     \<and> char_of (16 * unhex a + unhex b) \<noteq> CHR '' ''
                     \<and> should_escape (char_of (16 * unhex a + unhex b)) EncodeHost then None
             else map_option ((#) (char_of (16 * unhex a + unhex b))) (unescape mode s')
         | _ \<Rightarrow> None)
      else if (mode = EncodeHost \<or> mode = EncodeZone) \<and> c < char_of (0x80 :: nat)
              \<and> should_escape c mode then None
      else map_option ((#) c) (unescape mode s))"

definition hex_digit :: "nat \<Rightarrow> char" where
  "hex_digit d = ''0123456789ABCDEF'' ! d"

definition escape_char :: "encoding \<Rightarrow> char \<Rightarrow> string" where
  "escape_char mode c =
     (if should_escape c mode
      then [CHR ''%'', hex_digit (of_char c div 16), hex_digit (of_char c mod 16)] else [c])"

definition escape :: "encoding \<Rightarrow> string \<Rightarrow> string" where
  "escape mode s = concat (map (escape_char mode) s)"

definition path_escape :: "string \<Rightarrow> string" where
  "path_escape = escape EncodePathSegment"

text \<open>\<open>validEncoded\<close> for a path, and \<open>URL.EscapedPath\<close>: the path as written if that is a valid encoding.\<close>

definition valid_encoded :: "string \<Rightarrow> bool" where
  "valid_encoded s =
     list_all (\<lambda>c. c \<in> set ''!$&()*+,;=:@[]%'' \<or> c = CHR 0x27 \<or> \<not> should_escape c EncodePath) s"

definition EscapedPath :: "string \<Rightarrow> string \<Rightarrow> string" where
  "EscapedPath raw path =
     (if valid_encoded raw then raw else if path = ''*'' then ''*'' else escape EncodePath path)"

section \<open>Parsing\<close>

record url =
  Scheme :: string
  Opaque :: string
  User :: "(string \<times> string option) option"
  Host :: string
  Path :: string
  RawQuery :: string

definition empty_url :: url where
  "empty_url = \<lparr>Scheme = '''', Opaque = '''', User = None, Host = '''', Path = '''', RawQuery = ''''\<rparr>"

definition has_ctl_byte :: "string \<Rightarrow> bool" where
  "has_ctl_byte s = list_ex (\<lambda>c. c < CHR '' '' \<or> c = char_of (0x7F :: nat)) s"

text \<open>
  \<open>getScheme\<close>, reading on after \<open>i\<close> accepted bytes \<open>acc\<close> (newest first): \<open>None\<close> is the error
  for a leading colon; a byte that cannot be in a scheme means there is none.
\<close>

fun get_scheme :: "string \<Rightarrow> string \<Rightarrow> string \<Rightarrow> (string \<times> string) option" where
  "get_scheme raw acc [] = Some ('''', raw)"
| "get_scheme raw acc (c # s) =
     (if is_upper c \<or> is_lower c then get_scheme raw (c # acc) s
      else if is_digit c \<or> c \<in> set ''+-.'' then
        (if acc = [] then Some ('''', raw) else get_scheme raw (c # acc) s)
      else if c = CHR '':'' then (if acc = [] then None else Some (rev acc, s))
      else Some ('''', raw))"

definition valid_optional_port :: "string \<Rightarrow> bool" where
  "valid_optional_port port =
     (case port of [] \<Rightarrow> True | c # ds \<Rightarrow> c = CHR '':'' \<and> list_all is_digit ds)"

definition valid_userinfo :: "string \<Rightarrow> bool" where
  "valid_userinfo s =
     list_all (\<lambda>c. is_alnum c \<or> c \<in> set ''-._:~!$&()*+,;=%@'' \<or> c = CHR 0x27) s"

text \<open>The first position of a zone marker \<open>%25\<close>, as the text before it and the text from it on.\<close>

fun split_zone :: "string \<Rightarrow> (string \<times> string) option" where
  "split_zone [] = None"
| "split_zone (c # s) =
     (if has_prefix (c # s) ''%25'' then Some ([], c # s)
      else map_option (\<lambda>(a, b). (c # a, b)) (split_zone s))"

definition parse_host :: "string \<Rightarrow> string option" where
  "parse_host host =
     (if has_prefix host ''['' then
        (if CHR '']'' \<notin> set host then None
         else (case cut_last host CHR '']'' of (inside, colon_port) \<Rightarrow>
            if \<not> valid_optional_port colon_port then None
            else (case split_zone inside of
                    Some (addr, zone) \<Rightarrow>
                      (case (unescape EncodeHost addr, unescape EncodeZone zone,
                             unescape EncodeHost ('']'' @ colon_port)) of
                         (Some h1, Some h2, Some h3) \<Rightarrow> Some (h1 @ h2 @ h3)
                       | _ \<Rightarrow> None)
                  | None \<Rightarrow> unescape EncodeHost host)))
      else if CHR '':'' \<in> set host \<and> \<not> valid_optional_port (CHR '':'' # snd (cut_last host CHR '':''))
      then None
      else unescape EncodeHost host)"

definition parse_authority :: "string \<Rightarrow> ((string \<times> string option) option \<times> string) option" where
  "parse_authority authority =
     (if CHR ''@'' \<notin> set authority then map_option (\<lambda>h. (None, h)) (parse_host authority)
      else (case cut_last authority CHR ''@'' of (userinfo, hostpart) \<Rightarrow>
        (case parse_host hostpart of
           None \<Rightarrow> None
         | Some host \<Rightarrow>
             if \<not> valid_userinfo userinfo then None
             else if CHR '':'' \<notin> set userinfo then
               map_option (\<lambda>u. (Some (u, None), host)) (unescape EncodeUserPassword userinfo)
             else (case cut userinfo CHR '':'' of (username, password, _) \<Rightarrow>
               (case (unescape EncodeUserPassword username, unescape EncodeUserPassword password) of
                  (Some u, Some p) \<Rightarrow> Some (Some (u, Some p), host)
                | _ \<Rightarrow> None)))))"

text \<open>A single question mark at the end sets \<open>ForceQuery\<close> and is dropped like any other query.\<close>

definition split_query :: "string \<Rightarrow> string \<times> string" where
  "split_query rest = (case cut rest CHR ''?'' of (before, after, _) \<Rightarrow> (before, after))"

definition parse_after_scheme :: "bool \<Rightarrow> string \<Rightarrow> string \<Rightarrow> url option" where
  "parse_after_scheme via_request scheme rest0 =
     (case split_query rest0 of (rest, query) \<Rightarrow>
       if \<not> has_prefix rest ''/'' \<and> scheme \<noteq> '''' then
         Some (empty_url\<lparr>Scheme := scheme, RawQuery := query, Opaque := rest\<rparr>)
       else if \<not> has_prefix rest ''/'' \<and> via_request then None
       else if \<not> has_prefix rest ''/'' \<and> CHR '':'' \<in> set (fst (cut rest CHR ''/'')) then None
       else if (scheme \<noteq> '''' \<or> \<not> via_request \<and> \<not> has_prefix rest ''///'') \<and> has_prefix rest ''//'' then
         (let authority = takeWhile (\<lambda>c. c \<noteq> CHR ''/'') (drop 2 rest);
              path = dropWhile (\<lambda>c. c \<noteq> CHR ''/'') (drop 2 rest)
          in (case parse_authority authority of
                None \<Rightarrow> None
              | Some (user, host) \<Rightarrow>
                  map_option (\<lambda>p. empty_url\<lparr>Scheme := scheme, RawQuery := query, User := user,
                                            Host := host, Path := p\<rparr>)
                    (unescape EncodePath path)))
       else map_option (\<lambda>p. empty_url\<lparr>Scheme := scheme, RawQuery := query, Path := p\<rparr>)
              (unescape EncodePath rest))"

definition parse_url :: "bool \<Rightarrow> string \<Rightarrow> url option" where
  "parse_url via_request raw =
     (if has_ctl_byte raw then None
      else if raw = '''' \<and> via_request then None
      else if raw = ''*'' then Some (empty_url\<lparr>Path := ''*''\<rparr>)
      else (case get_scheme raw [] raw of
              None \<Rightarrow> None
            | Some (scheme, rest) \<Rightarrow> parse_after_scheme via_request (map lower_char scheme) rest))"

definition ParseRequestURI :: "string \<Rightarrow> url option" where
  "ParseRequestURI raw = parse_url True raw"

definition Parse :: "string \<Rightarrow> url option" where
  "Parse raw =
     (case cut raw CHR ''#'' of (u, frag, _) \<Rightarrow>
        (case parse_url False u of
           None \<Rightarrow> None
         | Some url \<Rightarrow> if unescape EncodeFragment frag = None then None else Some url))"

definition Hostname :: "url \<Rightarrow> string" where
  "Hostname u =
     (let hp = Host u;
          host = (if CHR '':'' \<in> set hp \<and> valid_optional_port (CHR '':'' # snd (cut_last hp CHR '':''))
                  then fst (cut_last hp CHR '':'') else hp)
      in if has_prefix host ''['' \<and> has_suffix host '']''
         then butlast (tl host) else host)"

section \<open>Round trip of path escaping\<close>

lemma hex_digit_facts:
  assumes "d < 16"
  shows "is_hex (hex_digit d)" and "unhex (hex_digit d) = d"
proof -
  have "\<forall>k \<in> set [0..<16]. is_hex (hex_digit k) \<and> unhex (hex_digit k) = k" by code_simp
  then have "is_hex (hex_digit d) \<and> unhex (hex_digit d) = d" using assms by simp
  then show "is_hex (hex_digit d)" and "unhex (hex_digit d) = d" by simp_all
qed

lemma unescape_escape_char:
  "mode = EncodePath \<or> mode = EncodePathSegment \<Longrightarrow>
     unescape mode (escape_char mode c @ s) = map_option ((#) c) (unescape mode s)"
proof -
  assume mode: "mode = EncodePath \<or> mode = EncodePathSegment"
  have small: "(of_char c :: nat) < 256" using of_char_mod_256 [of c] by (metis mod_less_divisor zero_less_numeral)
  have pct: "should_escape CHR ''%'' mode"
    using mode by (auto simp: should_escape_def is_alnum_def is_upper_def is_lower_def is_digit_def
        less_eq_char_def)
  show ?thesis
  proof (cases "should_escape c mode")
    case True
    let ?h = "hex_digit (of_char c div 16)" and ?l = "hex_digit (of_char c mod 16)"
    have "(of_char c :: nat) div 16 < 16" using small by (simp add: div_less_iff_less_mult)
    then have hl: "is_hex ?h" "is_hex ?l" "unhex ?h = of_char c div 16" "unhex ?l = of_char c mod 16"
      using small by (simp_all add: hex_digit_facts)
    have "char_of (16 * (of_char c div 16) + of_char c mod 16 :: nat) = c" by simp
    with True mode hl show ?thesis by (simp add: escape_char_def del: mult_div_mod_eq) auto
  next
    case False
    then have "c \<noteq> CHR ''%''" using pct by auto
    with False mode show ?thesis by (simp add: escape_char_def)
  qed
qed

lemma unescape_escape:
  "mode = EncodePath \<or> mode = EncodePathSegment \<Longrightarrow> unescape mode (escape mode s) = Some s"
  unfolding escape_def by (induction s) (auto simp: unescape_escape_char)

end
