(* ===== verification/Api.thy ===== *)
theory Api
  imports Memory_Queue Storage_Properties Metrics Cancel_Registry Blob_Store Go_Url
begin

text \<open>
  The HTTP handlers (\<open>internal/api/handler.go\<close>) over the store, queue and blob interfaces. A
  request is what the handlers read of it: the outcome of decoding the JSON body (with the 1 MiB
  limit), the idempotency header, the path's job id and the request id of the context. A response
  is the status, the headers and the body as data; the JSON text is not rendered. New ids and the
  clock are arguments.
\<close>

section \<open>Requests, responses, state\<close>

record SubmitRequest =
  req_URL :: string
  req_IdempotencyKey :: string
  req_CallbackURL :: string

record http_request =
  decoded_body :: "SubmitRequest result"
  idempotency_header :: string
  path_id :: string
  ctx_request_id :: string

datatype response_body =
    ErrorResponse string string string
  | SubmitResponse string string bool
  | JobStatusBody string string JobStatus string
  | PdfBody bytes
  | JsonMap "(string \<times> string) list"
  | OpenAPIBody

record http_response =
  code :: int
  headers :: "(string, string) gomap"
  body :: response_body

record HandlerOptions =
  RequireIdempotencyKey :: bool
  DefaultWebhookURL :: string

record ('s, 'q, 'b) api =
  a_store :: 's
  a_queue :: 'q
  a_blobs :: 'b
  a_cancels :: registry
  a_metrics :: "metrics option"
  a_cancelled :: "context_id list"

definition json_type :: "string \<times> string" where
  "json_type = (''Content-Type'', ''application/json'')"

text \<open>\<open>writeError\<close> on a response writer that already carries the headers \<open>hs\<close>.\<close>

definition writeError ::
    "http_request \<Rightarrow> (string, string) gomap \<Rightarrow> int \<Rightarrow> string \<Rightarrow> string \<Rightarrow> http_response" where
  "writeError r hs status errcode message =
     \<lparr>code = status, headers = gm_put (fst json_type) (snd json_type) hs,
      body = ErrorResponse errcode message (ctx_request_id r)\<rparr>"

definition recordSubmitted :: "('s, 'q, 'b) api \<Rightarrow> ('s, 'q, 'b) api" where
  "recordSubmitted a = a\<lparr>a_metrics := map_option JobSubmitted (a_metrics a)\<rparr>"

definition recordRejected :: "string \<Rightarrow> ('s, 'q, 'b) api \<Rightarrow> ('s, 'q, 'b) api" where
  "recordRejected reason a = a\<lparr>a_metrics := map_option (JobRejected reason) (a_metrics a)\<rparr>"

section \<open>Validation\<close>

definition validateURL :: "string \<Rightarrow> string option" where
  "validateURL rawURL =
     (if rawURL = '''' then Some ''URL is required''
      else (case ParseRequestURI rawURL of
              None \<Rightarrow> Some ''URL must be absolute and valid''
            | Some parsed \<Rightarrow>
                if Host parsed = '''' then Some ''URL must include a host''
                else if Scheme parsed \<noteq> ''http'' \<and> Scheme parsed \<noteq> ''https''
                then Some ''URL scheme must be http or https''
                else None))"

definition idempotency_key :: "SubmitRequest \<Rightarrow> http_request \<Rightarrow> string" where
  "idempotency_key req r =
     (if trim_space (req_IdempotencyKey req) = '''' then trim_space (idempotency_header r)
      else trim_space (req_IdempotencyKey req))"

definition callback_url :: "HandlerOptions \<Rightarrow> SubmitRequest \<Rightarrow> string" where
  "callback_url opts req =
     (if trim_space (req_CallbackURL req) = '''' then trim_space (DefaultWebhookURL opts)
      else trim_space (req_CallbackURL req))"

text \<open>
  The checks \<open>SubmitJob\<close> makes before it touches any state, in their order: the error code and
  message of the first that fails, or the cleaned URL, idempotency key and callback URL.
\<close>

definition check_submission ::
    "HandlerOptions \<Rightarrow> http_request \<Rightarrow> (string \<times> string) + (string \<times> string \<times> string)" where
  "check_submission opts r =
     (case decoded_body r of
        Inl _ \<Rightarrow> Inl (''invalid_json'', ''Invalid request'')
      | Inr req \<Rightarrow>
          (case validateURL (trim_space (req_URL req)) of
             Some msg \<Rightarrow> Inl (''invalid_url'', msg)
           | None \<Rightarrow>
               if RequireIdempotencyKey opts \<and> idempotency_key req r = ''''
               then Inl (''missing_idempotency_key'', ''Idempotency key is required'')
               else (case (if callback_url opts req \<noteq> '''' then validateURL (callback_url opts req)
                           else None) of
                       Some msg \<Rightarrow> Inl (''invalid_callback_url'', ''callback_url '' @ msg)
                     | None \<Rightarrow> Inr (trim_space (req_URL req), idempotency_key req r,
                                   callback_url opts req))))"

section \<open>The handlers\<close>

definition submitted_job :: "string \<Rightarrow> string \<Rightarrow> string \<Rightarrow> string \<Rightarrow> string \<Rightarrow> job" where
  "submitted_job jobID url key callback requestID =
     zero_job\<lparr>ID := jobID, job_URL := url, job_IdempotencyKey := key, job_CallbackURL := callback,
       job_RequestID := requestID\<rparr>"

definition pending_record ::
    "time \<Rightarrow> string \<Rightarrow> string \<Rightarrow> string \<Rightarrow> string \<Rightarrow> job_result" where
  "pending_record now url key callback requestID =
     zero_result\<lparr>URL := url, Status := StatusPending, CreatedAt := now, UpdatedAt := now,
       IdempotencyKey := key, CallbackURL := callback, RequestID := requestID\<rparr>"

definition accepted :: "string \<Rightarrow> bool \<Rightarrow> http_response" where
  "accepted jobID idempotent =
     \<lparr>code = 202, headers = [json_type],
      body = SubmitResponse jobID (''/pdf/'' @ jobID) idempotent\<rparr>"

definition SubmitJob ::
    "'s store_ops \<Rightarrow> 'q queue_ops \<Rightarrow> HandlerOptions \<Rightarrow> string \<Rightarrow> time \<Rightarrow> time \<Rightarrow> http_request
       \<Rightarrow> ('s, 'q, 'b) api \<Rightarrow> ('s, 'q, 'b) api \<times> http_response" where
  "SubmitJob S Q opts jobID now set_now r a =
     (case check_submission opts r of
        Inl (errcode, msg) \<Rightarrow> (recordRejected errcode a, writeError r [] 400 errcode msg)
      | Inr (url, key, callback) \<Rightarrow>
          (case s_ReserveIdempotencyKey S key jobID (a_store a) of
             (s1, Inl e) \<Rightarrow>
               (recordRejected ''idempotency_error'' (a\<lparr>a_store := s1\<rparr>),
                writeError r [] 500 ''idempotency_error'' ''Failed to reserve idempotency key'')
           | (s1, Inr (reservedJobID, reserved)) \<Rightarrow>
               if \<not> reserved then (a\<lparr>a_store := s1\<rparr>, accepted reservedJobID True)
               else (case s_Set S set_now jobID
                            (pending_record now url key callback (ctx_request_id r)) s1 of
                       (s2, _, Some e) \<Rightarrow>
                         (recordRejected ''storage_error'' (a\<lparr>a_store := s2\<rparr>),
                          writeError r [] 500 ''storage_error'' ''Failed to initialize job metadata'')
                     | (s2, _, None) \<Rightarrow>
                         (case q_Push Q (submitted_job jobID url key callback (ctx_request_id r))
                                 (a_queue a) of
                            (q', Some e) \<Rightarrow>
                              (let s3 = fst (s_Delete S jobID s2);
                                   a' = a\<lparr>a_store := s3, a_queue := q'\<rparr>
                               in if errors_is e ErrQueueFull
                                  then (recordRejected ''queue_full'' a',
                                        writeError r [] 503 ''queue_full'' ''Queue is full'')
                                  else (recordRejected ''enqueue_error'' a',
                                        writeError r [] 500 ''enqueue_error'' ''Failed to queue job''))
                          | (q', None) \<Rightarrow>
                              (recordSubmitted (a\<lparr>a_store := s2, a_queue := q'\<rparr>),
                               accepted jobID False)))))"

definition status_body :: "string \<Rightarrow> job_result \<Rightarrow> response_body" where
  "status_body jobID result = JobStatusBody jobID (URL result) (Status result) (Error result)"

definition GetJob ::
    "'s store_ops \<Rightarrow> 'b blob_ops \<Rightarrow> http_request \<Rightarrow> ('s, 'q, 'b) api \<Rightarrow> ('s, 'q, 'b) api \<times> http_response" where
  "GetJob S B r a =
     (case s_Get S (path_id r) (a_store a) of
        (s1, Inl e) \<Rightarrow> (a\<lparr>a_store := s1\<rparr>, writeError r [] 404 ''job_not_found'' ''Job not found'')
      | (s1, Inr result) \<Rightarrow>
          if Status result = StatusCompleted then
            (let hs = [(''Content-Type'', ''application/pdf''),
                       (''Content-Disposition'', ''attachment; filename='' @ path_id r @ ''.pdf'')]
             in (case b_Get B (PDFKey result) (a_blobs a) of
                   (b', Inl e) \<Rightarrow>
                     (a\<lparr>a_store := s1, a_blobs := b'\<rparr>,
                      writeError r hs 500 ''pdf_not_found'' ''PDF not found'')
                 | (b', Inr pdf) \<Rightarrow>
                     (a\<lparr>a_store := s1, a_blobs := b'\<rparr>,
                      \<lparr>code = 200, headers = hs, body = PdfBody pdf\<rparr>)))
          else (a\<lparr>a_store := s1\<rparr>,
                \<lparr>code = 200, headers = [json_type], body = status_body (path_id r) result\<rparr>))"

definition CancelJob ::
    "'s store_ops \<Rightarrow> time \<Rightarrow> http_request \<Rightarrow> ('s, 'q, 'b) api \<Rightarrow> ('s, 'q, 'b) api \<times> http_response" where
  "CancelJob S now r a =
     (case s_Cancel S now (path_id r) (a_store a) of
        (s1, res) \<Rightarrow>
          let a' = a\<lparr>a_store := s1,
                     a_cancelled := a_cancelled a @ snd (reg_Cancel (path_id r) (a_cancels a))\<rparr>
          in (case res of
                Inl e \<Rightarrow> (a', writeError r [] 404 ''job_not_found'' ''Job not found'')
              | Inr result \<Rightarrow>
                  (a', \<lparr>code = 200, headers = [json_type], body = status_body (path_id r) result\<rparr>)))"

definition Healthz :: http_response where
  "Healthz = \<lparr>code = 200, headers = [json_type], body = JsonMap [(''status'', ''ok'')]\<rparr>"

definition Readyz :: http_response where
  "Readyz = \<lparr>code = 200, headers = [json_type], body = JsonMap [(''status'', ''ready'')]\<rparr>"

definition OpenAPI :: http_response where
  "OpenAPI = \<lparr>code = 200, headers = [(''Content-Type'', ''application/yaml; charset=utf-8'')],
     body = OpenAPIBody\<rparr>"

lemma record_simps [simp]:
  "a_store (recordSubmitted a) = a_store a" "a_queue (recordSubmitted a) = a_queue a"
  "a_blobs (recordSubmitted a) = a_blobs a" "a_cancels (recordSubmitted a) = a_cancels a"
  "a_store (recordRejected e a) = a_store a" "a_queue (recordRejected e a) = a_queue a"
  "a_blobs (recordRejected e a) = a_blobs a" "a_cancels (recordRejected e a) = a_cancels a"
  "a_cancelled (recordSubmitted a) = a_cancelled a" "a_cancelled (recordRejected e a) = a_cancelled a"
  by (simp_all add: recordSubmitted_def recordRejected_def)

lemma writeError_simps [simp]:
  "code (writeError r hs st c m) = st" "body (writeError r hs st c m) = ErrorResponse c m (ctx_request_id r)"
  by (simp_all add: writeError_def)

lemma accepted_simps [simp]:
  "code (accepted i b) = 202" "body (accepted i b) = SubmitResponse i (''/pdf/'' @ i) b"
  by (simp_all add: accepted_def)

end
