(* ===== verification/Api_Properties.thy ===== *)
theory Api_Properties
  imports Api
begin

text \<open>
  What the HTTP handlers guarantee: which texts pass as URLs, the effect of a submission on store
  and queue in each of its outcomes, idempotent resubmission, the responses of \<open>GetJob\<close>, and the
  effect of a cancel request. The client lemmas are proved over the store and queue contracts and
  rest on the in-memory back-ends through an interpretation.
\<close>

section \<open>URLs\<close>

lemma lower_char_punct [simp]: "lower_char CHR '':'' = CHR '':''" "lower_char CHR ''/'' = CHR ''/''"
  by (simp_all add: lower_char_def is_upper_def less_eq_char_def)

lemma get_scheme_splits:
  "get_scheme raw acc s = Some (scheme, rest) \<Longrightarrow>
     scheme = '''' \<or> rev acc @ s = scheme @ CHR '':'' # rest"
  by (induction raw acc s rule: get_scheme.induct) (auto split: if_splits)

lemma has_prefix_append: "has_prefix s p \<Longrightarrow> s = p @ drop (length p) s"
  by (metis append_take_drop_id has_prefix_def)

lemma split_query_prefix:
  assumes "has_prefix (fst (split_query s)) ''//''"
  shows "\<exists>t. s = ''//'' @ t"
proof -
  let ?b = "takeWhile (\<lambda>x. x \<noteq> CHR ''?'') s" and ?a = "dropWhile (\<lambda>x. x \<noteq> CHR ''?'') s"
  have "fst (split_query s) = ?b" by (simp add: split_query_def cut_def)
  then obtain t where "?b = ''//'' @ t" using has_prefix_append [OF assms] by auto
  then have "?b @ ?a = ''//'' @ (t @ ?a)" by simp
  then show ?thesis by (metis takeWhile_dropWhile_id)
qed

lemma parse_after_scheme_host:
  assumes "parse_after_scheme True scheme rest = Some u" and "Host u \<noteq> ''''"
  shows "Scheme u = scheme \<and> (\<exists>t. rest = ''//'' @ t)"
proof -
  obtain r q where r: "split_query rest = (r, q)" by (cases "split_query rest")
  have "has_prefix r ''//''"
  proof (rule ccontr)
    assume "\<not> has_prefix r ''//''"
    then show False using assms
      by (auto simp: parse_after_scheme_def empty_url_def r split: if_splits)
  qed
  moreover have "Scheme u = scheme"
    using assms
    by (auto simp: parse_after_scheme_def empty_url_def Let_def r
        split: if_splits prod.splits option.splits)
  ultimately show ?thesis using split_query_prefix [of rest] r by simp
qed

lemma ParseRequestURI_host:
  assumes p: "ParseRequestURI raw = Some u" and h: "Host u \<noteq> ''''" and s: "Scheme u \<noteq> ''''"
  shows "\<exists>t. map lower_char raw = Scheme u @ ''://'' @ t"
proof -
  have "raw \<noteq> ''*''"
    using p h by (auto simp: ParseRequestURI_def parse_url_def empty_url_def split: if_splits)
  then obtain scheme rest where g: "get_scheme raw [] raw = Some (scheme, rest)"
    and a: "parse_after_scheme True (map lower_char scheme) rest = Some u"
    using p by (auto simp: ParseRequestURI_def parse_url_def split: if_splits option.splits)
  obtain t where t: "rest = ''//'' @ t" and sch: "Scheme u = map lower_char scheme"
    using parse_after_scheme_host [OF a h] by blast
  have "raw = scheme @ CHR '':'' # rest" using get_scheme_splits [OF g] sch s by auto
  then have "map lower_char raw = Scheme u @ ''://'' @ map lower_char t" using t sch by simp
  then show ?thesis by blast
qed

text \<open>The URL check lets nothing through that is not web-like: an accepted text starts, up to
  the case of its letters, with the http or https scheme followed by a non-empty host.\<close>

theorem validateURL_sound:
  assumes "validateURL raw = None"
  shows "\<exists>u t. ParseRequestURI raw = Some u \<and> Host u \<noteq> '''' \<and> Scheme u \<in> {''http'', ''https''}
    \<and> map lower_char raw = Scheme u @ ''://'' @ t"
proof -
  obtain u where u: "ParseRequestURI raw = Some u" "Host u \<noteq> ''''"
    "Scheme u = ''http'' \<or> Scheme u = ''https''"
    using assms by (auto simp: validateURL_def split: if_splits option.splits)
  moreover from u(3) have "Scheme u \<noteq> ''''" by auto
  ultimately show ?thesis using ParseRequestURI_host [OF u(1,2)] by blast
qed

theorem validateURL_sound_witness:
  "\<exists>u t. ParseRequestURI ''HTTPS://a.b:8080/x?y=%20'' = Some u \<and> Host u = ''a.b:8080''
    \<and> map lower_char ''HTTPS://a.b:8080/x?y=%20'' = Scheme u @ ''://'' @ t"
proof -
  have ok: "validateURL ''HTTPS://a.b:8080/x?y=%20'' = None" by code_simp
  have "map_option Host (ParseRequestURI ''HTTPS://a.b:8080/x?y=%20'') = Some ''a.b:8080''"
    by code_simp
  then show ?thesis using validateURL_sound [OF ok] by auto
qed

section \<open>Submitting a job\<close>

text \<open>The key is not reserved yet (the empty key never is).\<close>

definition key_free :: "string \<Rightarrow> keys_view \<Rightarrow> bool" where
  "key_free key k \<longleftrightarrow> key = '''' \<or> k key = None"

definition reserve_key :: "string \<Rightarrow> string \<Rightarrow> keys_view \<Rightarrow> keys_view" where
  "reserve_key key jobID k = (if key = '''' then k else k(key \<mapsto> jobID))"

lemma spec_reserve_free:
  "key_free key k \<Longrightarrow> spec_reserve key i k = (reserve_key key i k, if key = '''' then '''' else i, True)"
  by (auto simp: spec_reserve_def key_free_def reserve_key_def)

lemma reserve_then_delete_key:
  "key_free key k \<Longrightarrow> IdempotencyKey r = key \<Longrightarrow>
     spec_delete_key (Some r) (reserve_key key i k) = k"
  by (auto simp: spec_delete_key_def reserve_key_def key_free_def)

text \<open>The record of a job that was just submitted: the pending one, stamped by the store.\<close>

definition stored_pending ::
    "time \<Rightarrow> time \<Rightarrow> string \<Rightarrow> string \<Rightarrow> string \<Rightarrow> string \<Rightarrow> job_result" where
  "stored_pending now set_now url key callback requestID =
     (pending_record now url key callback requestID)\<lparr>UpdatedAt := set_now\<rparr>"

lemma stored_pending_merge:
  "now \<noteq> 0 \<Longrightarrow> merge_result set_now None (pending_record now url key cb rid)
     = stored_pending now set_now url key cb rid"
  by (simp add: merge_result_fresh stored_pending_def pending_record_def)

lemma pending_record_simps [simp]:
  "IdempotencyKey (pending_record now url key cb rid) = key"
  "IdempotencyKey (stored_pending now set_now url key cb rid) = key"
  "Status (stored_pending now set_now url key cb rid) = StatusPending"
  "URL (stored_pending now set_now url key cb rid) = url"
  by (simp_all add: pending_record_def stored_pending_def)

locale submit_backend =
  st: total_job_store S inv view keys + qu: job_queue Q qinv contents
  for S :: "'s store_ops" and inv view keys
    and Q :: "'q queue_ops" and qinv contents
begin

text \<open>A submission that passes the checks with a free key and a new id: queued, or taken back.\<close>

lemma submit_fresh:
  fixes a :: "('s, 'q, 'b) api"
  assumes inv: "inv (a_store a)" and qinv: "qinv (a_queue a)"
    and t: "now \<noteq> 0" "set_now \<noteq> 0"
    and chk: "check_submission opts r = Inr (url, key, cb)"
    and new: "view (a_store a) jobID = None" and free: "key_free key (keys (a_store a))"
    and push: "q_Push Q (submitted_job jobID url key cb (ctx_request_id r)) (a_queue a) = (q', e)"
    and run: "SubmitJob S Q opts jobID now set_now r a = (a', resp)"
  shows "inv (a_store a') \<and> qinv (a_queue a') \<and> a_blobs a' = a_blobs a \<and> a_cancels a' = a_cancels a
    \<and> (e = None \<longrightarrow> resp = accepted jobID False
        \<and> view (a_store a') = (view (a_store a))
            (jobID \<mapsto> stored_pending now set_now url key cb (ctx_request_id r))
        \<and> keys (a_store a') = reserve_key key jobID (keys (a_store a))
        \<and> contents (a_queue a')
            = contents (a_queue a) @ [submitted_job jobID url key cb (ctx_request_id r)]
        \<and> a_metrics a' = map_option JobSubmitted (a_metrics a))
    \<and> (e \<noteq> None \<longrightarrow> code resp \<noteq> 202
        \<and> view (a_store a') = view (a_store a) \<and> keys (a_store a') = keys (a_store a)
        \<and> contents (a_queue a') = contents (a_queue a))"
proof -
  let ?s = "a_store a" and ?j = "submitted_job jobID url key cb (ctx_request_id r)"
  let ?p = "pending_record now url key cb (ctx_request_id r)"
  let ?r = "stored_pending now set_now url key cb (ctx_request_id r)"
  obtain s1 j fr where res: "s_ReserveIdempotencyKey S key jobID ?s = (s1, Inr (j, fr))"
    using st.reserve_total [OF inv, of key jobID] by (metis prod.collapse)
  have i1: "inv s1" using st.reserve_inv [OF inv, of key jobID] res by simp
  have v1: "view s1 = view ?s" "keys s1 = reserve_key key jobID (keys ?s)" "fr"
    using st.reserve_view [OF inv res] spec_reserve_free [OF free] by auto
  obtain s2 r2 where set: "s_Set S set_now jobID ?p s1 = (s2, r2, None)"
    using st.set_total [OF i1] by (metis prod.collapse)
  have i2: "inv s2" using st.set_inv [OF i1 t(2), of jobID ?p] set by simp
  have v2: "view s2 = (view ?s)(jobID \<mapsto> ?r)" "keys s2 = keys s1"
    using st.set_view [OF i1 t(2) set] v1(1) new t(1)
    by (auto simp: spec_set_def stored_pending_merge)
  obtain s3 where del: "s_Delete S jobID s2 = (s3, None)"
    using st.delete_total [OF i2] by (metis prod.collapse)
  have i3: "inv s3" using st.delete_inv [OF i2, of jobID] del by simp
  have v3: "view s3 = view ?s" "keys s3 = keys ?s"
    using st.delete_view [OF i2 del] v2 v1(2) new reserve_then_delete_key [OF free, of ?r jobID]
    by auto
  have q: "qinv q'" using qu.push_inv [OF qinv, of ?j] push by simp
  show ?thesis
  proof (cases e)
    case None
    then show ?thesis
      using run chk res v1(3) set push i2 v2 v1(2) q qu.push_accepted [OF qinv, of ?j q']
      by (auto simp: SubmitJob_def recordSubmitted_def)
  next
    case (Some err)
    then show ?thesis
      using run chk res v1(3) set push del i3 v3 q qu.push_rejected [OF qinv, of ?j q' err]
      by (auto simp: SubmitJob_def Let_def split: if_splits)
  qed
qed

lemma submit_known_key:
  fixes a :: "('s, 'q, 'b) api"
  assumes inv: "inv (a_store a)"
    and chk: "check_submission opts r = Inr (url, key, cb)"
    and known: "key \<noteq> ''''" "keys (a_store a) key = Some i"
    and run: "SubmitJob S Q opts jobID now set_now r a = (a', resp)"
  shows "resp = accepted i True \<and> view (a_store a') = view (a_store a)
    \<and> keys (a_store a') = keys (a_store a) \<and> a' = a\<lparr>a_store := a_store a'\<rparr>"
proof -
  obtain s1 j fr where res: "s_ReserveIdempotencyKey S key jobID (a_store a) = (s1, Inr (j, fr))"
    using st.reserve_total [OF inv, of key jobID] by (metis prod.collapse)
  have "view s1 = view (a_store a)" "keys s1 = keys (a_store a)" "\<not> fr" "j = i"
    using st.reserve_view [OF inv res] known by (auto simp: spec_reserve_def)
  then show ?thesis using run chk res by (auto simp: SubmitJob_def)
qed

end

interpretation sub: submit_backend mem_store_ops ms_wf ms_view ms_keys mem_queue_ops mq_wf mq_pending
  by unfold_locales


subsection \<open>On the in-memory back-ends\<close>

definition queue_has_room :: "mem_queue \<Rightarrow> bool" where
  "queue_has_room q \<longleftrightarrow> 0 < recvq q \<or> length (buf q) < capacity q"

lemma mq_Push_room: "queue_has_room q \<Longrightarrow> \<exists>q'. mq_Push j q = (q', None)"
  by (auto simp: queue_has_room_def mq_Push_def)

lemma mq_Push_full: "\<not> queue_has_room q \<Longrightarrow> mq_Push j q = (q, Some ErrQueueFull)"
  by (auto simp: queue_has_room_def mq_Push_def)

text \<open>C9: An accepted submission. When the request passes the checks, its key is free and the
  queue has room, the answer is 202 with the new id; exactly one pending record is added, with the
  cleaned URL, key and callback; the key now leads to that id; the job is queued behind all
  others; and one submission is counted.\<close>

theorem submit_accepts:
  fixes a :: "(mem_storage, mem_queue, 'b) api"
  assumes wf: "ms_wf (a_store a)" "mq_wf (a_queue a)" and t: "now \<noteq> 0" "set_now \<noteq> 0"
    and chk: "check_submission opts r = Inr (url, key, cb)"
    and new: "ms_view (a_store a) jobID = None" and free: "key_free key (ms_keys (a_store a))"
    and room: "queue_has_room (a_queue a)"
    and run: "SubmitJob mem_store_ops mem_queue_ops opts jobID now set_now r a = (a', resp)"
  shows "resp = accepted jobID False
    \<and> ms_view (a_store a') = (ms_view (a_store a))
        (jobID \<mapsto> stored_pending now set_now url key cb (ctx_request_id r))
    \<and> ms_keys (a_store a') = reserve_key key jobID (ms_keys (a_store a))
    \<and> mq_pending (a_queue a')
        = mq_pending (a_queue a) @ [submitted_job jobID url key cb (ctx_request_id r)]
    \<and> a_metrics a' = map_option JobSubmitted (a_metrics a)
    \<and> a_blobs a' = a_blobs a \<and> ms_wf (a_store a') \<and> mq_wf (a_queue a')"
proof -
  obtain q' where "q_Push mem_queue_ops (submitted_job jobID url key cb (ctx_request_id r)) (a_queue a)
      = (q', None)"
    using mq_Push_room [OF room] by auto
  from sub.submit_fresh [OF wf t chk new free this run] show ?thesis by blast
qed

lemma mem_submit_queue:
  assumes "check_submission opts r = Inr (url, key, cb)" and "key_free key (ms_keys (a_store a))"
    and "mq_Push (submitted_job jobID url key cb (ctx_request_id r)) (a_queue a) = (q', None)"
    and "SubmitJob mem_store_ops mem_queue_ops opts jobID now set_now r a = (a', resp)"
  shows "a_queue a' = q'"
proof -
  obtain s1 i fr where r1: "mem_ReserveIdempotencyKey key jobID (a_store a) = (s1, Inr (i, fr))"
    using mem_Reserve_result [of key jobID "a_store a"] by (metis prod.collapse)
  then have "fr" using mem_Reserve_result [of key jobID "a_store a"] spec_reserve_free [OF assms(2)] by simp
  moreover obtain s2 r2 where "mem_Set set_now jobID
      (pending_record now url key cb (ctx_request_id r)) s1 = (s2, r2, None)"
    by (simp add: mem_Set_def Let_def)
  ultimately show ?thesis using assms(1,3,4) r1 by (auto simp: SubmitJob_def)
qed


definition demo_request :: http_request where
  "demo_request = \<lparr>decoded_body = Inr \<lparr>req_URL = '' http://e/p '', req_IdempotencyKey = '''',
       req_CallbackURL = ''''\<rparr>, idempotency_header = ''k1'', path_id = '''', ctx_request_id = ''r1''\<rparr>"

definition demo_handler_options :: HandlerOptions where
  "demo_handler_options = \<lparr>RequireIdempotencyKey = True, DefaultWebhookURL = ''http://hook''\<rparr>"

definition demo_api :: "nat \<Rightarrow> (mem_storage, mem_queue, mem_blobs) api" where
  "demo_api n = \<lparr>a_store = demo_store,
     a_queue = \<lparr>buf = [], capacity = n, recvq = 0, handed = []\<rparr>, a_blobs = NewMemoryStore,
     a_cancels = NewRegistry, a_metrics = Some NewMetrics, a_cancelled = []\<rparr>"

lemma demo_checks:
  "check_submission demo_handler_options demo_request = Inr (''http://e/p'', ''k1'', ''http://hook'')"
proof -
  have trim: "trim_space '' http://e/p '' = ''http://e/p''" "trim_space ''k1'' = ''k1''"
    "trim_space '''' = ''''" "trim_space ''http://hook'' = ''http://hook''"
    by (simp_all add: trim_space_graphic(1) graphic_def less_eq_char_def) code_simp
  have "validateURL ''http://e/p'' = None" by code_simp
  moreover have "validateURL ''http://hook'' = None" by code_simp
  ultimately show ?thesis
    by (simp add: check_submission_def demo_request_def demo_handler_options_def trim
        idempotency_key_def callback_url_def)
qed

lemma demo_api_facts:
  "ms_wf (a_store (demo_api n))" "mq_wf (a_queue (demo_api n))"
  "queue_has_room (a_queue (demo_api n)) = (0 < n)"
  by (simp_all add: demo_api_def demo_store_wf mq_wf_def queue_has_room_def)

lemma demo_api_fresh:
  "ms_view (a_store (demo_api n)) ''new'' = None" "key_free ''k1'' (ms_keys (a_store (demo_api n)))"
proof -
  have "ms_view demo_store ''new'' = None" by code_simp
  moreover have "ms_keys demo_store ''k1'' = None" by code_simp
  ultimately show "ms_view (a_store (demo_api n)) ''new'' = None"
    "key_free ''k1'' (ms_keys (a_store (demo_api n)))"
    by (simp_all add: demo_api_def key_free_def)
qed

theorem submit_accepts_witness:
  "let (a', resp) = SubmitJob mem_store_ops mem_queue_ops demo_handler_options ''new'' 9 10
         demo_request (demo_api 1)
   in resp = accepted ''new'' False \<and> length (mq_pending (a_queue a')) = 1
      \<and> map_option URL (ms_view (a_store a') ''new'') = Some ''http://e/p''"
proof -
  obtain a' resp where run: "SubmitJob mem_store_ops mem_queue_ops demo_handler_options ''new'' 9 10
      demo_request (demo_api 1) = (a', resp)" by (metis surj_pair)
  show ?thesis
    using submit_accepts [OF demo_api_facts(1,2) _ _ demo_checks demo_api_fresh _ run] run
    by (simp add: demo_api_facts) (simp add: demo_api_def mq_pending_def)
qed

text \<open>A job record that was only just stored, and its key, disappear without a trace.\<close>

lemma mem_rollback:
  assumes wf: "ms_wf s" and new: "ms_view s i = None" and free: "key_free key (ms_keys s)"
    and key: "IdempotencyKey r = key"
  shows "fst (mem_Delete i (fst (mem_Set t i r (fst (mem_ReserveIdempotencyKey key i s))))) = s"
proof -
  let ?r = "merge_result t None r"
  have i: "i \<notin> set (gm_keys (results s))" "i \<notin> set (order s)"
    using new ms_wf_order_iff [OF wf] by (simp_all add: ms_view_def map_of_None_iff_keys)
  have new': "map_of (results s) i = None" using new by (simp add: ms_view_def)
  have r: "IdempotencyKey ?r = key" using key by (simp add: merge_result_fresh)
  have del: "gm_del i (gm_put i ?r (results s)) = results s"
    using i(1) by (simp add: delete_update_same delete_id)
  show ?thesis
  proof (cases "key = ''''")
    case True
    then show ?thesis using new' r i del
      by (simp add: mem_ReserveIdempotencyKey_def mem_Set_def mem_Delete_def Let_def remove1_snoc_new)
  next
    case False
    then have k: "map_of (idempotency s) key = None" using free by (simp add: key_free_def ms_keys_def)
    then have "gm_del key (gm_put key i (idempotency s)) = idempotency s"
      by (simp add: delete_update_same delete_id map_of_None_iff_keys)
    then show ?thesis using False k new' r i del
      by (simp add: mem_ReserveIdempotencyKey_def mem_Set_def mem_Delete_def Let_def remove1_snoc_new)
  qed
qed


text \<open>C11: A refused submission leaves no trace on the in-memory back-ends, whose only failure is a full
  queue: every answer is then 202, 400 or 503 (the three 500s need a store or a queue that fails, as
  Redis can); whenever it is not 202 the whole state, down to the order of the records, the reserved
  keys and the queue, is as before but for the rejection counter; and a full queue is exactly what
  turns a valid new submission into 503.\<close>

theorem submit_refused_no_trace:
  fixes a :: "(mem_storage, mem_queue, 'b) api"
  assumes wf: "ms_wf (a_store a)" and new: "ms_view (a_store a) jobID = None"
    and run: "SubmitJob mem_store_ops mem_queue_ops opts jobID now set_now r a = (a', resp)"
  shows "(code resp = 202 \<or> code resp = 400 \<or> code resp = 503)
    \<and> (code resp \<noteq> 202 \<longrightarrow> (\<exists>reason. a' = recordRejected reason a))
    \<and> (code resp = 400 \<longleftrightarrow> (\<exists>e. check_submission opts r = Inl e))
    \<and> (code resp = 503 \<longleftrightarrow> (\<exists>url key cb. check_submission opts r = Inr (url, key, cb)
          \<and> key_free key (ms_keys (a_store a)) \<and> \<not> queue_has_room (a_queue a)))"
proof (cases "check_submission opts r")
  case (Inl e)
  then show ?thesis using run by (auto simp: SubmitJob_def split: prod.splits)
next
  case (Inr ukc)
  obtain url key cb where chk: "check_submission opts r = Inr (url, key, cb)"
    using Inr by (cases ukc) auto
  let ?p = "pending_record now url key cb (ctx_request_id r)"
  let ?j = "submitted_job jobID url key cb (ctx_request_id r)"
  show ?thesis
  proof (cases "key_free key (ms_keys (a_store a))")
    case False
    then obtain i where "map_of (idempotency (a_store a)) key = Some i" "key \<noteq> ''''"
      by (auto simp: key_free_def ms_keys_def)
    then show ?thesis using run chk False
      by (auto simp: SubmitJob_def mem_ReserveIdempotencyKey_def)
  next
    case True
    obtain s1 j fr where res: "mem_ReserveIdempotencyKey key jobID (a_store a) = (s1, Inr (j, fr))"
      using mem_Reserve_result [of key jobID "a_store a"] by (metis prod.collapse)
    have fr: "fr" using mem_Reserve_result [of key jobID "a_store a"] res spec_reserve_free [OF True]
      by simp
    obtain s2 r2 where set: "mem_Set set_now jobID ?p s1 = (s2, r2, None)"
      by (simp add: mem_Set_def Let_def)
    have undone: "fst (mem_Delete jobID s2) = a_store a"
      using mem_rollback [OF wf new True, of ?p set_now]
        res set by simp
    show ?thesis
    proof (cases "queue_has_room (a_queue a)")
      case True
      obtain q' where "mq_Push ?j (a_queue a) = (q', None)" using mq_Push_room [OF True] by blast
      then show ?thesis using run chk res fr set True by (auto simp: SubmitJob_def)
    next
      case full: False
      have "a' = recordRejected ''queue_full'' a \<and> code resp = 503"
        using run chk res fr set mq_Push_full [OF full, of ?j] undone
        by (auto simp: SubmitJob_def Let_def)
      then show ?thesis using chk True full by auto
    qed
  qed
qed


theorem submit_refused_no_trace_witness:
  "let (a', resp) = SubmitJob mem_store_ops mem_queue_ops demo_handler_options ''new'' 9 10
         demo_request (demo_api 0)
   in code resp = 503 \<and> (\<exists>reason. a' = recordRejected reason (demo_api 0))"
proof -
  obtain a' resp where run: "SubmitJob mem_store_ops mem_queue_ops demo_handler_options ''new'' 9 10
      demo_request (demo_api 0) = (a', resp)" by (metis surj_pair)
  show ?thesis
    using submit_refused_no_trace [OF demo_api_facts(1) demo_api_fresh(1) run] run
      demo_checks demo_api_fresh(2) by (simp add: demo_api_facts)
qed

text \<open>
  What store operations of others keep: no other job's record carries the key, the job is not deleted.
  Only the submission that made a job ever deletes it, when its push fails, and a record carries the
  key its own submission reserved.
\<close>

fun leaves_key :: "string \<Rightarrow> string \<Rightarrow> store_op \<Rightarrow> bool" where
  "leaves_key key j (SetOp t i r) = (i = j \<or> IdempotencyKey r \<noteq> key)"
| "leaves_key key j (DeleteOp i) = (i \<noteq> j)"
| "leaves_key key j _ = True"

definition key_held :: "string \<Rightarrow> string \<Rightarrow> jobs_view \<times> keys_view \<Rightarrow> bool" where
  "key_held key j a \<longleftrightarrow> snd a key = Some j \<and> (\<forall>i r. fst a i = Some r \<and> IdempotencyKey r = key \<longrightarrow> i = j)"

lemma merged_key:
  "IdempotencyKey (merge_result t old r)
     = (if IdempotencyKey r = '''' then (case old of None \<Rightarrow> '''' | Some e \<Rightarrow> IdempotencyKey e) else IdempotencyKey r)"
  by (simp add: merge_result_def inherit_fields_def inherit_created_def split: option.split)

lemma key_held_op:
  assumes "key_held key j a" and "leaves_key key j op" and "key \<noteq> ''''"
  shows "key_held key j (spec_op op a)"
proof -
  obtain m k where a: "a = (m, k)" by (metis surj_pair)
  show ?thesis
  proof (cases op)
    case (SetOp t i r)
    then show ?thesis using assms by (auto simp: a key_held_def merged_key split: option.splits if_splits)
  next
    case (DeleteOp i)
    then show ?thesis using assms by (auto simp: a key_held_def spec_delete_key_def split: option.splits)
  next
    case (CancelOp t i)
    then show ?thesis using assms
      by (auto simp: a key_held_def spec_cancel_def merged_key split: option.splits if_splits)
  next
    case (ReserveOp k' i)
    then show ?thesis using assms by (auto simp: a key_held_def spec_reserve_def split: option.splits)
  qed
qed

lemma key_held_run:
  "key_held key j (abs_store s) \<Longrightarrow> \<forall>op \<in> set ops. leaves_key key j op \<Longrightarrow> key \<noteq> '''' \<Longrightarrow>
     key_held key j (abs_store (mem_run ops s))"
proof (induction ops arbitrary: s)
  case (Cons op ops)
  then have "key_held key j (abs_store (mem_op op s))" by (simp add: mem_op_refines key_held_op)
  then show ?case using Cons by (simp add: mem_run_def)
qed (simp add: mem_run_def)

text \<open>C12: Idempotent resubmission on the in-memory store. After an accepted submission with a non-empty
  idempotency key, and after any store operations of other requests and workers in between (sets of
  this job and of jobs without the key, cancels, reservations, deletions of other jobs), with queue,
  blobs and metrics in any state, a valid request with that key, whatever URL it names, is answered
  202 with the first job's id and the idempotent mark, and changes nothing: no record, no key,
  nothing queued.\<close>

theorem resubmit_same_job:
  fixes a :: "(mem_storage, mem_queue, 'b) api"
  assumes wf: "ms_wf (a_store a)" "mq_wf (a_queue a)" and t: "now \<noteq> 0" "set_now \<noteq> 0"
    and chk: "check_submission opts r = Inr (url, key, cb)" and key: "key \<noteq> ''''"
    and new: "ms_view (a_store a) jobID = None" and free: "key_free key (ms_keys (a_store a))"
    and unused: "\<forall>i x. ms_view (a_store a) i = Some x \<longrightarrow> IdempotencyKey x \<noteq> key"
    and room: "queue_has_room (a_queue a)"
    and first: "SubmitJob mem_store_ops mem_queue_ops opts jobID now set_now r a = (a1, resp1)"
    and others: "\<forall>op \<in> set ops. leaves_key key jobID op" and later: "a_store a2 = mem_run ops (a_store a1)"
    and chk2: "check_submission opts r2 = Inr (url2, key, cb2)"
    and again: "SubmitJob mem_store_ops mem_queue_ops opts jobID2 now2 set_now2 r2 a2 = (a3, resp2)"
  shows "resp1 = accepted jobID False \<and> resp2 = accepted jobID True \<and> a3 = a2"
proof -
  let ?j = "submitted_job jobID url key cb (ctx_request_id r)"
  obtain q' where push: "q_Push mem_queue_ops ?j (a_queue a) = (q', None)"
    using mq_Push_room [OF room] by auto
  note one = sub.submit_fresh [OF wf t chk new free push first]
  then have "key_held key jobID (abs_store (a_store a1))"
    using key unused by (auto simp: key_held_def abs_store_def reserve_key_def split: if_splits)
  from key_held_run [OF this others key] have "ms_keys (a_store a2) key = Some jobID"
    by (simp add: later key_held_def abs_store_def)
  then have "mem_ReserveIdempotencyKey key jobID2 (a_store a2) = (a_store a2, Inr (jobID, False))"
    using key by (simp add: mem_ReserveIdempotencyKey_def ms_keys_def)
  then have "a3 = a2 \<and> resp2 = accepted jobID True"
    using again chk2 by (simp add: SubmitJob_def)
  then show ?thesis using one by simp
qed

theorem resubmit_same_job_witness:
  "let (a1, resp1) = SubmitJob mem_store_ops mem_queue_ops demo_handler_options ''new'' 9 10
         demo_request (demo_api 1);
       a2 = a1\<lparr>a_store := mem_run [ReserveOp ''k2'' ''b'', SetOp 11 ''b'' (zero_result\<lparr>IdempotencyKey := ''k2''\<rparr>),
              CancelOp 12 ''new'', DeleteOp ''b''] (a_store a1)\<rparr>;
       (a3, resp2) = SubmitJob mem_store_ops mem_queue_ops demo_handler_options ''other'' 19 20
         demo_request a2
   in resp2 = accepted ''new'' True \<and> a3 = a2"
proof -
  let ?ops = "[ReserveOp ''k2'' ''b'', SetOp 11 ''b'' (zero_result\<lparr>IdempotencyKey := ''k2''\<rparr>),
      CancelOp 12 ''new'', DeleteOp ''b'']"
  obtain a1 resp1 where one: "SubmitJob mem_store_ops mem_queue_ops demo_handler_options ''new'' 9 10
      demo_request (demo_api 1) = (a1, resp1)" by (metis surj_pair)
  let ?a2 = "a1\<lparr>a_store := mem_run ?ops (a_store a1)\<rparr>"
  obtain a3 resp2 where two: "SubmitJob mem_store_ops mem_queue_ops demo_handler_options ''other'' 19 20
      demo_request ?a2 = (a3, resp2)" by (metis surj_pair)
  have "list_all (\<lambda>(i, x). IdempotencyKey x \<noteq> ''k1'') (results demo_store)" by code_simp
  then have unused: "\<forall>i x. ms_view (a_store (demo_api 1)) i = Some x \<longrightarrow> IdempotencyKey x \<noteq> ''k1''"
    by (auto simp: demo_api_def ms_view_def list_all_iff dest!: map_of_SomeD)
  have ops: "\<forall>op \<in> set ?ops. leaves_key ''k1'' ''new'' op" by simp
  show ?thesis
    using resubmit_same_job [OF demo_api_facts(1,2) _ _ demo_checks _ demo_api_fresh unused _ one ops _ demo_checks two]
      one two by (simp add: demo_api_facts)
qed

subsection \<open>When the store fails\<close>

text \<open>
  A store whose \<open>Set\<close> fails while its other operations work, as the handler tests build it
  (\<open>failingStore\<close> in \<open>internal/api/handler_test.go\<close>) and as a Redis outage between two commands
  produces it.
\<close>

definition failing_set :: "go_error \<Rightarrow> 's store_ops \<Rightarrow> 's store_ops" where
  "failing_set e S = S\<lparr>s_Set := (\<lambda>now i r s. (s, r, Some e))\<rparr>"

text \<open>C37: A submission that fails to store its record keeps its idempotency key. The client is told
  500, but the key now leads to an id that has no record; when the store works again, the client's
  retry with the same key is answered 202 with that id, nothing is stored or queued, and asking for
  the job gives 404.\<close>

theorem failed_submit_poisons_key:
  fixes a :: "(mem_storage, mem_queue, 'b) api"
  assumes new: "ms_view (a_store a) jobID = None" and free: "ms_keys (a_store a) key = None"
    and chk: "check_submission opts r = Inr (url, key, cb)" and key: "key \<noteq> ''''"
    and first: "SubmitJob (failing_set e mem_store_ops) mem_queue_ops opts jobID now set_now r a
                  = (a1, resp1)"
    and again: "SubmitJob mem_store_ops mem_queue_ops opts jobID2 now2 set_now2 r a1 = (a2, resp2)"
    and ask: "path_id g = jobID"
  shows "code resp1 = 500 \<and> resp2 = accepted jobID True \<and> a2 = a1
    \<and> ms_view (a_store a2) = ms_view (a_store a) \<and> a_queue a2 = a_queue a
    \<and> code (snd (GetJob mem_store_ops B g a2)) = 404"
proof -
  have k: "map_of (idempotency (a_store a)) key = None" using free by (simp add: ms_keys_def)
  let ?s = "(a_store a)\<lparr>idempotency := gm_put key jobID (idempotency (a_store a))\<rparr>"
  have a1: "a1 = recordRejected ''storage_error'' (a\<lparr>a_store := ?s\<rparr>)" and "code resp1 = 500"
    using first chk key k by (auto simp: SubmitJob_def failing_set_def mem_ReserveIdempotencyKey_def)
  moreover have "mem_ReserveIdempotencyKey key jobID2 (a_store a1) = (a_store a1, Inr (jobID, False))"
    using a1 key by (simp add: mem_ReserveIdempotencyKey_def)
  then have "a2 = a1 \<and> resp2 = accepted jobID True" using again chk by (simp add: SubmitJob_def)
  moreover have "ms_view (a_store a1) = ms_view (a_store a)" "a_queue a1 = a_queue a"
    using a1 by (simp_all add: ms_view_def)
  moreover have "code (snd (GetJob mem_store_ops B g a1)) = 404"
    using a1 new ask by (simp add: GetJob_def mem_Get_def ms_view_def)
  ultimately show ?thesis by simp
qed

theorem failed_submit_poisons_key_witness:
  "let (a1, resp1) = SubmitJob (failing_set (ErrNew ''down'') mem_store_ops) mem_queue_ops
         demo_handler_options ''new'' 9 10 demo_request (demo_api 1);
       (a2, resp2) = SubmitJob mem_store_ops mem_queue_ops demo_handler_options ''other'' 19 20
         demo_request a1
   in code resp1 = 500 \<and> resp2 = accepted ''new'' True
      \<and> code (snd (GetJob mem_store_ops mem_blob_ops (demo_request\<lparr>path_id := ''new''\<rparr>) a2)) = 404"
proof -
  obtain a1 resp1 where one: "SubmitJob (failing_set (ErrNew ''down'') mem_store_ops) mem_queue_ops
      demo_handler_options ''new'' 9 10 demo_request (demo_api 1) = (a1, resp1)" by (metis surj_pair)
  obtain a2 resp2 where two: "SubmitJob mem_store_ops mem_queue_ops demo_handler_options ''other'' 19 20
      demo_request a1 = (a2, resp2)" by (metis surj_pair)
  have k: "ms_keys (a_store (demo_api 1)) ''k1'' = None" using demo_api_fresh(2) by (simp add: key_free_def)
  show ?thesis
    using failed_submit_poisons_key [OF demo_api_fresh(1) k demo_checks _ one two,
        of "demo_request\<lparr>path_id := ''new''\<rparr>" mem_blob_ops] one two by auto
qed


section \<open>Reading and cancelling a job\<close>

text \<open>C38: What \<open>GetJob\<close> answers on the in-memory back-ends, without changing anything: 404 for an
  unknown id; the status as JSON while the job is not completed; the stored PDF as an attachment
  once it is; and, when the PDF of a completed job is missing, a 500 whose JSON body still carries
  the attachment header meant for the PDF, so that a browser saves the error text as a .pdf file.\<close>

theorem GetJob_answers:
  fixes a :: "(mem_storage, 'q, mem_blobs) api"
  assumes run: "GetJob mem_store_ops mem_blob_ops r a = (a', resp)" and i: "i = path_id r"
    and pdf_name: "disposition = (''Content-Disposition'', ''attachment; filename='' @ i @ ''.pdf'')"
  shows "a' = a \<and>
         (case ms_view (a_store a) i of
            None \<Rightarrow> code resp = 404 \<and> body resp = ErrorResponse ''job_not_found'' ''Job not found'' (ctx_request_id r)
          | Some c \<Rightarrow>
              if Status c \<noteq> StatusCompleted
              then resp = \<lparr>code = 200, headers = [json_type],
                     body = JobStatusBody i (URL c) (Status c) (Error c)\<rparr>
              else (case map_of (a_blobs a) (PDFKey c) of
                      Some pdf \<Rightarrow> resp = \<lparr>code = 200,
                        headers = [(''Content-Type'', ''application/pdf''), disposition],
                        body = PdfBody pdf\<rparr>
                    | None \<Rightarrow> resp = \<lparr>code = 500, headers = [json_type, disposition],
                        body = ErrorResponse ''pdf_not_found'' ''PDF not found'' (ctx_request_id r)\<rparr>))"
  using run unfolding i pdf_name
  by (auto simp: GetJob_def mem_Get_def mb_Get_def ms_view_def status_body_def writeError_def
      json_type_def Let_def split: option.splits if_splits)


definition demo_completed :: "(mem_storage, mem_queue, mem_blobs) api" where
  "demo_completed = (demo_api 1)\<lparr>a_store := fst (mem_Set 20 ''done''
     (zero_result\<lparr>URL := ''http://e'', Status := StatusCompleted, PDFKey := ''pdf/done.pdf''\<rparr>) NewMemoryStorage)\<rparr>"

lemma demo_completed_view:
  "\<exists>c. ms_view (a_store demo_completed) ''done'' = Some c \<and> Status c = StatusCompleted
     \<and> PDFKey c = ''pdf/done.pdf''"
  by (simp add: demo_completed_def ms_view_def mem_Set_def Let_def NewMemoryStorage_def)

theorem GetJob_answers_witness:
  "let resp = snd (GetJob mem_store_ops mem_blob_ops (demo_request\<lparr>path_id := ''done''\<rparr>) demo_completed)
   in code resp = 500 \<and> headers resp = [json_type, (''Content-Disposition'', ''attachment; filename=done.pdf'')]"
proof -
  obtain a' resp where run: "GetJob mem_store_ops mem_blob_ops (demo_request\<lparr>path_id := ''done''\<rparr>)
      demo_completed = (a', resp)" by (metis surj_pair)
  have b: "map_of (a_blobs demo_completed) ''pdf/done.pdf'' = None"
    by (simp add: demo_completed_def demo_api_def NewMemoryStore_def)
  from demo_completed_view b show ?thesis using GetJob_answers [OF run refl refl] run by auto
qed

text \<open>A cancel request cancels the job's render context whenever one is registered, whatever
  the store says. It answers 404 and changes no record for an unknown id. For a known one it
  answers 200 with the status the record then has, which is terminal: the one it had when it was
  terminal already, canceled otherwise. No other record, no key and no queued job changes.\<close>

theorem CancelJob_effect:
  fixes a :: "(mem_storage, 'q, 'b) api"
  assumes wf: "ms_wf (a_store a)" and t: "now \<noteq> 0" and i: "i = path_id r"
    and run: "CancelJob mem_store_ops now r a = (a', resp)"
  shows "a_cancelled a' = a_cancelled a @ (case map_of (a_cancels a) i of Some c \<Rightarrow> [c] | None \<Rightarrow> [])
    \<and> a_queue a' = a_queue a \<and> a_blobs a' = a_blobs a \<and> ms_wf (a_store a')
    \<and> ms_keys (a_store a') = ms_keys (a_store a)
    \<and> (case ms_view (a_store a) i of
         None \<Rightarrow> code resp = 404 \<and> a_store a' = a_store a
       | Some c \<Rightarrow> \<exists>c'. code resp = 200 \<and> body resp = JobStatusBody i (URL c) (Status c') (Error c')
           \<and> ms_view (a_store a') = (ms_view (a_store a))(i \<mapsto> c')
           \<and> Status c' = (if terminal (Status c) then Status c else StatusCanceled)
           \<and> (terminal (Status c) \<longrightarrow> c' = c) \<and> terminal (Status c'))"
proof -
  obtain s1 res where c: "mem_Cancel now i (a_store a) = (s1, res)" by (metis surj_pair)
  have s1: "s1 = fst (mem_Cancel now i (a_store a))" using c by simp
  have "ms_wf s1" "ms_keys s1 = ms_keys (a_store a)"
    using ms_wf_Cancel [OF wf t, of i] by (simp_all add: s1 store_simps)
  moreover have "a_store a' = s1" "a_queue a' = a_queue a" "a_blobs a' = a_blobs a"
    "a_cancelled a' = a_cancelled a @ (case map_of (a_cancels a) i of Some c \<Rightarrow> [c] | None \<Rightarrow> [])"
    using run c i by (auto simp: CancelJob_def Let_def reg_Cancel_def split: sum.splits option.splits)
  moreover have "case ms_view (a_store a) i of
         None \<Rightarrow> code resp = 404 \<and> s1 = a_store a
       | Some c \<Rightarrow> \<exists>c'. code resp = 200 \<and> body resp = JobStatusBody i (URL c) (Status c') (Error c')
           \<and> ms_view s1 = (ms_view (a_store a))(i \<mapsto> c')
           \<and> Status c' = (if terminal (Status c) then Status c else StatusCanceled)
           \<and> (terminal (Status c) \<longrightarrow> c' = c) \<and> terminal (Status c')"
  proof (cases "ms_view (a_store a) i")
    case None
    then show ?thesis using run c i
      by (auto simp: CancelJob_def mem_Cancel_cases ms_view_def Let_def)
  next
    case (Some old)
    let ?new = "if terminal (Status old) then old else merge_result now (Some old) (mark_canceled old)"
    have "res = Inr ?new"
      using c Some by (auto simp: mem_Cancel_cases ms_view_def split: if_splits)
    moreover have "ms_view s1 = (ms_view (a_store a))(i \<mapsto> ?new)"
      using Some by (auto simp: s1 store_simps spec_cancel_def spec_set_def)
    ultimately show ?thesis using run c i Some
      by (auto simp: CancelJob_def Let_def status_body_def intro!: exI [of _ ?new])
  qed
  ultimately show ?thesis by (simp only: simp_thms)
qed

theorem CancelJob_effect_witness:
  "let (a', resp) = CancelJob mem_store_ops 50 (demo_request\<lparr>path_id := ''a''\<rparr>)
         ((demo_api 1)\<lparr>a_cancels := reg_Register ''a'' 7 NewRegistry\<rparr>)
   in a_cancelled a' = [7] \<and> code resp = 200
      \<and> map_option Status (ms_view (a_store a') ''a'') = Some StatusCanceled"
proof -
  let ?a = "(demo_api 1)\<lparr>a_cancels := reg_Register ''a'' 7 NewRegistry\<rparr>"
  obtain a' resp where run: "CancelJob mem_store_ops 50 (demo_request\<lparr>path_id := ''a''\<rparr>) ?a = (a', resp)"
    by (metis surj_pair)
  have "map_option Status (ms_view demo_store ''a'') = Some StatusPending" by code_simp
  moreover have "ms_wf (a_store ?a)" by (simp add: demo_api_def demo_store_wf)
  ultimately show ?thesis
    using CancelJob_effect [OF _ _ refl run] run
    by (auto simp: demo_api_def reg_Register_def NewRegistry_def)
qed


end
