(* ===== verification/Go_Time.thy ===== *)
theory Go_Time
  imports Go_Strings
begin

text \<open>
  Times as text: what \<open>time.Format\<close> and \<open>time.Parse\<close> do with the layout \<open>RFC3339Nano\<close> for times in
  UTC. Times are nanoseconds since the first of January of year 1, as everywhere in the
  development; the calendar is the proleptic Gregorian one, as in Go.
\<close>

section \<open>Calendar\<close>

definition is_leap :: "int \<Rightarrow> bool" where
  "is_leap y \<longleftrightarrow> y mod 4 = 0 \<and> (y mod 100 \<noteq> 0 \<or> y mod 400 = 0)"

definition month_lengths :: "int \<Rightarrow> int list" where
  "month_lengths y = [31, if is_leap y then 29 else 28, 31, 30, 31, 30, 31, 31, 30, 31, 30, 31]"

text \<open>Days from the first of January of year 1 to that of year \<open>y\<close>.\<close>

definition days_to_year :: "int \<Rightarrow> int" where
  "days_to_year y = (let p = y - 1 in 365 * p + p div 4 - p div 100 + p div 400)"

definition days_of_date :: "int \<Rightarrow> int \<Rightarrow> int \<Rightarrow> int" where
  "days_of_date y m d = days_to_year y + sum_list (take (nat (m - 1)) (month_lengths y)) + d - 1"

text \<open>The year of a day and the day within it, by cutting off cycles of 400, 100, 4 and 1 years.\<close>

definition year_day :: "int \<Rightarrow> int \<times> int" where
  "year_day n =
     (let r = n mod 146097; c = min 3 (r div 36524);
          r1 = r - 36524 * c; q = r1 div 1461;
          r2 = r1 mod 1461; e = min 3 (r2 div 365)
      in (400 * (n div 146097) + 100 * c + 4 * q + e + 1, r2 - 365 * e))"

fun month_day :: "int \<Rightarrow> int list \<Rightarrow> int \<Rightarrow> int \<times> int" where
  "month_day m [] d = (m, d + 1)"
| "month_day m (l # ls) d = (if d < l then (m, d + 1) else month_day (m + 1) ls (d - l))"

definition date_of_days :: "int \<Rightarrow> int \<times> int \<times> int" where
  "date_of_days n = (case year_day n of (y, yd) \<Rightarrow> (y, month_day 1 (month_lengths y) yd))"

lemma div_mod_unique:
  "n = m * x + e \<Longrightarrow> 0 \<le> e \<Longrightarrow> e < m \<Longrightarrow> n div m = x \<and> n mod m = (e :: int)"
  by simp

lemma div_bounds: "0 < m \<Longrightarrow> m * (n div m) \<le> n \<and> n < m * (n div m) + (m :: int)"
  using pos_mod_bound [of m n] pos_mod_sign [of m n] mult_div_mod_eq [of m n] by linarith

lemma year_parts:
  fixes a c q e :: int
  assumes "0 \<le> c" "c \<le> 3" "0 \<le> q" "q \<le> 24" "0 \<le> e" "e \<le> 3" and p: "p = 400 * a + 100 * c + 4 * q + e"
  shows "p div 4 = 100 * a + 25 * c + q" "p div 100 = 4 * a + c" "p div 400 = a"
    "is_leap (p + 1) \<longleftrightarrow> e = 3 \<and> (q \<noteq> 24 \<or> c = 3)"
proof -
  have "p div 4 = 100 * a + 25 * c + q \<and> p mod 4 = e" by (rule div_mod_unique) (use assms in simp_all)
  moreover have "p div 100 = 4 * a + c \<and> p mod 100 = 4 * q + e"
    by (rule div_mod_unique) (use assms in simp_all)
  moreover have "p div 400 = a \<and> p mod 400 = 100 * c + 4 * q + e"
    by (rule div_mod_unique) (use assms in simp_all)
  ultimately show "p div 4 = 100 * a + 25 * c + q" "p div 100 = 4 * a + c" "p div 400 = a" by simp_all
  have "(p + 1) mod 4 = 0 \<longleftrightarrow> e = 3"
  proof (cases "e = 3")
    case True
    have "(p + 1) mod 4 = 0"
      using div_mod_unique [of "p + 1" 4 "100 * a + 25 * c + q + 1" 0] True p by simp
    then show ?thesis using True by simp
  next
    case False
    then show ?thesis using div_mod_unique [of "p + 1" 4 "100 * a + 25 * c + q" "e + 1"] assms by simp
  qed
  moreover have "(p + 1) mod 100 = 0 \<longleftrightarrow> q = 24 \<and> e = 3"
  proof (cases "q = 24 \<and> e = 3")
    case True
    have "(p + 1) mod 100 = 0"
      using div_mod_unique [of "p + 1" 100 "4 * a + c + 1" 0] True p by simp
    then show ?thesis using True by simp
  next
    case False
    then have "4 * q + e + 1 < 100" using assms by arith
    then show ?thesis using div_mod_unique [of "p + 1" 100 "4 * a + c" "4 * q + e + 1"] assms False by simp
  qed
  moreover have "(p + 1) mod 400 = 0 \<longleftrightarrow> c = 3 \<and> q = 24 \<and> e = 3"
  proof (cases "c = 3 \<and> q = 24 \<and> e = 3")
    case True
    have "(p + 1) mod 400 = 0" using div_mod_unique [of "p + 1" 400 "a + 1" 0] True p by simp
    then show ?thesis using True by simp
  next
    case False
    then have "100 * c + 4 * q + e + 1 < 400" using assms by arith
    then show ?thesis using div_mod_unique [of "p + 1" 400 a "100 * c + 4 * q + e + 1"] assms False by simp
  qed
  ultimately show "is_leap (p + 1) \<longleftrightarrow> e = 3 \<and> (q \<noteq> 24 \<or> c = 3)" by (auto simp: is_leap_def)
qed

lemma year_day_correct:
  assumes "year_day n = (y, yd)"
  shows "days_to_year y + yd = n" "0 \<le> yd" "yd < (if is_leap y then 366 else 365)"
proof -
  define a where "a = n div 146097"
  define r where "r = n mod 146097"
  define k where "k = r div 36524"
  define c where "c = min 3 k"
  define r1 where "r1 = r - 36524 * c"
  define q where "q = r1 div 1461"
  define r2 where "r2 = r1 mod 1461"
  define l where "l = r2 div 365"
  define e where "e = min 3 l"
  have y: "y = 400 * a + 100 * c + 4 * q + e + 1" "yd = r2 - 365 * e"
    using assms by (simp_all add: year_day_def Let_def r_def c_def r1_def q_def r2_def e_def a_def k_def l_def)
  have r: "0 \<le> r" "r < 146097" "n = 146097 * a + r" by (simp_all add: r_def a_def)
  have k: "36524 * k \<le> r" "r < 36524 * k + 36524" using div_bounds [of 36524 r] by (simp_all add: k_def)
  then have "0 \<le> k" "k \<le> 4" using r by linarith+
  then have c: "0 \<le> c" "c \<le> 3" "0 \<le> r1" "r1 \<le> 36524" "c < 3 \<longrightarrow> r1 < 36524"
    using k r unfolding r1_def c_def min_def by auto
  have q1: "r1 = 1461 * q + r2" "0 \<le> r2" "r2 < 1461" by (simp_all add: q_def r2_def)
  then have q: "0 \<le> q" "q \<le> 24" using c by linarith+
  have r2: "q = 24 \<longrightarrow> r2 \<le> 1460" "q = 24 \<longrightarrow> c < 3 \<longrightarrow> r2 < 1460" using c q1 by linarith+
  have l: "365 * l \<le> r2" "r2 < 365 * l + 365" using div_bounds [of 365 r2] by (simp_all add: l_def)
  then have "0 \<le> l" "l \<le> 4" using q1 by linarith+
  then have e: "0 \<le> e" "e \<le> 3" "0 \<le> yd" "yd \<le> 365" "yd = 365 \<longrightarrow> e = 3 \<and> r2 = 1460"
    using l q1 unfolding e_def y min_def by auto
  have p: "y - 1 = 400 * a + 100 * c + 4 * q + e" using y by simp
  note parts = year_parts [OF c(1,2) q e(1,2) p]
  show "days_to_year y + yd = n"
    unfolding days_to_year_def Let_def parts using y r q1 by (simp add: r1_def)
  show "0 \<le> yd" by (rule e(3))
  have "yd = 365 \<longrightarrow> is_leap y" using parts(4) e(5) r2(2) c(2) by (cases "c = 3") auto
  then show "yd < (if is_leap y then 366 else 365)" using e(4) by auto
qed

lemma month_day_correct:
  "0 \<le> d \<Longrightarrow> d < sum_list ls \<Longrightarrow> month_day m ls d = (m', d') \<Longrightarrow>
     m \<le> m' \<and> m' < m + int (length ls) \<and> 1 \<le> d' \<and> d' \<le> ls ! nat (m' - m)
     \<and> d = sum_list (take (nat (m' - m)) ls) + d' - 1"
proof (induction m ls d rule: month_day.induct)
  case (2 m l ls d)
  show ?case
  proof (cases "d < l")
    case True
    then show ?thesis using 2 by auto
  next
    case False
    then have i: "m + 1 \<le> m'" "m' < m + 1 + int (length ls)" "1 \<le> d'" "d' \<le> ls ! nat (m' - (m + 1))"
      "d - l = sum_list (take (nat (m' - (m + 1))) ls) + d' - 1"
      using 2 by auto
    have "nat (m' - m) = Suc (nat (m' - (m + 1)))" using i(1) by simp
    then show ?thesis using i by simp
  qed
qed simp

lemma date_of_days_correct:
  assumes "date_of_days n = (y, m, d)"
  shows "days_of_date y m d = n" "1 \<le> m" "m \<le> 12" "1 \<le> d" "d \<le> month_lengths y ! nat (m - 1)"
proof -
  obtain yd where yd: "year_day n = (y, yd)" "month_day 1 (month_lengths y) yd = (m, d)"
    using assms by (auto simp: date_of_days_def split: prod.splits)
  note Y = year_day_correct [OF yd(1)]
  have "sum_list (month_lengths y) = (if is_leap y then 366 else 365)" by (simp add: month_lengths_def)
  then have M: "1 \<le> m \<and> m < 1 + int (length (month_lengths y)) \<and> 1 \<le> d \<and> d \<le> month_lengths y ! nat (m - 1)
     \<and> yd = sum_list (take (nat (m - 1)) (month_lengths y)) + d - 1"
    using month_day_correct [OF Y(2) _ yd(2)] Y(3) by simp
  then show "days_of_date y m d = n" "1 \<le> m" "m \<le> 12" "1 \<le> d" "d \<le> month_lengths y ! nat (m - 1)"
    using Y(1) by (simp_all add: days_of_date_def month_lengths_def)
qed

section \<open>Fixed-width numbers\<close>

fun digits :: "nat \<Rightarrow> nat \<Rightarrow> string" where
  "digits 0 n = []"
| "digits (Suc w) n = digits w (n div 10) @ [digit_char (n mod 10)]"

fun digits_val :: "nat \<Rightarrow> string \<Rightarrow> nat option" where
  "digits_val n [] = Some n"
| "digits_val n (c # cs) = (if is_digit c then digits_val (10 * n + digit_val c) cs else None)"

lemma length_digits [simp]: "length (digits w n) = w"
  by (induction w arbitrary: n) simp_all

lemma digits_are_digits: "c \<in> set (digits w n) \<Longrightarrow> is_digit c"
  by (induction w arbitrary: n) auto

lemma digits_val_append:
  "digits_val n (xs @ ys) = (case digits_val n xs of None \<Rightarrow> None | Some m \<Rightarrow> digits_val m ys)"
  by (induction xs arbitrary: n) simp_all

lemma digits_val_digits [simp]: "n < 10 ^ w \<Longrightarrow> digits_val 0 (digits w n) = Some n"
  by (induction w arbitrary: n) (simp_all add: digits_val_append less_mult_imp_div_less)

section \<open>Format and parse\<close>

definition day_ns :: int where "day_ns = 86400 * second"

definition zero_pad :: "nat \<Rightarrow> nat \<Rightarrow> string" where
  "zero_pad w n = (if n < 10 ^ w then digits w n else itoa_nat n)"

text \<open>The fraction of a second, without trailing zeros and without the point when it is zero.\<close>

definition nano_text :: "nat \<Rightarrow> string" where
  "nano_text n =
     (if n = 0 then [] else CHR ''.'' # rev (dropWhile (\<lambda>c. c = CHR ''0'') (rev (digits 9 n))))"

definition clock_text :: "int \<Rightarrow> string" where
  "clock_text ns =
     (let sec = nat (ns div second)
      in digits 2 (sec div 3600) @ '':'' @ digits 2 (sec div 60 mod 60) @ '':'' @ digits 2 (sec mod 60)
           @ nano_text (nat (ns mod second)))"

definition date_text :: "int \<Rightarrow> string" where
  "date_text n =
     (case date_of_days n of (y, m, d) \<Rightarrow>
        (if y < 0 then CHR ''-'' # zero_pad 4 (nat (- y)) else zero_pad 4 (nat y))
          @ ''-'' @ digits 2 (nat m) @ ''-'' @ digits 2 (nat d))"

definition format_time :: "time \<Rightarrow> string" where
  "format_time t = date_text (t div day_ns) @ ''T'' @ clock_text (t mod day_ns) @ ''Z''"

text \<open>
  \<open>parseRFC3339\<close>, which \<open>time.Parse\<close> tries first; \<open>None\<close> is an error. The few texts only the general
  parser takes (a comma for the point, a single digit for the hour, an offset out of range) are
  read as errors here.
\<close>

definition time_field :: "nat \<Rightarrow> nat \<Rightarrow> nat \<Rightarrow> nat \<Rightarrow> string \<Rightarrow> nat option" where
  "time_field from len lo hi s =
     (case digits_val 0 (take len (drop from s)) of
        None \<Rightarrow> None
      | Some x \<Rightarrow> if lo \<le> x \<and> x \<le> hi then Some x else None)"

definition parse_fraction :: "string \<Rightarrow> nat \<times> string" where
  "parse_fraction s =
     (case s of
        c # s' \<Rightarrow>
          (let ds = takeWhile is_digit s'
           in if c = CHR ''.'' \<and> ds \<noteq> []
              then (the (digits_val 0 (take 9 ds @ replicate (9 - length ds) (CHR ''0''))),
                    dropWhile is_digit s')
              else (0, s))
      | [] \<Rightarrow> (0, s))"

definition parse_offset :: "string \<Rightarrow> int option" where
  "parse_offset s =
     (if s = ''Z'' then Some 0
      else if length s \<noteq> 6 \<or> (hd s \<noteq> CHR ''+'' \<and> hd s \<noteq> CHR ''-'') \<or> s ! 3 \<noteq> CHR '':'' then None
      else (case (time_field 1 2 0 23 s, time_field 4 2 0 59 s) of
              (Some hr, Some mm) \<Rightarrow>
                Some ((if hd s = CHR ''-'' then - 1 else 1) * int ((hr * 60 + mm) * 60) * second)
            | _ \<Rightarrow> None))"

definition parse_time :: "string \<Rightarrow> time option" where
  "parse_time s =
     (if length s < 19 \<or> s ! 4 \<noteq> CHR ''-'' \<or> s ! 7 \<noteq> CHR ''-'' \<or> s ! 10 \<noteq> CHR ''T''
         \<or> s ! 13 \<noteq> CHR '':'' \<or> s ! 16 \<noteq> CHR '':'' then None
      else
        (case (time_field 0 4 0 9999 s, time_field 5 2 1 12 s) of
           (Some y, Some m) \<Rightarrow>
             (case (time_field 8 2 1 (nat (month_lengths (int y) ! (m - 1))) s,
                    time_field 11 2 0 23 s, time_field 14 2 0 59 s, time_field 17 2 0 59 s) of
                (Some d, Some hh, Some mm, Some ss) \<Rightarrow>
                  (case parse_fraction (drop 19 s) of (ns, rest) \<Rightarrow>
                     map_option (\<lambda>off. days_of_date (int y) (int m) (int d) * day_ns
                         + int (hh * 3600 + mm * 60 + ss) * second + int ns - off)
                       (parse_offset rest))
              | _ \<Rightarrow> None)
         | _ \<Rightarrow> None))"

text \<open>The times whose year has four digits; \<open>MarshalJSON\<close> refuses the others.\<close>

definition four_digit_year :: "time \<Rightarrow> bool" where
  "four_digit_year t \<longleftrightarrow> (let y = fst (date_of_days (t div day_ns)) in 0 \<le> y \<and> y \<le> 9999)"

lemma strip_replicate:
  "\<exists>k. ds = rev (dropWhile (\<lambda>c. c = z) (rev ds)) @ replicate k z"
proof (induction ds rule: rev_induct)
  case (snoc x ds)
  then obtain k where k: "ds = rev (dropWhile (\<lambda>c. c = z) (rev ds)) @ replicate k z" by blast
  show ?case
  proof (cases "x = z")
    case True
    have "ds @ [x] = rev (dropWhile (\<lambda>c. c = z) (rev (ds @ [x]))) @ replicate (Suc k) z"
      using True k by (simp add: replicate_append_same [symmetric])
    then show ?thesis by blast
  next
    case False
    then have "ds @ [x] = rev (dropWhile (\<lambda>c. c = z) (rev (ds @ [x]))) @ replicate 0 z" by simp
    then show ?thesis by blast
  qed
qed simp

lemma digits_zero: "digits w 0 = replicate w (CHR ''0'')"
proof (induction w)
  case (Suc w)
  have "digit_char 0 = CHR ''0''" by code_simp
  then show ?case using Suc by (simp add: replicate_append_same)
qed simp

lemma parse_fraction_point:
  assumes "ds \<noteq> []" "list_all is_digit ds" "\<not> is_digit c"
  shows "parse_fraction (CHR ''.'' # ds @ c # s)
    = (the (digits_val 0 (take 9 ds @ replicate (9 - length ds) (CHR ''0''))), c # s)"
  using assms
  by (simp add: parse_fraction_def Let_def takeWhile_append2 dropWhile_append2 list_all_iff)

lemma parse_nano_text:
  assumes n: "n < 10 ^ 9" and c: "\<not> is_digit c" "c \<noteq> CHR ''.''"
  shows "parse_fraction (nano_text n @ c # s) = (n, c # s)"
proof (cases "n = 0")
  case True
  then show ?thesis using c by (simp add: nano_text_def parse_fraction_def Let_def)
next
  case False
  define p where "p = rev (dropWhile (\<lambda>c. c = CHR ''0'') (rev (digits 9 n)))"
  obtain k where k: "digits 9 n = p @ replicate k (CHR ''0'')"
    using strip_replicate [of "digits 9 n" "CHR ''0''"] unfolding p_def by blast
  have len: "length p + k = 9" using arg_cong [OF k, of length] by simp
  have "\<forall>x \<in> set (digits 9 n). is_digit x" using digits_are_digits by blast
  then have dig: "list_all is_digit p" unfolding k by (simp add: list_all_iff)
  have "p \<noteq> []"
  proof
    assume "p = []"
    then have "digits 9 n = digits 9 0" using k len by (simp only: digits_zero append_Nil list.size add_0)
    then have "Some n = Some 0" using digits_val_digits [OF n] digits_val_digits [of 0 9]
      by (simp del: digits.simps)
    then show False using False by simp
  qed
  moreover have "9 - length p = k" "take 9 p = p" using len by simp_all
  then have "take 9 p @ replicate (9 - length p) (CHR ''0'') = digits 9 n" using k by simp
  moreover have "nano_text n = CHR ''.'' # p" using False by (simp add: nano_text_def p_def del: digits.simps)
  ultimately show ?thesis
    using parse_fraction_point [OF _ dig c(1), of s] digits_val_digits [OF n] by (simp del: digits.simps)
qed

lemma time_field_at:
  assumes "s = p @ digits w n @ r" and "length p = from" and "n < 10 ^ w" and "lo \<le> n" "n \<le> hi"
  shows "time_field from w lo hi s = Some n"
  using assms by (simp add: time_field_def)

lemma layout:
  assumes "length a = 4" "length b = 2" "length c = 2" "length d = 2" "length e = 2" "length f = 2"
    and s: "s = a @ ''-'' @ b @ ''-'' @ c @ ''T'' @ d @ '':'' @ e @ '':'' @ f @ r"
  shows "19 \<le> length s" "s ! 4 = CHR ''-''" "s ! 7 = CHR ''-''" "s ! 10 = CHR ''T''"
    "s ! 13 = CHR '':''" "s ! 16 = CHR '':''" "drop 19 s = r"
    "take 4 (drop 0 s) = a" "take 2 (drop 5 s) = b" "take 2 (drop 8 s) = c" "take 2 (drop 11 s) = d"
    "take 2 (drop 14 s) = e" "take 2 (drop 17 s) = f"
  using assms by (simp_all add: nth_append)

lemma parse_layout:
  assumes s: "s = digits 4 y @ ''-'' @ digits 2 m @ ''-'' @ digits 2 d @ ''T'' @ digits 2 hh @ '':''
      @ digits 2 mm @ '':'' @ digits 2 ss @ nano_text ns @ ''Z''"
    and y: "y \<le> 9999" and m: "1 \<le> m" "m \<le> 12" and d: "1 \<le> d" "int d \<le> month_lengths (int y) ! (m - 1)"
    and h: "hh \<le> 23" "mm \<le> 59" "ss \<le> 59" "ns < 10 ^ 9"
  shows "parse_time s = Some (days_of_date (int y) (int m) (int d) * day_ns
      + int (hh * 3600 + mm * 60 + ss) * second + int ns)"
proof -
  have len: "\<forall>l \<in> set (month_lengths (int y)). l \<le> 31" by (simp add: month_lengths_def)
  have "month_lengths (int y) ! (m - 1) \<le> 31"
    using m by (intro bspec [OF len] nth_mem) (simp add: month_lengths_def)
  then have "d < 100" using d by simp
  note L = layout [OF length_digits length_digits length_digits length_digits length_digits length_digits s]
  have "parse_fraction (nano_text ns @ CHR ''Z'' # []) = (ns, ''Z'')"
    by (rule parse_nano_text) (use h in \<open>simp_all add: is_digit_def less_eq_char_def\<close>)
  then have frac: "parse_fraction (drop 19 s) = (ns, ''Z'')" using L(7) by simp
  have fields: "time_field 0 4 0 9999 s = Some y" "time_field 5 2 1 12 s = Some m"
    "time_field 8 2 1 (nat (month_lengths (int y) ! (m - 1))) s = Some d"
    "time_field 11 2 0 23 s = Some hh" "time_field 14 2 0 59 s = Some mm" "time_field 17 2 0 59 s = Some ss"
    using y m d h \<open>d < 100\<close> unfolding time_field_def L(8-13)
    by (simp_all add: digits_val_digits)
  have "\<not> (length s < 19 \<or> s ! 4 \<noteq> CHR ''-'' \<or> s ! 7 \<noteq> CHR ''-'' \<or> s ! 10 \<noteq> CHR ''T''
         \<or> s ! 13 \<noteq> CHR '':'' \<or> s ! 16 \<noteq> CHR '':'')" using L(1-6) by simp
  then show ?thesis unfolding parse_time_def using fields frac
    by (simp only: if_False option.case prod.case) (simp add: parse_offset_def)
qed

lemma parse_format:
  assumes "four_digit_year t"
  shows "parse_time (format_time t) = Some t"
proof -
  let ?n = "t div day_ns" and ?ns = "t mod day_ns"
  obtain y m d where date: "date_of_days ?n = (y, m, d)" by (metis prod_cases3)
  note D = date_of_days_correct [OF date]
  have y: "0 \<le> y" "y \<le> 9999" using assms date by (simp_all add: four_digit_year_def Let_def)
  have ns: "0 \<le> ?ns" "?ns < 86400 * second" by (simp_all add: day_ns_def)
  define sec where "sec = nat (?ns div second)"
  have sec: "int sec = ?ns div second" "sec < 86400" using ns by (simp_all add: sec_def)
  have "sec = sec div 60 * 60 + sec mod 60" "sec div 60 = sec div 60 div 60 * 60 + sec div 60 mod 60" by simp_all
  moreover have "sec div 60 div 60 = sec div 3600" by (simp add: div_mult2_eq [symmetric])
  ultimately have hms: "sec div 3600 * 3600 + sec div 60 mod 60 * 60 + sec mod 60 = sec" by linarith
  have small: "sec div 3600 \<le> 23" using sec(2) by (simp add: less_Suc_eq_le [symmetric] less_mult_imp_div_less)
  have year: "zero_pad 4 (nat y) = digits 4 (nat y)" proof -
    have "nat y < 10 ^ 4" using y by simp
    then show ?thesis by (simp only: zero_pad_def if_True)
  qed
  have md: "int (nat m) = m" "int (nat d) = d" "int (nat y) = y" "nat m - 1 = nat (m - 1)" using D y by auto
  have "parse_time (format_time t) = Some (days_of_date (int (nat y)) (int (nat m)) (int (nat d)) * day_ns
      + int (sec div 3600 * 3600 + sec div 60 mod 60 * 60 + sec mod 60) * second + int (nat (?ns mod second)))"
  proof (rule parse_layout)
    show "format_time t = digits 4 (nat y) @ ''-'' @ digits 2 (nat m) @ ''-'' @ digits 2 (nat d) @ ''T''
        @ digits 2 (sec div 3600) @ '':'' @ digits 2 (sec div 60 mod 60) @ '':'' @ digits 2 (sec mod 60)
        @ nano_text (nat (?ns mod second)) @ ''Z''"
      using y by (simp add: format_time_def date_text_def date clock_text_def Let_def sec_def year
          del: digits.simps)
    show "int (nat d) \<le> month_lengths (int (nat y)) ! (nat m - 1)" unfolding md by (rule D(5))
    show "nat (?ns mod second) < 10 ^ 9" by (simp add: nat_less_iff)
    show "sec div 3600 \<le> 23" by (rule small)
  qed (use D y in auto)
  also have "\<dots> = Some t"
    unfolding hms sec(1) md D(1) by (simp add: mult.commute)
  finally show ?thesis .
qed

end
