(* ===== verification/Go_Json.thy ===== *)
theory Go_Json
  imports Go_Time "HOL-Library.Monad_Syntax"
begin

text \<open>
  The parts of \<open>encoding/json\<close> and \<open>unicode/utf8\<close> the program uses: how a string is written, how a
  text is parsed (strings, numbers, nesting limit, case-insensitive field names, the repair of
  invalid UTF-8), and that reading what was written gives it back. Strings are lists of bytes.
\<close>

section \<open>UTF-8\<close>

abbreviation byte :: "char \<Rightarrow> nat" where
  "byte c \<equiv> of_char c"

text \<open>The ranges of the bytes that must follow a first byte; \<open>None\<close>: not a first byte.\<close>

definition rune_tail :: "nat \<Rightarrow> (nat \<times> nat) list option" where
  "rune_tail x =
     (if x < 0x80 then Some []
      else if 0xC2 \<le> x \<and> x \<le> 0xDF then Some [(0x80, 0xBF)]
      else if x = 0xE0 then Some [(0xA0, 0xBF), (0x80, 0xBF)]
      else if x = 0xED then Some [(0x80, 0x9F), (0x80, 0xBF)]
      else if 0xE1 \<le> x \<and> x \<le> 0xEF then Some [(0x80, 0xBF), (0x80, 0xBF)]
      else if x = 0xF0 then Some [(0x90, 0xBF), (0x80, 0xBF), (0x80, 0xBF)]
      else if 0xF1 \<le> x \<and> x \<le> 0xF3 then Some [(0x80, 0xBF), (0x80, 0xBF), (0x80, 0xBF)]
      else if x = 0xF4 then Some [(0x80, 0x8F), (0x80, 0xBF), (0x80, 0xBF)]
      else None)"

fun follows :: "(nat \<times> nat) list \<Rightarrow> string \<Rightarrow> bool" where
  "follows [] s = True"
| "follows ((lo, hi) # rs) [] = False"
| "follows ((lo, hi) # rs) (c # s) = (lo \<le> byte c \<and> byte c \<le> hi \<and> follows rs s)"

text \<open>How many bytes the valid rune at the front takes; \<open>None\<close>: an invalid byte, one byte long.\<close>

fun rune_size :: "string \<Rightarrow> nat option" where
  "rune_size [] = None"
| "rune_size (a # s) =
     (case rune_tail (byte a) of
        None \<Rightarrow> None
      | Some rs \<Rightarrow> if follows rs s then Some (Suc (length rs)) else None)"

lemma rune_size_pos: "rune_size s = Some n \<Longrightarrow> 0 < n"
  by (cases s) (auto split: option.splits if_splits)

lemma rune_size_nonempty: "rune_size s = Some n \<Longrightarrow> s \<noteq> []"
  by (cases s) auto

lemma rune_size_shorter: "rune_size s = Some n \<Longrightarrow> length s - n < length s"
  using rune_size_pos [of s n] rune_size_nonempty [of s n] by (cases s) auto

function utf8_valid :: "string \<Rightarrow> bool" where
  "utf8_valid s =
     (s = [] \<or> (case rune_size s of None \<Rightarrow> False | Some n \<Rightarrow> utf8_valid (drop n s)))"
  by pat_completeness auto
termination
  by (relation "measure length") (auto simp: rune_size_shorter)

declare utf8_valid.simps [simp del]

lemma utf8_valid_code [code]:
  "utf8_valid s = (if s = [] then True else if rune_size s = None then False
     else utf8_valid (drop (the (rune_size s)) s))"
  by (subst utf8_valid.simps) (auto split: option.splits)

lemma follows_take: "follows rs s \<Longrightarrow> follows rs (take (length rs) s @ t)"
  by (induction rs s rule: follows.induct) auto

lemma follows_append: "follows rs s \<Longrightarrow> follows rs (s @ t)"
  by (induction rs s rule: follows.induct) auto

lemma follows_length: "follows rs s \<Longrightarrow> length rs \<le> length s"
  by (induction rs s rule: follows.induct) auto

lemma rune_size_take: "rune_size s = Some n \<Longrightarrow> rune_size (take n s @ t) = Some n"
  by (cases s) (auto split: option.splits if_splits simp: follows_take)

lemma rune_size_append: "rune_size s = Some n \<Longrightarrow> rune_size (s @ t) = Some n"
  by (cases s) (auto split: option.splits if_splits simp: follows_append)

lemma rune_size_length: "rune_size s = Some n \<Longrightarrow> n \<le> length s"
  by (cases s) (auto split: option.splits if_splits dest: follows_length)

lemma utf8_valid_Nil [simp]: "utf8_valid []"
  by (simp add: utf8_valid.simps)

lemma utf8_valid_rune: "rune_size s = Some n \<Longrightarrow> utf8_valid s = utf8_valid (drop n s)"
  using rune_size_nonempty by (subst utf8_valid.simps) auto

lemma utf8_valid_invalid: "rune_size s = None \<Longrightarrow> utf8_valid s \<longleftrightarrow> s = []"
  by (subst utf8_valid.simps) simp

lemma utf8_valid_ascii: "list_all (\<lambda>c. byte c < 0x80) s \<Longrightarrow> utf8_valid s"
proof (induction s)
  case (Cons c s)
  then have "rune_size (c # s) = Some 1" by (simp add: rune_tail_def)
  then show ?case using Cons utf8_valid_rune by fastforce
qed simp

lemma utf8_valid_append: "utf8_valid s \<Longrightarrow> utf8_valid t \<Longrightarrow> utf8_valid (s @ t)"
proof (induction s rule: utf8_valid.induct)
  case (1 s)
  show ?case
  proof (cases "rune_size s")
    case None
    then show ?thesis using 1 utf8_valid_invalid by auto
  next
    case (Some n)
    then have "utf8_valid (drop n s @ t)"
      using 1 utf8_valid_rune rune_size_nonempty by blast
    then show ?thesis
      using utf8_valid_rune [OF rune_size_append [OF Some]] rune_size_length [OF Some] by simp
  qed
qed

text \<open>\<open>utf8.EncodeRune\<close>.\<close>

definition utf8_encode :: "nat \<Rightarrow> string" where
  "utf8_encode v =
     map char_of
       (if v < 0x80 then [v]
        else if v < 0x800 then [0xC0 + v div 64, 0x80 + v mod 64]
        else if v < 0x10000 then [0xE0 + v div 4096, 0x80 + v div 64 mod 64, 0x80 + v mod 64]
        else [0xF0 + v div 262144, 0x80 + v div 4096 mod 64, 0x80 + v div 64 mod 64, 0x80 + v mod 64])"

section \<open>Writing strings\<close>

abbreviation quote :: char where "quote \<equiv> CHR 0x22"
abbreviation bslash :: char where "bslash \<equiv> CHR 0x5C"

definition hex_digit :: "nat \<Rightarrow> char" where
  "hex_digit d = (if d < 10 then char_of (48 + d) else char_of (87 + d))"

definition escape_ascii :: "char \<Rightarrow> string" where
  "escape_ascii a =
     (if a = quote \<or> a = bslash then [bslash, a]
      else if a = CHR 0x08 then bslash # ''b''
      else if a = CHR 0x0C then bslash # ''f''
      else if a = CHR 0x0A then bslash # ''n''
      else if a = CHR 0x0D then bslash # ''r''
      else if a = CHR 0x09 then bslash # ''t''
      else if byte a < 0x20 \<or> a = CHR ''<'' \<or> a = CHR ''>'' \<or> a = CHR ''&''
      then bslash # ''u00'' @ [hex_digit (byte a div 16), hex_digit (byte a mod 16)]
      else [a])"

function json_escape :: "string \<Rightarrow> string" where
  "json_escape s =
     (if s = [] then []
      else if byte (hd s) < 0x80 then escape_ascii (hd s) @ json_escape (tl s)
      else if rune_size s = None then bslash # ''ufffd'' @ json_escape (tl s)
      else (let n = the (rune_size s); r = take n s
            in (if r = [CHR 0xE2, CHR 0x80, CHR 0xA8] then bslash # ''u2028''
                else if r = [CHR 0xE2, CHR 0x80, CHR 0xA9] then bslash # ''u2029''
                else r) @ json_escape (drop n s)))"
  by pat_completeness auto
termination
  by (relation "measure length") (auto simp: rune_size_shorter)

declare json_escape.simps [simp del]

definition json_string :: "string \<Rightarrow> string" where
  "json_string s = quote # json_escape s @ [quote]"

text \<open>An object from its field names and the texts of their values.\<close>

definition json_object :: "(string \<times> string) list \<Rightarrow> string" where
  "json_object fs = ''{'' @ join_with '','' (map (\<lambda>(k, v). json_string k @ '':'' @ v) fs) @ ''}''"

text \<open>A field with a text.\<close>

definition text_field :: "string \<Rightarrow> string \<Rightarrow> string \<times> string" where
  "text_field k s = (k, json_string s)"

section \<open>Reading\<close>

definition hex_val :: "char \<Rightarrow> nat option" where
  "hex_val c =
     (if is_digit c then Some (byte c - 48)
      else if CHR ''a'' \<le> c \<and> c \<le> CHR ''f'' then Some (byte c - 87)
      else if CHR ''A'' \<le> c \<and> c \<le> CHR ''F'' then Some (byte c - 55)
      else None)"

fun hex4 :: "string \<Rightarrow> (nat \<times> string) option" where
  "hex4 (a # b # c # d # s) =
     (case (hex_val a, hex_val b, hex_val c, hex_val d) of
        (Some x, Some y, Some z, Some w) \<Rightarrow> Some (4096 * x + 256 * y + 16 * z + w, s)
      | _ \<Rightarrow> None)"
| "hex4 _ = None"

definition replacement :: string where
  "replacement = [CHR 0xEF, CHR 0xBF, CHR 0xBD]"

text \<open>A \<open>\u\<close> escape after its four digits: half a surrogate pair may combine with the next escape.\<close>

definition unescape_rune :: "nat \<Rightarrow> string \<Rightarrow> string \<times> string" where
  "unescape_rune v s =
     (if v < 0xD800 \<or> 0xE000 \<le> v then (utf8_encode v, s)
      else (case (if take 2 s = [bslash, CHR ''u''] then hex4 (drop 2 s) else None) of
              Some (w, s') \<Rightarrow>
                if v < 0xDC00 \<and> 0xDC00 \<le> w \<and> w < 0xE000
                then (utf8_encode (0x10000 + (v - 0xD800) * 1024 + (w - 0xDC00)), s')
                else (replacement, s)
            | None \<Rightarrow> (replacement, s)))"

text \<open>One character of a string literal: the bytes it stands for and what is left.\<close>

definition unquote_step :: "string \<Rightarrow> (string \<times> string) option" where
  "unquote_step s =
     (case s of
        [] \<Rightarrow> None
      | a # s1 \<Rightarrow>
          if a = bslash then
            (case s1 of
               [] \<Rightarrow> None
             | e # s2 \<Rightarrow>
                 if e = quote \<or> e = bslash \<or> e = CHR ''/'' then Some ([e], s2)
                 else if e = CHR ''b'' then Some ([CHR 0x08], s2)
                 else if e = CHR ''f'' then Some ([CHR 0x0C], s2)
                 else if e = CHR ''n'' then Some ([CHR 0x0A], s2)
                 else if e = CHR ''r'' then Some ([CHR 0x0D], s2)
                 else if e = CHR ''t'' then Some ([CHR 0x09], s2)
                 else if e = CHR ''u'' then
                   (case hex4 s2 of None \<Rightarrow> None | Some (v, s3) \<Rightarrow> Some (unescape_rune v s3))
                 else None)
          else if byte a < 0x20 then None
          else if byte a < 0x80 then Some ([a], s1)
          else (case rune_size s of
                  None \<Rightarrow> Some (replacement, s1)
                | Some n \<Rightarrow> Some (take n s, drop n s)))"

lemma hex4_shorter: "hex4 s = Some (v, r) \<Longrightarrow> length r < length s"
  by (cases s rule: hex4.cases) (auto split: option.splits)

lemma unescape_rune_shorter: "unescape_rune v s = (d, r) \<Longrightarrow> length r \<le> length s"
  by (auto simp: unescape_rune_def split: if_splits option.splits dest: hex4_shorter)

lemma unquote_step_shorter: "unquote_step s = Some (d, r) \<Longrightarrow> length r < length s"
proof (cases s)
  case (Cons a s1)
  assume step: "unquote_step s = Some (d, r)"
  show ?thesis
  proof (cases "a = bslash")
    case True
    then obtain e s2 where s1: "s1 = e # s2" using step Cons by (auto simp: unquote_step_def split: list.splits)
    show ?thesis
    proof (cases "e = CHR ''u''")
      case True
      then obtain v s3 where "hex4 s2 = Some (v, s3)" "unescape_rune v s3 = (d, r)"
        using step Cons s1 \<open>a = bslash\<close> by (auto simp: unquote_step_def split: option.splits)
      then show ?thesis using hex4_shorter unescape_rune_shorter Cons s1 by fastforce
    next
      case False
      then show ?thesis using step Cons s1 \<open>a = bslash\<close> by (auto simp: unquote_step_def split: if_splits)
    qed
  next
    case False
    then show ?thesis using step Cons rune_size_pos
      by (fastforce simp: unquote_step_def split: if_splits option.splits)
  qed
qed (simp add: unquote_step_def)

text \<open>The rest of a string literal after its opening quote.\<close>

function json_unquote :: "string \<Rightarrow> (string \<times> string) option" where
  "json_unquote s =
     (if s = [] then None
      else if hd s = quote then Some ([], tl s)
      else if unquote_step s = None then None
      else (case json_unquote (snd (the (unquote_step s))) of
              None \<Rightarrow> None
            | Some (ds, r) \<Rightarrow> Some (fst (the (unquote_step s)) @ ds, r)))"
  by pat_completeness auto
termination
  by (relation "measure length") (auto dest: unquote_step_shorter)

declare json_unquote.simps [simp del]

section \<open>Strings survive\<close>

lemma hex_val_digit: "d < 16 \<Longrightarrow> hex_val (hex_digit d) = Some d"
proof -
  assume "d < 16"
  moreover have "\<forall>d \<in> set [0..<16]. hex_val (hex_digit d) = Some d" by code_simp
  ultimately show ?thesis by simp
qed

lemma byte_eq_char: "byte c = n \<Longrightarrow> n < 256 \<Longrightarrow> c = char_of n"
  by auto

lemma unquote_escape_ascii:
  assumes "byte a < 0x80"
  shows "unquote_step (escape_ascii a @ t) = Some ([a], t)"
proof (cases "a \<in> {quote, bslash, CHR 0x08, CHR 0x0C, CHR 0x0A, CHR 0x0D, CHR 0x09}")
  case True
  then show ?thesis by (auto simp: escape_ascii_def unquote_step_def)
next
  case False
  show ?thesis
  proof (cases "byte a < 0x20 \<or> a = CHR ''<'' \<or> a = CHR ''>'' \<or> a = CHR ''&''")
    case True
    let ?x = "byte a"
    have "?x div 16 < 16" "?x mod 16 < 16" using assms by simp_all
    then have "hex4 (''00'' @ [hex_digit (?x div 16), hex_digit (?x mod 16)] @ t) = Some (?x, t)"
      by (simp add: hex_val_digit) (simp add: hex_val_def is_digit_def less_eq_char_def)
    moreover have "unescape_rune ?x t = ([a], t)" using assms by (simp add: unescape_rune_def utf8_encode_def)
    ultimately show ?thesis using True False
      by (simp add: escape_ascii_def unquote_step_def)
  next
    case False
    then show ?thesis using \<open>a \<notin> _\<close> assms by (simp add: escape_ascii_def unquote_step_def)
  qed
qed

lemma escape_ascii_head: "\<exists>c cs. escape_ascii a = c # cs \<and> c \<noteq> quote"
  by (simp add: escape_ascii_def)

lemma json_unquote_step:
  assumes "unquote_step s = Some (d, r)" and "hd s \<noteq> quote"
  shows "json_unquote s = map_option (\<lambda>(ds, r'). (d @ ds, r')) (json_unquote r)"
  using assms by (subst json_unquote.simps) (auto simp: unquote_step_def split: option.splits)

lemma json_unquote_end: "json_unquote (quote # r) = Some ([], r)"
  by (subst json_unquote.simps) simp

lemma unquote_rune:
  assumes "rune_size s = Some n" and "\<not> byte (hd s) < 0x80"
  shows "unquote_step (take n s @ t) = Some (take n s, t)" "hd (take n s @ t) \<noteq> quote"
proof -
  obtain a s' where s: "s = a # s'" using assms(1) by (cases s) auto
  obtain m where n: "n = Suc m" using rune_size_pos [OF assms(1)] by (cases n) auto
  have a: "a \<noteq> bslash" "\<not> byte a < 0x20" "\<not> byte a < 0x80" "a \<noteq> quote" using assms(2) s by auto
  have sz: "rune_size (a # take m s' @ t) = Some n" using rune_size_take [OF assms(1), of t] s n by simp
  have len: "length (take m s') = m" using rune_size_length [OF assms(1)] s n by simp
  show "unquote_step (take n s @ t) = Some (take n s, t)"
    unfolding unquote_step_def using a sz len by (simp add: s n del: rune_size.simps)
  show "hd (take n s @ t) \<noteq> quote" using a s n by simp
qed

lemma unquote_line_separator:
  "unquote_step (bslash # ''u2028'' @ t) = Some ([CHR 0xE2, CHR 0x80, CHR 0xA8], t)"
  "unquote_step (bslash # ''u2029'' @ t) = Some ([CHR 0xE2, CHR 0x80, CHR 0xA9], t)"
proof -
  have "hex_val (CHR ''2'') = Some 2" "hex_val (CHR ''0'') = Some 0" "hex_val (CHR ''8'') = Some 8"
    "hex_val (CHR ''9'') = Some 9" by code_simp+
  moreover have "utf8_encode 0x2028 = [CHR 0xE2, CHR 0x80, CHR 0xA8]"
    "utf8_encode 0x2029 = [CHR 0xE2, CHR 0x80, CHR 0xA9]" by (simp_all add: utf8_encode_def char_of_def bit_iff_odd)
  ultimately show "unquote_step (bslash # ''u2028'' @ t) = Some ([CHR 0xE2, CHR 0x80, CHR 0xA8], t)"
    "unquote_step (bslash # ''u2029'' @ t) = Some ([CHR 0xE2, CHR 0x80, CHR 0xA9], t)"
    by (simp_all add: unquote_step_def unescape_rune_def)
qed

lemma json_unquote_escape: "utf8_valid s \<Longrightarrow> json_unquote (json_escape s @ quote # r) = Some (s, r)"
proof (induction s rule: json_escape.induct)
  case (1 s)
  show ?case
  proof (cases "s = []")
    case True
    then show ?thesis by (simp add: json_escape.simps json_unquote_end)
  next
    case nonempty: False
    obtain a s' where s: "s = a # s'" using nonempty by (cases s) auto
    show ?thesis
    proof (cases "byte a < 0x80")
      case True
      have "rune_size s = Some 1" using True s by (simp add: rune_tail_def)
      then have "utf8_valid s'" using 1 utf8_valid_rune s by fastforce
      then have IH: "json_unquote (json_escape s' @ quote # r) = Some (s', r)" using 1(1) True s by simp
      have e: "json_escape s = escape_ascii a @ json_escape s'" using True s by (subst json_escape.simps) simp
      have "json_unquote (escape_ascii a @ json_escape s' @ quote # r)
          = map_option (\<lambda>(ds, r'). ([a] @ ds, r')) (json_unquote (json_escape s' @ quote # r))"
        using escape_ascii_head [of a]
        by (intro json_unquote_step [OF unquote_escape_ascii [OF True]]) auto
      then show ?thesis using e IH s by simp
    next
      case False
      obtain n where n: "rune_size s = Some n" using 1(4) nonempty utf8_valid_invalid by (cases "rune_size s") auto
      let ?r = "take n s" and ?d = "drop n s"
      have hd: "\<not> byte (hd s) < 0x80" using False s by simp
      have "utf8_valid ?d" using 1(4) utf8_valid_rune [OF n] by simp
      then have IH: "json_unquote (json_escape ?d @ quote # r) = Some (?d, r)"
        using 1(3) [OF nonempty hd] n by simp
      obtain w where w: "json_escape s = w @ json_escape ?d"
        "w = (if ?r = [CHR 0xE2, CHR 0x80, CHR 0xA8] then bslash # ''u2028''
              else if ?r = [CHR 0xE2, CHR 0x80, CHR 0xA9] then bslash # ''u2029'' else ?r)"
        using nonempty hd n by (subst (asm) json_escape.simps) (simp add: Let_def)
      have "unquote_step (w @ t) = Some (?r, t) \<and> hd (w @ t) \<noteq> quote" for t
        using unquote_rune [OF n hd, of t] unquote_line_separator [of t] w(2) by (simp split: if_splits)
      then have "json_unquote (w @ json_escape ?d @ quote # r)
          = map_option (\<lambda>(ds, r'). (?r @ ds, r')) (json_unquote (json_escape ?d @ quote # r))"
        by (intro json_unquote_step) blast+
      then show ?thesis using w(1) IH by simp
    qed
  qed
qed

section \<open>Values\<close>

text \<open>A parsed value; a string keeps its literal, which \<open>time.Time\<close> reads, beside what it denotes.\<close>

datatype json =
    JNull | JBool bool | JNum string | JStr string string | JArr "json list" | JObj "(string \<times> json) list"

definition is_ws :: "char \<Rightarrow> bool" where
  "is_ws c \<longleftrightarrow> c = CHR '' '' \<or> c = CHR 0x09 \<or> c = CHR 0x0A \<or> c = CHR 0x0D"

definition skip_ws :: "string \<Rightarrow> string" where
  "skip_ws s = dropWhile is_ws s"

text \<open>The next character after white space must be \<open>c\<close>.\<close>

definition expect :: "char \<Rightarrow> string \<Rightarrow> string option" where
  "expect c s = (if skip_ws s \<noteq> [] \<and> hd (skip_ws s) = c then Some (tl (skip_ws s)) else None)"

definition num_int :: "string \<Rightarrow> string option" where
  "num_int s =
     (case s of
        [] \<Rightarrow> None
      | c # r \<Rightarrow> if c = CHR ''0'' then Some r
                 else if is_digit c then Some (dropWhile is_digit r) else None)"

definition num_frac :: "string \<Rightarrow> string option" where
  "num_frac s =
     (if s = [] \<or> hd s \<noteq> CHR ''.'' then Some s
      else if takeWhile is_digit (tl s) = [] then None else Some (dropWhile is_digit (tl s)))"

definition num_exp :: "string \<Rightarrow> string option" where
  "num_exp s =
     (if s = [] \<or> (hd s \<noteq> CHR ''e'' \<and> hd s \<noteq> CHR ''E'') then Some s
      else (let r = tl s; r' = (if r \<noteq> [] \<and> (hd r = CHR ''+'' \<or> hd r = CHR ''-'') then tl r else r)
            in if takeWhile is_digit r' = [] then None else Some (dropWhile is_digit r')))"

definition json_number :: "string \<Rightarrow> (json \<times> string) option" where
  "json_number s = do {
     r1 \<leftarrow> num_int (if s \<noteq> [] \<and> hd s = CHR ''-'' then tl s else s);
     r2 \<leftarrow> num_frac r1;
     r3 \<leftarrow> num_exp r2;
     Some (JNum (take (length s - length r3) s), r3) }"

definition json_scalar :: "string \<Rightarrow> (json \<times> string) option" where
  "json_scalar s =
     (if has_prefix s ''true'' then Some (JBool True, drop 4 s)
      else if has_prefix s ''false'' then Some (JBool False, drop 5 s)
      else if has_prefix s ''null'' then Some (JNull, drop 4 s)
      else json_number s)"

definition json_str_lit :: "string \<Rightarrow> (json \<times> string) option" where
  "json_str_lit r = do {
     (t, r') \<leftarrow> json_unquote r;
     Some (JStr (take (length r - length r' - 1) r) t, r') }"

text \<open>
  A value, the elements of an array and the members of an object, after their opening bracket;
  \<open>depth\<close> is how many levels of nesting are still allowed.
\<close>

fun json_value :: "nat \<Rightarrow> nat \<Rightarrow> string \<Rightarrow> (json \<times> string) option"
and json_elems :: "nat \<Rightarrow> nat \<Rightarrow> string \<Rightarrow> (json list \<times> string) option"
and json_members :: "nat \<Rightarrow> nat \<Rightarrow> string \<Rightarrow> ((string \<times> json) list \<times> string) option" where
  "json_value 0 depth s = None"
| "json_value (Suc fuel) depth s =
     (let s' = skip_ws s; r = tl s'
      in if s' = [] then None
         else if hd s' = quote then json_str_lit r
         else if hd s' = CHR ''{'' then
           (if depth = 0 then None
            else if expect (CHR ''}'') r \<noteq> None then Some (JObj [], the (expect (CHR ''}'') r))
            else map_option (\<lambda>(ms, r'). (JObj ms, r')) (json_members fuel (depth - 1) r))
         else if hd s' = CHR ''['' then
           (if depth = 0 then None
            else if expect (CHR '']'') r \<noteq> None then Some (JArr [], the (expect (CHR '']'') r))
            else map_option (\<lambda>(vs, r'). (JArr vs, r')) (json_elems fuel (depth - 1) r))
         else json_scalar s')"
| "json_elems 0 depth s = None"
| "json_elems (Suc fuel) depth s = do {
     (v, r) \<leftarrow> json_value fuel depth s;
     if expect (CHR '']'') r \<noteq> None then Some ([v], the (expect (CHR '']'') r))
     else do {
       r1 \<leftarrow> expect (CHR '','') r;
       (vs, r2) \<leftarrow> json_elems fuel depth r1;
       Some (v # vs, r2) } }"
| "json_members 0 depth s = None"
| "json_members (Suc fuel) depth s = do {
     r0 \<leftarrow> expect quote s;
     (k, r1) \<leftarrow> json_unquote r0;
     r2 \<leftarrow> expect (CHR '':'') r1;
     (v, r3) \<leftarrow> json_value fuel depth r2;
     if expect (CHR ''}'') r3 \<noteq> None then Some ([(k, v)], the (expect (CHR ''}'') r3))
     else do {
       r4 \<leftarrow> expect (CHR '','') r3;
       (ms, r5) \<leftarrow> json_members fuel depth r4;
       Some ((k, v) # ms, r5) } }"

text \<open>
  \<open>Decoder.Decode\<close> reads the first value of its input, \<open>Unmarshal\<close> allows nothing but white space
  behind it.
\<close>

definition max_nesting :: nat where "max_nesting = 10000"

definition json_decode :: "string \<Rightarrow> (json \<times> string) option" where
  "json_decode s = json_value (Suc (2 * length s)) max_nesting s"

definition json_unmarshal :: "string \<Rightarrow> json option" where
  "json_unmarshal s =
     (case json_decode s of Some (v, r) \<Rightarrow> if skip_ws r = [] then Some v else None | None \<Rightarrow> None)"

section \<open>The parser makes progress\<close>

lemma length_skip_ws: "length (skip_ws s) \<le> length s"
  by (simp add: skip_ws_def length_dropWhile_le)

lemma expect_shorter: "expect c s = Some r \<Longrightarrow> length r < length s"
  using length_skip_ws [of s] by (cases "skip_ws s") (auto simp: expect_def split: if_splits)

lemma json_unquote_shorter: "json_unquote s = Some (t, r) \<Longrightarrow> length r < length s"
proof (induction s arbitrary: t rule: json_unquote.induct)
  case (1 s)
  show ?case
  proof (cases "s = [] \<or> hd s = quote \<or> unquote_step s = None")
    case True
    then show ?thesis using 1(2) by (cases s) (auto simp: json_unquote.simps split: if_splits)
  next
    case False
    then obtain d u where st: "unquote_step s = Some (d, u)" by auto
    then obtain ds where "json_unquote u = Some (ds, r)"
      using 1(2) False by (subst (asm) json_unquote.simps) (auto split: option.splits)
    then have "length r < length u" using 1(1) False st by auto
    then show ?thesis using unquote_step_shorter [OF st] by simp
  qed
qed

lemma json_str_lit_shorter: "json_str_lit s = Some (v, r) \<Longrightarrow> length r < length s"
  by (auto simp: json_str_lit_def split: Option.bind_splits dest: json_unquote_shorter)

lemma num_int_shorter: "num_int s = Some r \<Longrightarrow> length r < length s"
  using length_dropWhile_le [of is_digit] by (auto simp: num_int_def le_imp_less_Suc split: list.splits if_splits)

lemma num_frac_shorter: "num_frac s = Some r \<Longrightarrow> length r \<le> length s"
  using length_dropWhile_le [of is_digit "tl s"] by (auto simp: num_frac_def split: if_splits)

lemma num_exp_shorter: "num_exp s = Some r \<Longrightarrow> length r \<le> length s"
  using length_dropWhile_le [of is_digit "tl s"] length_dropWhile_le [of is_digit "tl (tl s)"]
  by (auto simp: num_exp_def Let_def split: if_splits)

lemma json_number_shorter: "json_number s = Some (v, r) \<Longrightarrow> length r < length s"
proof -
  assume "json_number s = Some (v, r)"
  then obtain r1 r2 where "num_int (if s \<noteq> [] \<and> hd s = CHR ''-'' then tl s else s) = Some r1"
    "num_frac r1 = Some r2" "num_exp r2 = Some r"
    by (auto simp: json_number_def split: Option.bind_splits)
  then have "length r < length (if s \<noteq> [] \<and> hd s = CHR ''-'' then tl s else s)"
    using num_int_shorter num_frac_shorter num_exp_shorter by (metis le_less_trans)
  also have "\<dots> \<le> length s" by simp
  finally show ?thesis .
qed

lemma json_scalar_shorter: "json_scalar s = Some (v, r) \<Longrightarrow> length r < length s"
  by (cases s) (auto simp: json_scalar_def has_prefix_def dest: json_number_shorter split: if_splits)

lemma json_shorter:
  "json_value fuel depth s = Some (v, r) \<Longrightarrow> length r < length s"
  "json_elems fuel depth s = Some (vs, r) \<Longrightarrow> length r < length s"
  "json_members fuel depth s = Some (ms, r) \<Longrightarrow> length r < length s"
proof (induction fuel depth s and fuel depth s and fuel depth s arbitrary: v r and vs r and ms r
    rule: json_value_json_elems_json_members.induct)
  case (2 fuel depth s)
  let ?s = "skip_ws s"
  have le: "length (tl ?s) \<le> length s" "?s \<noteq> [] \<Longrightarrow> length (tl ?s) < length s"
    using length_skip_ws [of s] by (cases ?s; simp)+
  show ?case using 2(3) le
    using 2(1,2) json_str_lit_shorter [of "tl ?s"] json_scalar_shorter [of ?s] expect_shorter [of _ "tl ?s"]
      length_skip_ws [of s]
    by (fastforce simp: Let_def split: if_splits)
next
  case (4 fuel depth s)
  then show ?case
    by (fastforce split: Option.bind_splits if_splits dest: expect_shorter)
next
  case (6 fuel depth s)
  then show ?case
    by (fastforce split: Option.bind_splits if_splits dest: expect_shorter json_unquote_shorter)
qed simp_all

text \<open>Two units of fuel per byte and one more are enough: more changes nothing.\<close>

lemma json_fuel:
  "(2 * length s < fuel \<longrightarrow> 2 * length s < fuel' \<longrightarrow> json_value fuel depth s = json_value fuel' depth s)
   \<and> (2 * length s + 1 < fuel \<longrightarrow> 2 * length s + 1 < fuel' \<longrightarrow> json_elems fuel depth s = json_elems fuel' depth s)
   \<and> (2 * length s < fuel \<longrightarrow> 2 * length s < fuel' \<longrightarrow> json_members fuel depth s = json_members fuel' depth s)"
proof (induction "length s" arbitrary: s fuel fuel' depth rule: less_induct)
  case less
  have IH: "json_value f depth r = json_value g depth r"
      "2 * length r + 1 < f \<Longrightarrow> 2 * length r + 1 < g \<Longrightarrow> json_elems f depth r = json_elems g depth r"
      "json_members f depth r = json_members g depth r"
    if "length r < length s" "2 * length r < f" "2 * length r < g" for r f g depth
    using less [OF that(1), of f g depth] that by blast+
  have val: "json_value fuel depth s = json_value fuel' depth s"
    if small: "2 * length s < fuel" "2 * length s < fuel'" for fuel fuel' depth
  proof (cases "skip_ws s = []")
    case True
    then show ?thesis using small by (cases fuel; cases fuel') simp_all
  next
    case False
    obtain f g where fg: "fuel = Suc f" "fuel' = Suc g" using small by (cases fuel; cases fuel') auto
    have short: "length (tl (skip_ws s)) < length s"
      using length_skip_ws [of s] False by (cases "skip_ws s") auto
    have "json_elems f k (tl (skip_ws s)) = json_elems g k (tl (skip_ws s))"
      "json_members f k (tl (skip_ws s)) = json_members g k (tl (skip_ws s))" for k
      using IH(2,3) [OF short, of f g k] short small fg by simp_all
    then show ?thesis unfolding fg by (simp add: Let_def)
  qed
  have "json_elems fuel depth s = json_elems fuel' depth s"
    if small: "2 * length s + 1 < fuel" "2 * length s + 1 < fuel'"
  proof -
    obtain f g where fg: "fuel = Suc f" "fuel' = Suc g" using small by (cases fuel; cases fuel') auto
    have v: "json_value f depth s = json_value g depth s" using small fg by (intro val) simp_all
    have "json_elems f depth r1 = json_elems g depth r1"
      if "json_value g depth s = Some (v, r)" "expect c r = Some r1" for v r c r1
    proof -
      have "length r < length s" "length r1 < length r"
        using json_shorter(1) [OF that(1)] expect_shorter [OF that(2)] by simp_all
      then show ?thesis using \<open>2 * length s + 1 < fuel\<close> \<open>2 * length s + 1 < fuel'\<close> fg by (intro IH(2)) simp_all
    qed
    then show ?thesis unfolding fg by (auto simp: v split: Option.bind_splits)
  qed
  moreover have "json_members fuel depth s = json_members fuel' depth s"
    if small: "2 * length s < fuel" "2 * length s < fuel'"
  proof -
    obtain f g where fg: "fuel = Suc f" "fuel' = Suc g" using small by (cases fuel; cases fuel') auto
    have v: "json_value f depth r2 = json_value g depth r2"
      if "expect c s = Some r0" "json_unquote r0 = Some (k, r1)" "expect c' r1 = Some r2" for c c' r0 k r1 r2
    proof -
      have "length r2 < length s"
        using expect_shorter [OF that(1)] json_unquote_shorter [OF that(2)] expect_shorter [OF that(3)] by simp
      then show ?thesis using \<open>2 * length s < fuel\<close> \<open>2 * length s < fuel'\<close> fg by (intro IH(1)) simp_all
    qed
    have m: "json_members f depth r4 = json_members g depth r4"
      if "expect c s = Some r0" "json_unquote r0 = Some (k, r1)" "expect c' r1 = Some r2"
        "json_value g depth r2 = Some (v, r3)" "expect c'' r3 = Some r4" for c c' c'' r0 k r1 r2 v r3 r4
    proof -
      have "length r4 < length s"
        using expect_shorter [OF that(1)] json_unquote_shorter [OF that(2)] expect_shorter [OF that(3)]
          json_shorter(1) [OF that(4)] expect_shorter [OF that(5)] by simp
      then show ?thesis using \<open>2 * length s < fuel\<close> \<open>2 * length s < fuel'\<close> fg by (intro IH(3)) simp_all
    qed
    show ?thesis unfolding fg
      by (auto simp: v m split: Option.bind_splits)
  qed
  ultimately show ?case using val by blast
qed

section \<open>Objects survive\<close>

lemma skip_ws_id: "\<not> is_ws c \<Longrightarrow> skip_ws (c # s) = c # s"
  by (simp add: skip_ws_def)

lemma expect_here: "\<not> is_ws c \<Longrightarrow> expect c (c # s) = Some s"
  by (simp add: expect_def skip_ws_id)

lemma expect_other: "\<not> is_ws c' \<Longrightarrow> c' \<noteq> c \<Longrightarrow> expect c (c' # s) = None"
  by (simp add: expect_def skip_ws_id)

lemma punctuation_not_ws [simp]:
  "\<not> is_ws quote" "\<not> is_ws (CHR '','')" "\<not> is_ws (CHR '':'')" "\<not> is_ws (CHR ''{'')"
  "\<not> is_ws (CHR ''}'')" "\<not> is_ws (CHR ''['')" "\<not> is_ws (CHR '']'')"
  by (simp_all add: is_ws_def)

text \<open>A text that is read as a value wherever a comma or a closing bracket follows it.\<close>

definition reads_as :: "string \<Rightarrow> json \<Rightarrow> bool" where
  "reads_as vt v \<longleftrightarrow> (\<forall>fuel depth c rest. c = CHR '','' \<or> c = CHR ''}'' \<longrightarrow>
     json_value (Suc fuel) depth (vt @ c # rest) = Some (v, c # rest))"

lemma quoted_reads:
  assumes "json_unquote (lit @ [quote] @ r) = Some (s, r)"
  shows "json_value (Suc fuel) depth (quote # lit @ [quote] @ r) = Some (JStr lit s, r)"
  using assms by (simp add: skip_ws_id json_str_lit_def)

lemma json_string_reads:
  assumes "utf8_valid s"
  shows "reads_as (json_string s) (JStr (json_escape s) s)"
proof -
  have "json_value (Suc fuel) depth (quote # json_escape s @ [quote] @ r) = Some (JStr (json_escape s) s, r)"
    for fuel depth r
    by (rule quoted_reads) (simp add: json_unquote_escape [OF assms])
  then show ?thesis by (simp add: reads_as_def json_string_def)
qed

lemma json_key_reads:
  "utf8_valid k \<Longrightarrow> \<not> is_ws c \<Longrightarrow>
     expect quote (json_string k @ c # r) = Some (json_escape k @ quote # c # r)"
  "utf8_valid k \<Longrightarrow> json_unquote (json_escape k @ quote # c # r) = Some (k, c # r)"
  by (simp_all add: json_string_def expect_here json_unquote_escape)

type_synonym member = "string \<times> string \<times> json"

definition member_text :: "member \<Rightarrow> string" where
  "member_text m = (case m of (k, vt, v) \<Rightarrow> json_string k @ '':'' @ vt)"

definition member_ok :: "member \<Rightarrow> bool" where
  "member_ok m \<longleftrightarrow> (case m of (k, vt, v) \<Rightarrow> utf8_valid k \<and> reads_as vt v)"

lemma json_members_more:
  assumes "utf8_valid k" "reads_as vt v" "0 < fuel"
  shows "json_members (Suc fuel) depth (json_string k @ '':'' @ vt @ '','' @ t)
      = map_option (\<lambda>(ms, r). ((k, v) # ms, r)) (json_members fuel depth t)"
    and "json_members (Suc fuel) depth (json_string k @ '':'' @ vt @ ''}'' @ t) = Some ([(k, v)], t)"
proof -
  obtain g where g: "fuel = Suc g" using assms(3) by (cases fuel) auto
  note step = json_key_reads [OF assms(1)] expect_here expect_other
    assms(2) [unfolded reads_as_def, rule_format]
  show "json_members (Suc fuel) depth (json_string k @ '':'' @ vt @ '','' @ t)
      = map_option (\<lambda>(ms, r). ((k, v) # ms, r)) (json_members fuel depth t)"
    by (subst json_members.simps(2), cases "json_members fuel depth t")
      (simp_all add: g step split_beta del: json_value.simps json_members.simps)
  show "json_members (Suc fuel) depth (json_string k @ '':'' @ vt @ ''}'' @ t) = Some ([(k, v)], t)"
    by (subst json_members.simps(2)) (simp add: g step del: json_value.simps json_members.simps)
qed

lemma json_members_read:
  "ms \<noteq> [] \<Longrightarrow> list_all member_ok ms \<Longrightarrow> length ms < fuel \<Longrightarrow>
     json_members fuel depth (join_with '','' (map member_text ms) @ ''}'' @ r)
       = Some (map (\<lambda>(k, vt, v). (k, v)) ms, r)"
proof (induction ms arbitrary: fuel)
  case (Cons m ms)
  obtain k vt v where m: "m = (k, vt, v)" by (cases m)
  have ok: "utf8_valid k" "reads_as vt v" using Cons.prems(2) m by (simp_all add: member_ok_def)
  obtain g where g: "fuel = Suc g" "length ms < g" "0 < g" using Cons.prems(3) by (cases fuel) auto
  show ?case
  proof (cases ms)
    case Nil
    then show ?thesis using json_members_more(2) [OF ok g(3)] m g by (simp add: member_text_def)
  next
    case (Cons m' ms')
    then have "json_members g depth (join_with '','' (map member_text ms) @ ''}'' @ r)
        = Some (map (\<lambda>(k, vt, v). (k, v)) ms, r)"
      using Cons.IH Cons.prems(2) g by simp
    moreover have "join_with '','' (map member_text (m # ms)) @ ''}'' @ r
        = json_string k @ '':'' @ vt @ '','' @ join_with '','' (map member_text ms) @ ''}'' @ r"
      using m Cons by (simp add: member_text_def)
    ultimately show ?thesis using json_members_more(1) [OF ok g(3)] m g(1) by simp
  qed
qed simp

lemma json_object_decode:
  assumes "ms \<noteq> []" "list_all member_ok ms"
  shows "json_decode (json_object (map (\<lambda>(k, vt, v). (k, vt)) ms) @ r)
    = Some (JObj (map (\<lambda>(k, vt, v). (k, v)) ms), r)"
proof -
  let ?body = "join_with '','' (map member_text ms) @ ''}'' @ r"
  have obj: "json_object (map (\<lambda>(k, vt, v). (k, vt)) ms) @ r = CHR ''{'' # ?body"
    by (simp add: json_object_def member_text_def [abs_def] split_def comp_def)
  obtain m ms' where ms: "ms = m # ms'" using assms(1) by (cases ms) auto
  obtain k vt v where m: "m = (k, vt, v)" by (cases m)
  obtain q where q: "?body = quote # q"
    using ms m by (cases ms') (simp_all add: member_text_def json_string_def)
  have "length ms \<le> length (join_with '','' (map member_text ms))"
    by (induction ms rule: induct_list012) (auto simp: member_text_def)
  then have fuel: "length ms < 2 * length (CHR ''{'' # ?body)" by simp
  have "json_members (2 * length (CHR ''{'' # ?body)) (max_nesting - 1) ?body
      = Some (map (\<lambda>(k, vt, v). (k, v)) ms, r)"
    by (rule json_members_read [OF assms fuel])
  moreover have "expect (CHR ''}'') ?body = None" unfolding q by (simp add: expect_other)
  ultimately have "json_decode (CHR ''{'' # ?body) = Some (JObj (map (\<lambda>(k, vt, v). (k, v)) ms), r)"
    unfolding json_decode_def json_value.simps(2)
    by (simp add: Let_def skip_ws_id max_nesting_def del: json_members.simps mult_Suc_right)
  then show ?thesis unfolding obj .
qed

lemma json_object_read:
  assumes "ms \<noteq> []" "list_all member_ok ms"
  shows "json_unmarshal (json_object (map (\<lambda>(k, vt, v). (k, vt)) ms))
    = Some (JObj (map (\<lambda>(k, vt, v). (k, v)) ms))"
  using json_object_decode [OF assms, of "[]"] by (simp add: json_unmarshal_def skip_ws_def)

text \<open>Characters that are written as they are.\<close>

definition plain :: "char \<Rightarrow> bool" where
  "plain c \<longleftrightarrow> byte c < 0x80 \<and> escape_ascii c = [c]"

lemma json_escape_plain: "list_all plain s \<Longrightarrow> json_escape s = s"
  by (induction s) (simp_all add: json_escape.simps plain_def)

lemma utf8_valid_plain: "list_all plain s \<Longrightarrow> utf8_valid s"
  by (rule utf8_valid_ascii) (auto simp: list_all_iff plain_def)

lemma plain_digit: "is_digit c \<Longrightarrow> plain c"
proof -
  assume "is_digit c"
  then have "48 \<le> byte c" "byte c < 58" by (simp_all add: is_digit_def less_eq_char_def)
  then have "c = digit_char (byte c - 48)" "byte c - 48 \<in> set [0..<10]" by (auto simp: digit_char_def)
  moreover have "\<forall>d \<in> set [0..<10]. plain (digit_char d)" by code_simp
  ultimately show ?thesis by metis
qed

lemma plain_marks [simp]:
  "plain (CHR ''-'')" "plain (CHR '':'')" "plain (CHR ''T'')" "plain (CHR ''Z'')" "plain (CHR ''.'')"
  by code_simp+

lemma plain_digits [simp]: "list_all plain (digits w n)" "list_all plain (itoa_nat n)"
  using digits_are_digits itoa_nat_digits plain_digit by (auto simp: list_all_iff)

lemma plain_nano_text [simp]: "list_all plain (nano_text n)"
proof -
  have "list_all plain (dropWhile (\<lambda>c. c = CHR ''0'') (rev (digits 9 n)))"
    using plain_digits(1) [of 9 n] set_dropWhileD [of _ _ "rev (digits 9 n)"]
    by (auto simp: list_all_iff simp del: digits.simps)
  then show ?thesis by (simp add: nano_text_def del: digits.simps)
qed

lemma plain_format_time: "list_all plain (format_time t)"
proof -
  have "list_all plain (zero_pad w n)" for w n by (simp add: zero_pad_def)
  then show ?thesis
    by (simp add: format_time_def date_text_def clock_text_def Let_def split_beta del: digits.simps)
qed

lemma format_time_reads:
  "reads_as (quote # format_time t @ [quote]) (JStr (format_time t) (format_time t))"
  using json_string_reads [OF utf8_valid_plain [OF plain_format_time], of t]
  by (simp add: json_string_def json_escape_plain plain_format_time)

end
