(* ===== verification/Webhook.thy ===== *)
theory Webhook
  imports Queue_Types Go_Url Go_Json
begin

text \<open>
  The webhook notifier (\<open>internal/webhook/notifier.go\<close>). The HTTP transport is a parameter: what it
  answers to a request, an error or a status code. \<open>Notify\<close> returns the requests it handed to the
  transport beside its error.
\<close>

record Event =
  JobID :: string
  ev_URL :: string
  ev_Status :: JobStatus
  ev_Error :: string
  ev_PDFKey :: string
  ev_PDFSize :: int
  ev_RequestID :: string

text \<open>\<open>json.Marshal\<close> of an event; empty optional fields are left out.\<close>

definition event_fields :: "Event \<Rightarrow> (string \<times> string) list" where
  "event_fields event =
     [text_field ''job_id'' (JobID event), text_field ''url'' (ev_URL event),
      text_field ''status'' (status_text (ev_Status event))]
     @ (if ev_Error event = '''' then [] else [text_field ''error'' (ev_Error event)])
     @ (if ev_PDFKey event = '''' then [] else [text_field ''pdf_key'' (ev_PDFKey event)])
     @ (if ev_PDFSize event = 0 then [] else [(''pdf_size'', itoa (ev_PDFSize event))])
     @ (if ev_RequestID event = '''' then [] else [text_field ''request_id'' (ev_RequestID event)])"

definition event_text :: "Event \<Rightarrow> string" where
  "event_text event = json_object (event_fields event)"

record webhook_request =
  wr_method :: string
  wr_url :: string
  wr_headers :: "(string \<times> string) list"
  wr_body :: string

type_synonym transport = "webhook_request \<Rightarrow> int result"

definition NewNotifier_timeout :: "duration \<Rightarrow> duration" where
  "NewNotifier_timeout timeout = (if timeout \<le> 0 then 10 * second else timeout)"

definition webhook_request_for :: "string \<Rightarrow> Event \<Rightarrow> webhook_request" where
  "webhook_request_for callbackURL event =
     \<lparr>wr_method = ''POST'', wr_url = callbackURL,
      wr_headers = (''Content-Type'', ''application/json'')
        # (if ev_RequestID event \<noteq> '''' then [(''X-Request-ID'', ev_RequestID event)] else []),
      wr_body = event_text event\<rparr>"

text \<open>The first argument says whether the notifier pointer is non-nil.\<close>

definition Notify ::
    "bool \<Rightarrow> transport \<Rightarrow> string \<Rightarrow> Event \<Rightarrow> webhook_request list \<times> go_error option" where
  "Notify present transport callbackURL event =
     (if \<not> present \<or> callbackURL = '''' then ([], None)
      else (case Parse callbackURL of
              None \<Rightarrow> ([], Some (ErrNew ''parse callback url''))
            | Some _ \<Rightarrow>
                let req = webhook_request_for callbackURL event
                in (case transport req of
                      Inl e \<Rightarrow> ([req], Some e)
                    | Inr code \<Rightarrow>
                        ([req], if code < 200 \<or> 300 \<le> code
                                then Some (ErrNew (''webhook returned status '' @ itoa code))
                                else None))))"

lemma Notify_at_most_once: "length (fst (Notify p t u e)) \<le> 1"
  by (simp add: Notify_def Let_def split: option.splits sum.splits)

lemma Notify_ok_iff:
  "snd (Notify True t u e) = None \<longleftrightarrow>
     u = '''' \<or> (\<exists>code. Parse u \<noteq> None \<and> t (webhook_request_for u e) = Inr code \<and> 200 \<le> code \<and> code < 300)"
  by (auto simp: Notify_def Let_def split: option.splits sum.splits if_splits)

end
