(* ===== verification/Worker.thy ===== *)
theory Worker
  imports Memory_Queue Storage_Properties Metrics Cancel_Registry Blob_Store Webhook
begin

text \<open>
  The worker pool (\<open>internal/worker/worker.go\<close>): rendering with retries, the life of one job, and
  the loop of one worker. It is written over the store and blob interfaces, as the code is.

  Everything the surroundings decide is in the environment record: the clock, the outcome of each
  rendering attempt (Chromium), whether the contexts were cancelled by then, and what the webhook
  transport answers. \<open>pe_interf k\<close> is what the other goroutines did to the metadata store before
  the worker's k-th access to it, so that every theorem about a job holds for all interleavings of
  the store's atomic operations; with the identity the job runs alone.
\<close>

section \<open>State and environment\<close>

record ('s, 'b) world =
  w_store :: 's
  w_blobs :: 'b
  w_cancels :: registry
  w_metrics :: "metrics option"
  w_posts :: "webhook_request list"

record worker_options =
  RenderMaxRetries :: int
  RetryBackoff :: duration
  has_notifier :: bool

record 's process_env =
  pe_start :: time
  pe_set1 :: time
  pe_end :: time
  pe_set2 :: time
  pe_ctx :: context_id
  pe_pool_done :: bool
  pe_gen :: "int \<Rightarrow> bytes result"
  pe_ctx_done :: "int \<Rightarrow> bool"
  pe_backoff :: "int \<Rightarrow> go_error option"
  pe_transport :: transport
  pe_interf :: "nat \<Rightarrow> 's \<Rightarrow> 's"

text \<open>\<open>NewPoolWithOptions\<close> replaces nonsensical options.\<close>

definition NewPool_options :: "worker_options \<Rightarrow> worker_options" where
  "NewPool_options opts =
     opts\<lparr>RenderMaxRetries := (if RenderMaxRetries opts < 0 then 0 else RenderMaxRetries opts),
          RetryBackoff := (if RetryBackoff opts \<le> 0 then 500 * millisecond else RetryBackoff opts)\<rparr>"

section \<open>Rendering with retries\<close>

text \<open>
  The loop of \<open>generateWithRetries\<close> from attempt \<open>attempt\<close> on. Attempt k asks the generator
  (\<open>pe_gen k\<close>); after a failure the loop ends when the job's context is done or this was the last
  attempt, and otherwise waits: \<open>pe_backoff k\<close> is the context's error when the context ends
  during the wait. Both results are returned, as in Go, with \<open>[]\<close> for the nil slice.
\<close>

function render_loop ::
    "'s process_env \<Rightarrow> int \<Rightarrow> int \<Rightarrow> go_error option \<Rightarrow> bytes \<times> go_error option" where
  "render_loop env attempt attempts lastErr =
     (if attempt \<le> attempts then
        (case pe_gen env attempt of
           Inr pdf \<Rightarrow> (pdf, None)
         | Inl e \<Rightarrow>
             if pe_ctx_done env attempt \<or> attempt = attempts then ([], Some e)
             else (case pe_backoff env attempt of
                     Some ctxErr \<Rightarrow> ([], Some ctxErr)
                   | None \<Rightarrow> render_loop env (attempt + 1) attempts (Some e)))
      else ([], lastErr))"
  by pat_completeness auto
termination
  by (relation "measure (\<lambda>(env, attempt, attempts, lastErr). nat (attempts + 1 - attempt))") auto

declare render_loop.simps [simp del]

definition generateWithRetries :: "worker_options \<Rightarrow> 's process_env \<Rightarrow> bytes \<times> go_error option" where
  "generateWithRetries opts env =
     render_loop env 1 (to_int64 (RenderMaxRetries opts + 1)) None"

section \<open>Notification\<close>

definition event_for :: "job \<Rightarrow> job_result \<Rightarrow> Event" where
  "event_for job result = \<lparr>JobID = ID job, ev_URL = URL result, ev_Status = Status result,
     ev_Error = Error result, ev_PDFKey = PDFKey result, ev_PDFSize = PDFSize result,
     ev_RequestID = RequestID result\<rparr>"

definition callback_for :: "job \<Rightarrow> job_result \<Rightarrow> string" where
  "callback_for job result =
     (if CallbackURL result = '''' then job_CallbackURL job else CallbackURL result)"

definition notify ::
    "worker_options \<Rightarrow> 's process_env \<Rightarrow> job \<Rightarrow> job_result \<Rightarrow> ('s, 'b) world \<Rightarrow> ('s, 'b) world" where
  "notify opts env job result w =
     (if callback_for job result = '''' \<or> \<not> has_notifier opts then w
      else if Status result \<noteq> StatusCompleted \<and> Status result \<noteq> StatusFailed then w
      else w\<lparr>w_posts := w_posts w
               @ fst (Notify True (pe_transport env) (callback_for job result) (event_for job result))\<rparr>)"

section \<open>One job\<close>

text \<open>The record literals \<open>processJob\<close> stores.\<close>

definition job_record :: "job \<Rightarrow> JobStatus \<Rightarrow> job_result" where
  "job_record job st = zero_result\<lparr>URL := job_URL job, Status := st,
     IdempotencyKey := job_IdempotencyKey job, CallbackURL := job_CallbackURL job,
     RequestID := job_RequestID job\<rparr>"

definition record_render :: "JobStatus \<Rightarrow> duration \<Rightarrow> int \<Rightarrow> ('s, 'b) world \<Rightarrow> ('s, 'b) world" where
  "record_render st dur n w =
     w\<lparr>w_metrics := map_option (RenderFinished (status_text st) dur n) (w_metrics w)\<rparr>"

definition pdf_key :: "job \<Rightarrow> string" where
  "pdf_key job = ''pdf/'' @ ID job @ ''.pdf''"

definition is_canceled :: "job_result result \<Rightarrow> bool" where
  "is_canceled r = (case r of Inr q \<Rightarrow> Status q = StatusCanceled | Inl _ \<Rightarrow> False)"

text \<open>Storing a terminal record and announcing it; a failing \<open>Set\<close> is ignored.\<close>

definition finish ::
    "'s store_ops \<Rightarrow> worker_options \<Rightarrow> 's process_env \<Rightarrow> job \<Rightarrow> job_result
       \<Rightarrow> ('s, 'b) world \<Rightarrow> ('s, 'b) world" where
  "finish S opts env job result w =
     (case s_Set S (pe_set2 env) (ID job) result (pe_interf env 3 (w_store w)) of
        (s', result', _) \<Rightarrow> notify opts env job result' (w\<lparr>w_store := s'\<rparr>))"

definition fail_job ::
    "'s store_ops \<Rightarrow> worker_options \<Rightarrow> 's process_env \<Rightarrow> job \<Rightarrow> string
       \<Rightarrow> ('s, 'b) world \<Rightarrow> ('s, 'b) world" where
  "fail_job S opts env job statusErr w =
     finish S opts env job ((job_record job StatusFailed)\<lparr>Error := statusErr\<rparr>)
       (record_render StatusFailed (pe_end env - pe_start env) 0 w)"

definition status_error :: "'s process_env \<Rightarrow> go_error \<Rightarrow> string" where
  "status_error env e =
     (if errors_is e ErrContextCanceled \<and> pe_pool_done env then ''job interrupted by shutdown''
      else error_text e)"

definition canceled_job ::
    "worker_options \<Rightarrow> 's process_env \<Rightarrow> job \<Rightarrow> job_result \<Rightarrow> ('s, 'b) world \<Rightarrow> ('s, 'b) world" where
  "canceled_job opts env job current w =
     notify opts env job current
       (record_render StatusCanceled (pe_end env - pe_start env) 0 w)"

text \<open>What happens once the rendering has returned, with the store as read by the second \<open>Get\<close>.\<close>

definition after_render ::
    "'s store_ops \<Rightarrow> 'b blob_ops \<Rightarrow> worker_options \<Rightarrow> 's process_env \<Rightarrow> job
       \<Rightarrow> ('s, 'b) world \<Rightarrow> ('s, 'b) world" where
  "after_render S B opts env job w =
     (case generateWithRetries opts env of (pdf, err) \<Rightarrow>
      case s_Get S (ID job) (pe_interf env 2 (w_store w)) of (s1, current) \<Rightarrow>
        let w1 = w\<lparr>w_store := s1\<rparr>
        in (case err of
              Some e \<Rightarrow>
                (case current of
                   Inr c \<Rightarrow> if Status c = StatusCanceled then canceled_job opts env job c w1
                            else fail_job S opts env job (status_error env e) w1
                 | Inl _ \<Rightarrow> fail_job S opts env job (status_error env e) w1)
            | None \<Rightarrow>
                if is_canceled current
                then (case current of Inr c \<Rightarrow> canceled_job opts env job c w1 | Inl _ \<Rightarrow> w1)
                else (case b_Put B (pdf_key job) pdf (w_blobs w1) of
                        (b', Some e) \<Rightarrow> fail_job S opts env job (error_text e) (w1\<lparr>w_blobs := b'\<rparr>)
                      | (b', None) \<Rightarrow>
                          let result = (job_record job StatusCompleted)
                                \<lparr>PDFKey := pdf_key job, PDFSize := int (length pdf)\<rparr>
                          in (case s_Set S (pe_set2 env) (ID job) result (pe_interf env 3 s1) of
                                (s2, result', _) \<Rightarrow>
                                  notify opts env job result'
                                    (record_render StatusCompleted (pe_end env - pe_start env)
                                       (int (length pdf)) (w1\<lparr>w_blobs := b', w_store := s2\<rparr>))))))"

definition processJob ::
    "'s store_ops \<Rightarrow> 'b blob_ops \<Rightarrow> worker_options \<Rightarrow> 's process_env \<Rightarrow> job
       \<Rightarrow> ('s, 'b) world \<Rightarrow> ('s, 'b) world" where
  "processJob S B opts env job w =
     (case s_Get S (ID job) (pe_interf env 0 (w_store w)) of (s0, current) \<Rightarrow>
        if is_canceled current then w\<lparr>w_store := s0\<rparr>
        else (case s_Set S (pe_set1 env) (ID job) (job_record job StatusProcessing)
                     (pe_interf env 1 s0) of
                (s1, _, _) \<Rightarrow>
                  let w1 = w\<lparr>w_store := s1,
                             w_cancels := reg_Register (ID job) (pe_ctx env) (w_cancels w)\<rparr>;
                      w2 = after_render S B opts env job w1
                  in w2\<lparr>w_cancels := reg_Unregister (ID job) (w_cancels w2)\<rparr>))"

section \<open>The loop of one worker\<close>

text \<open>
  What \<open>Pop\<close> returns round by round: a job, or an error together with whether the pool's context
  is done. A dead context ends the loop, any other error is logged and the loop goes on. Each job
  comes with the environment of its processing and is acknowledged afterwards.
\<close>

datatype 's pop_event = Popped job "'s process_env" | PopFailed go_error bool

fun worker_rounds ::
    "'s store_ops \<Rightarrow> 'b blob_ops \<Rightarrow> 'q queue_ops \<Rightarrow> worker_options \<Rightarrow> 's pop_event list
       \<Rightarrow> ('s, 'b) world \<times> 'q \<Rightarrow> ('s, 'b) world \<times> 'q" where
  "worker_rounds S B Q opts [] (w, q) = (w, q)"
| "worker_rounds S B Q opts (PopFailed e ctx_done # evs) (w, q) =
     (if ctx_done then (w, q) else worker_rounds S B Q opts evs (w, q))"
| "worker_rounds S B Q opts (Popped job env # evs) (w, q) =
     worker_rounds S B Q opts evs (processJob S B opts env job w, fst (q_Ack Q job q))"

definition worker ::
    "'s store_ops \<Rightarrow> 'b blob_ops \<Rightarrow> 'q queue_ops \<Rightarrow> worker_options \<Rightarrow> 's pop_event list
       \<Rightarrow> ('s, 'b) world \<times> 'q \<Rightarrow> ('s, 'b) world \<times> 'q" where
  "worker S B Q opts evs wq =
     (case worker_rounds S B Q opts evs
             (case wq of (w, q) \<Rightarrow> (w\<lparr>w_metrics := map_option WorkerStarted (w_metrics w)\<rparr>, q)) of
        (w', q') \<Rightarrow> (w'\<lparr>w_metrics := map_option WorkerStopped (w_metrics w')\<rparr>, q'))"

end
