(* ===== verification/Worker_Properties.thy ===== *)
theory Worker_Properties
  imports Worker
begin

text \<open>
  What the workers guarantee: how often a page is rendered, what one job leaves behind in the
  metadata store, the blob store, the metrics and the webhook, and what cancellation does and does
  not achieve when it interleaves with a worker.
\<close>

section \<open>Retries\<close>

text \<open>Attempt \<open>k\<close> is reached when every earlier one failed and no context ended meanwhile.\<close>

definition attempt_fails_on :: "'s process_env \<Rightarrow> int \<Rightarrow> bool" where
  "attempt_fails_on env k \<longleftrightarrow>
     (\<exists>e. pe_gen env k = Inl e) \<and> \<not> pe_ctx_done env k \<and> pe_backoff env k = None"

text \<open>What the loop returns when it ends at attempt \<open>k\<close> of \<open>n\<close>.\<close>

definition ends_at :: "'s process_env \<Rightarrow> int \<Rightarrow> int \<Rightarrow> bytes \<times> go_error option \<Rightarrow> bool" where
  "ends_at env n k r \<longleftrightarrow>
     (\<exists>pdf. pe_gen env k = Inr pdf \<and> r = (pdf, None))
   \<or> (\<exists>e. pe_gen env k = Inl e \<and> (pe_ctx_done env k \<or> k = n) \<and> r = ([], Some e))
   \<or> (\<exists>e ce. pe_gen env k = Inl e \<and> \<not> pe_ctx_done env k \<and> k < n
        \<and> pe_backoff env k = Some ce \<and> r = ([], Some ce))"

lemma render_loop_ends:
  assumes "a \<le> n"
  shows "\<exists>k. a \<le> k \<and> k \<le> n \<and> (\<forall>j. a \<le> j \<and> j < k \<longrightarrow> attempt_fails_on env j)
    \<and> ends_at env n k (render_loop env a n lastErr)"
  using assms
proof (induction "nat (n - a)" arbitrary: a lastErr)
  case 0
  then have "a = n" by simp
  moreover have "ends_at env n n (render_loop env n n lastErr)"
    by (subst render_loop.simps) (auto simp: ends_at_def split: sum.splits)
  ultimately show ?case by (intro exI [of _ n]) auto
next
  case (Suc d)
  show ?case
  proof (cases "attempt_fails_on env a")
    case True
    then obtain e where e: "pe_gen env a = Inl e" by (auto simp: attempt_fails_on_def)
    have step: "render_loop env a n lastErr = render_loop env (a + 1) n (Some e)"
      using True e Suc.hyps(2) by (subst render_loop.simps) (auto simp: attempt_fails_on_def)
    have "d = nat (n - (a + 1))" "a + 1 \<le> n" using Suc.hyps(2) by auto
    from Suc.hyps(1) [OF this, of "Some e"] obtain k where
      "a + 1 \<le> k" "k \<le> n" "\<forall>j. a + 1 \<le> j \<and> j < k \<longrightarrow> attempt_fails_on env j"
      "ends_at env n k (render_loop env (a + 1) n (Some e))"
      by blast
    then show ?thesis using True step
      by (intro exI [of _ k]) (metis add.commute linorder_not_less order_le_less zless_add1_eq)
  next
    case False
    then have "ends_at env n a (render_loop env a n lastErr)"
      using Suc.prems Suc.hyps(2)
      by (subst render_loop.simps)
        (auto simp: ends_at_def attempt_fails_on_def split: sum.splits option.splits)
    then show ?thesis using Suc.prems by (intro exI [of _ a]) auto
  qed
qed

text \<open>C19: \<open>generateWithRetries\<close> makes between one and \<open>RenderMaxRetries + 1\<close> attempts; it stops
  at the first success with that PDF, at the last attempt or once the job's context is done with
  that attempt's error, or with the context's own error when it ends during the back-off.\<close>

theorem generateWithRetries_spec:
  assumes "0 \<le> RenderMaxRetries opts" and "RenderMaxRetries opts < 2 ^ 63 - 1"
  shows "\<exists>k. 1 \<le> k \<and> k \<le> RenderMaxRetries opts + 1
    \<and> (\<forall>j. 1 \<le> j \<and> j < k \<longrightarrow> attempt_fails_on env j)
    \<and> ends_at env (RenderMaxRetries opts + 1) k (generateWithRetries opts env)"
proof -
  have "to_int64 (RenderMaxRetries opts + 1) = RenderMaxRetries opts + 1"
    using assms by (intro to_int64_id) (simp add: is_int64_def)
  then show ?thesis
    using render_loop_ends [of 1 "RenderMaxRetries opts + 1" env None] assms(1)
    by (simp add: generateWithRetries_def)
qed

definition demo_opts :: worker_options where
  "demo_opts = \<lparr>RenderMaxRetries = 1, RetryBackoff = 0, has_notifier = True\<rparr>"

definition demo_env :: "mem_storage process_env" where
  "demo_env = \<lparr>pe_start = 100, pe_set1 = 101, pe_end = 110, pe_set2 = 111, pe_ctx = 7,
     pe_pool_done = False,
     pe_gen = (\<lambda>k. if k = 1 then Inl (ErrNew ''open page'') else Inr [37, 80, 68, 70]),
     pe_ctx_done = (\<lambda>_. False), pe_backoff = (\<lambda>_. None), pe_transport = (\<lambda>_. Inr 200),
     pe_interf = (\<lambda>_ s. s)\<rparr>"

lemma demo_generate: "generateWithRetries demo_opts demo_env = ([37, 80, 68, 70], None)"
  by (simp add: generateWithRetries_def demo_opts_def demo_env_def render_loop.simps to_int64_def)

theorem generateWithRetries_spec_witness:
  "(\<exists>k. 1 \<le> k \<and> k \<le> RenderMaxRetries demo_opts + 1
      \<and> ends_at demo_env (RenderMaxRetries demo_opts + 1) k ([37, 80, 68, 70], None))
   \<and> attempt_fails_on demo_env 1"
proof
  show "\<exists>k. 1 \<le> k \<and> k \<le> RenderMaxRetries demo_opts + 1
      \<and> ends_at demo_env (RenderMaxRetries demo_opts + 1) k ([37, 80, 68, 70], None)"
    using generateWithRetries_spec [of demo_opts demo_env] unfolding demo_generate
    by (auto simp: demo_opts_def)
  show "attempt_fails_on demo_env 1" by (simp add: attempt_fails_on_def demo_env_def)
qed

text \<open>The attempt count overflows: with \<open>RenderMaxRetries\<close> at the largest \<open>int\<close>, the sum
  \<open>RenderMaxRetries + 1\<close> is negative, no attempt is made at all, and the nil PDF is returned
  with a nil error, which the caller takes for a successful rendering.\<close>

theorem retries_overflow:
  "generateWithRetries (opts\<lparr>RenderMaxRetries := 2 ^ 63 - 1\<rparr>) env = ([], None)"
  by (simp add: generateWithRetries_def render_loop.simps to_int64_def)

section \<open>A job that runs alone\<close>

text \<open>The record a job ends with, when its blob can be stored.\<close>

definition final_record :: "worker_options \<Rightarrow> 's process_env \<Rightarrow> job \<Rightarrow> job_result" where
  "final_record opts env job =
     (case generateWithRetries opts env of
        (pdf, None) \<Rightarrow> (job_record job StatusCompleted)
                         \<lparr>PDFKey := pdf_key job, PDFSize := int (length pdf)\<rparr>
      | (pdf, Some e) \<Rightarrow> (job_record job StatusFailed)\<lparr>Error := status_error env e\<rparr>)"

definition announces :: "job \<Rightarrow> job_result \<Rightarrow> webhook_request list \<Rightarrow> bool" where
  "announces job result ps \<longleftrightarrow> length ps \<le> 1
     \<and> (\<forall>p \<in> set ps. \<exists>i. wr_body p = event_text ((event_for job result)\<lparr>ev_RequestID := i\<rparr>))"

lemma notify_simps [simp]:
  "w_store (notify opts env job r w) = w_store w" "w_blobs (notify opts env job r w) = w_blobs w"
  "w_cancels (notify opts env job r w) = w_cancels w"
  "w_metrics (notify opts env job r w) = w_metrics w"
  by (simp_all add: notify_def)

lemma record_render_simps [simp]:
  "w_store (record_render st d n w) = w_store w" "w_blobs (record_render st d n w) = w_blobs w"
  "w_cancels (record_render st d n w) = w_cancels w" "w_posts (record_render st d n w) = w_posts w"
  "w_metrics (record_render st d n w) = map_option (RenderFinished (status_text st) d n) (w_metrics w)"
  by (simp_all add: record_render_def)

lemma notify_announces:
  assumes "same_outcome r' r"
  shows "\<exists>ps. w_posts (notify opts env job r' w) = w_posts w @ ps \<and> announces job r ps"
proof -
  have "event_for job r' = (event_for job r)\<lparr>ev_RequestID := RequestID r'\<rparr>"
    using assms by (simp add: event_for_def same_outcome_def)
  then have "announces job r (fst (Notify True t u (event_for job r')))" for t u
    using Notify_at_most_once [of True t u "event_for job r'"]
    by (auto simp: announces_def Notify_def webhook_request_for_def Let_def
        split: option.splits sum.splits if_splits)
  then show ?thesis by (auto simp: notify_def announces_def)
qed

lemma notify_canceled: "Status r = StatusCanceled \<Longrightarrow> notify opts env job r w = w"
  by (simp add: notify_def)

lemma job_record_simps [simp]:
  "Status (job_record job st) = st" "URL (job_record job st) = job_URL job"
  "Error (job_record job st) = ''''" "PDFKey (job_record job st) = ''''"
  "PDFSize (job_record job st) = 0" "CreatedAt (job_record job st) = 0"
  "IdempotencyKey (job_record job st) = job_IdempotencyKey job"
  by (simp_all add: job_record_def zero_result_def)

locale worker_backend = st: total_job_store S inv view keys + bl: blob_store B objects "\<lambda>_. True"
  for S :: "'s store_ops" and inv view keys and B :: "'b blob_ops" and objects +
  assumes put_total: "snd (b_Put B k d b) = None"
begin

lemma finish_alone:
  assumes "inv (w_store w)" "pe_set2 env \<noteq> 0" "\<And>k s. 2 \<le> k \<Longrightarrow> pe_interf env k s = s"
  shows "view (w_store (finish S opts env job r w)) = spec_set (pe_set2 env) (ID job) r (view (w_store w))
    \<and> keys (w_store (finish S opts env job r w)) = keys (w_store w)
    \<and> w_blobs (finish S opts env job r w) = w_blobs w
    \<and> w_cancels (finish S opts env job r w) = w_cancels w
    \<and> w_metrics (finish S opts env job r w) = w_metrics w
    \<and> (\<exists>ps. w_posts (finish S opts env job r w) = w_posts w @ ps \<and> announces job r ps)"
proof -
  obtain s' r' where set: "s_Set S (pe_set2 env) (ID job) r (w_store w) = (s', r', None)"
    using st.set_total [OF assms(1), of "pe_set2 env" "ID job" r] by (metis prod.collapse)
  then have fin: "finish S opts env job r w = notify opts env job r' (w\<lparr>w_store := s'\<rparr>)"
    by (simp add: finish_def assms(3))
  have "same_outcome r' r" using st.set_view [OF assms(1,2) set] by blast
  then obtain ps where
    "w_posts (notify opts env job r' (w\<lparr>w_store := s'\<rparr>)) = w_posts w @ ps" "announces job r ps"
    using notify_announces [of r' r opts env job "w\<lparr>w_store := s'\<rparr>"] by auto
  then show ?thesis using st.set_view [OF assms(1,2) set] fin by simp
qed

lemma after_render_alone:
  assumes inv: "inv (w_store w)" and t: "pe_set2 env \<noteq> 0"
    and alone: "\<And>k s. 2 \<le> k \<Longrightarrow> pe_interf env k s = s"
    and cur: "view (w_store w) (ID job) = Some c" "Status c \<noteq> StatusCanceled"
  shows "view (w_store (after_render S B opts env job w))
        = spec_set (pe_set2 env) (ID job) (final_record opts env job) (view (w_store w))
    \<and> keys (w_store (after_render S B opts env job w)) = keys (w_store w)
    \<and> objects (w_blobs (after_render S B opts env job w))
        = (if Status (final_record opts env job) = StatusCompleted
           then (objects (w_blobs w))(pdf_key job \<mapsto> fst (generateWithRetries opts env))
           else objects (w_blobs w))
    \<and> w_cancels (after_render S B opts env job w) = w_cancels w
    \<and> w_metrics (after_render S B opts env job w)
        = map_option (RenderFinished (status_text (Status (final_record opts env job)))
            (pe_end env - pe_start env) (PDFSize (final_record opts env job))) (w_metrics w)
    \<and> (\<exists>ps. w_posts (after_render S B opts env job w) = w_posts w @ ps
         \<and> announces job (final_record opts env job) ps)"
proof -
  obtain s1 where get: "s_Get S (ID job) (w_store w) = (s1, Inr c)"
    using st.get_total [OF inv cur(1)] by (metis prod.collapse)
  have s1: "inv s1" "view s1 = view (w_store w)" "keys s1 = keys (w_store w)"
    using st.get_inv [OF inv, of "ID job"] st.get_frame [OF inv, of "ID job"] get by simp_all
  obtain pdf err where gen: "generateWithRetries opts env = (pdf, err)" by (metis surj_pair)
  show ?thesis
  proof (cases err)
    case (Some e)
    have "after_render S B opts env job w = finish S opts env job (final_record opts env job)
        (record_render StatusFailed (pe_end env - pe_start env) 0 (w\<lparr>w_store := s1\<rparr>))"
      using Some gen get cur(2) alone
      by (simp add: after_render_def fail_job_def final_record_def)
    then show ?thesis
      using finish_alone [OF _ t alone,
          of "record_render StatusFailed (pe_end env - pe_start env) 0 (w\<lparr>w_store := s1\<rparr>)"
            opts job "final_record opts env job"] s1 gen Some
      by (simp add: final_record_def)
  next
    case None
    obtain b' where put: "b_Put B (pdf_key job) pdf (w_blobs w) = (b', None)"
      using put_total [of "pdf_key job" pdf "w_blobs w"] by (metis prod.collapse)
    obtain s2 r' where set: "s_Set S (pe_set2 env) (ID job) (final_record opts env job) s1 = (s2, r', None)"
      using st.set_total [OF s1(1)] by (metis prod.collapse)
    let ?w = "record_render StatusCompleted (pe_end env - pe_start env) (int (length pdf))
                (w\<lparr>w_store := s1, w_blobs := b', w_store := s2\<rparr>)"
    have run: "after_render S B opts env job w = notify opts env job r' ?w"
      using None gen get cur(2) alone put set
      by (simp add: after_render_def final_record_def is_canceled_def)
    have sv: "view s2 = spec_set (pe_set2 env) (ID job) (final_record opts env job) (view s1)"
      "keys s2 = keys s1" "same_outcome r' (final_record opts env job)"
      using st.set_view [OF s1(1) t set] by blast+
    obtain ps where "w_posts (notify opts env job r' ?w) = w_posts w @ ps"
      "announces job (final_record opts env job) ps"
      using notify_announces [OF sv(3), of opts env job ?w] by auto
    moreover have "objects b' = (objects (w_blobs w))(pdf_key job \<mapsto> pdf)"
      using bl.put_objects [OF _ put] by (intro ext) simp
    ultimately show ?thesis
      using run sv s1 gen None by (simp add: final_record_def)
  qed
qed

text \<open>The whole job, with the record it finds and the processing record it writes first.\<close>

lemma processJob_alone:
  assumes inv: "inv (w_store w)" and t1: "pe_set1 env \<noteq> 0" and t: "pe_set2 env \<noteq> 0"
    and alone: "\<And>k s. pe_interf env k s = s"
    and cur: "view (w_store w) (ID job) = Some c" "Status c \<noteq> StatusCanceled"
  shows "view (w_store (processJob S B opts env job w))
        = spec_set (pe_set2 env) (ID job) (final_record opts env job)
            (spec_set (pe_set1 env) (ID job) (job_record job StatusProcessing) (view (w_store w)))
    \<and> keys (w_store (processJob S B opts env job w)) = keys (w_store w)
    \<and> objects (w_blobs (processJob S B opts env job w))
        = (if Status (final_record opts env job) = StatusCompleted
           then (objects (w_blobs w))(pdf_key job \<mapsto> fst (generateWithRetries opts env))
           else objects (w_blobs w))
    \<and> w_cancels (processJob S B opts env job w) = reg_Unregister (ID job) (w_cancels w)
    \<and> w_metrics (processJob S B opts env job w)
        = map_option (RenderFinished (status_text (Status (final_record opts env job)))
            (pe_end env - pe_start env) (PDFSize (final_record opts env job))) (w_metrics w)
    \<and> (\<exists>ps. w_posts (processJob S B opts env job w) = w_posts w @ ps
         \<and> announces job (final_record opts env job) ps)"
proof -
  obtain s0 where get: "s_Get S (ID job) (w_store w) = (s0, Inr c)"
    using st.get_total [OF inv cur(1)] by (metis prod.collapse)
  have s0: "inv s0" "view s0 = view (w_store w)" "keys s0 = keys (w_store w)"
    using st.get_inv [OF inv, of "ID job"] st.get_frame [OF inv, of "ID job"] get by simp_all
  let ?p = "job_record job StatusProcessing"
  obtain s1 r1 where set: "s_Set S (pe_set1 env) (ID job) ?p s0 = (s1, r1, None)"
    using st.set_total [OF s0(1)] by (metis prod.collapse)
  have s1: "view s1 = spec_set (pe_set1 env) (ID job) ?p (view s0)" "keys s1 = keys s0"
    using st.set_view [OF s0(1) t1 set] by blast+
  have inv1: "inv s1" using st.set_inv [OF s0(1) t1, of "ID job" ?p] set by simp
  let ?w1 = "w\<lparr>w_store := s1, w_cancels := reg_Register (ID job) (pe_ctx env) (w_cancels w)\<rparr>"
  have run: "processJob S B opts env job w = (after_render S B opts env job ?w1)
      \<lparr>w_cancels := reg_Unregister (ID job) (w_cancels (after_render S B opts env job ?w1))\<rparr>"
    using get cur(2) set alone by (simp add: processJob_def is_canceled_def Let_def)
  have cur1: "view (w_store ?w1) (ID job) = Some (merge_result (pe_set1 env) (Some c) ?p)"
    using s1 s0 cur by simp
  have reg: "reg_Unregister i (reg_Register i x r) = reg_Unregister i r" for i x r
    by (simp add: reg_Unregister_def reg_Register_def delete_update_same)
  show ?thesis
    using after_render_alone [OF _ t _ cur1, of opts] alone inv1 s1 s0 run reg by simp
qed

end

interpretation wb: worker_backend mem_store_ops ms_wf ms_view ms_keys mem_blob_ops map_of
  by unfold_locales simp

text \<open>C10: A job that runs without interference on the in-memory back-ends: its record becomes the
  completed or failed record, with the creation time and idempotency key it had, no other record
  and no key changes; the PDF is stored under the job's key exactly when the job completes; one
  render is counted with the final status; at most one webhook is sent and it reports that
  status; and its cancellation registration is gone, while those of all other jobs stay.\<close>

theorem processJob_completes:
  assumes "ms_wf (w_store w)" "pe_set1 env \<noteq> 0" "pe_set2 env \<noteq> 0"
    and alone: "\<And>k s. pe_interf env k s = s"
    and "ms_view (w_store w) (ID job) = Some c" "Status c \<noteq> StatusCanceled"
    and w': "w' = processJob mem_store_ops mem_blob_ops opts env job w"
  shows "(\<exists>r. ms_view (w_store w') = (ms_view (w_store w))(ID job \<mapsto> r)
        \<and> same_outcome r (final_record opts env job)
        \<and> CreatedAt r = CreatedAt c
        \<and> (job_IdempotencyKey job = '''' \<longrightarrow> IdempotencyKey r = IdempotencyKey c))
    \<and> ms_keys (w_store w') = ms_keys (w_store w)
    \<and> map_of (w_blobs w')
        = (if snd (generateWithRetries opts env) = None
           then (map_of (w_blobs w))(pdf_key job \<mapsto> fst (generateWithRetries opts env))
           else map_of (w_blobs w))
    \<and> w_metrics w'
        = map_option (RenderFinished (status_text (Status (final_record opts env job)))
            (pe_end env - pe_start env) (PDFSize (final_record opts env job))) (w_metrics w)
    \<and> (\<exists>ps. w_posts w' = w_posts w @ ps \<and> announces job (final_record opts env job) ps)
    \<and> map_of (w_cancels w') = (map_of (w_cancels w))(ID job := None)"
proof -
  let ?p = "job_record job StatusProcessing" and ?f = "final_record opts env job"
  let ?r1 = "merge_result (pe_set1 env) (Some c) ?p"
  let ?r = "merge_result (pe_set2 env) (Some ?r1) ?f"
  note run = wb.processJob_alone [OF assms(1-3) alone assms(5,6), where opts = opts, folded w']
  have c: "CreatedAt c \<noteq> 0"
    using assms(1,5) map_of_SomeD unfolding ms_wf_def ms_view_def by fastforce
  have f: "CreatedAt ?f = 0" "IdempotencyKey ?f = job_IdempotencyKey job"
    by (auto simp: final_record_def split: prod.splits option.splits)
  have r: "CreatedAt ?r = CreatedAt c"
    "job_IdempotencyKey job = '''' \<Longrightarrow> IdempotencyKey ?r = IdempotencyKey c"
    using c f by (simp_all add: merge_result_inherits)
  have st: "Status ?f = StatusCompleted \<longleftrightarrow> snd (generateWithRetries opts env) = None"
    by (auto simp: final_record_def split: prod.splits option.splits)
  have view: "ms_view (w_store w') = (ms_view (w_store w))(ID job \<mapsto> ?r)"
    using run assms(5) by (auto simp: spec_set_def)
  show ?thesis
    using run r st view by (auto simp: reg_Unregister_def intro!: exI [of _ ?r])
qed

definition demo_job :: job where
  "demo_job = zero_job\<lparr>ID := ''a'', job_URL := ''http://e'', job_CallbackURL := ''http://cb/''\<rparr>"

definition demo_world :: "(mem_storage, mem_blobs) world" where
  "demo_world = \<lparr>w_store = demo_store, w_blobs = [], w_cancels = [], w_metrics = Some NewMetrics,
     w_posts = []\<rparr>"

lemma demo_view: "ms_view (w_store demo_world) ''a'' = Some (demo_result 5)"
  by (simp add: demo_world_def demo_store_def mem_run_def mem_Set_def ms_view_def NewMemoryStorage_def
      Let_def demo_result_def merge_result_fresh zero_result_def)

theorem processJob_completes_witness:
  "let w' = processJob mem_store_ops mem_blob_ops demo_opts demo_env demo_job demo_world
   in (\<exists>r. ms_view (w_store w') ''a'' = Some r \<and> Status r = StatusCompleted \<and> CreatedAt r = 5)
      \<and> map_of (w_blobs w') ''pdf/a.pdf'' = Some [37, 80, 68, 70]"
proof -
  let ?w' = "processJob mem_store_ops mem_blob_ops demo_opts demo_env demo_job demo_world"
  have wf: "ms_wf (w_store demo_world)" using demo_store_wf by (simp add: demo_world_def)
  have env: "pe_set1 demo_env \<noteq> 0" "pe_set2 demo_env \<noteq> 0" "\<And>k s. pe_interf demo_env k s = s"
    by (simp_all add: demo_env_def)
  have id: "ID demo_job = ''a''" "pdf_key demo_job = ''pdf/a.pdf''"
    by (simp_all add: demo_job_def zero_job_def pdf_key_def)
  have c: "Status (demo_result 5) \<noteq> StatusCanceled" "CreatedAt (demo_result 5) = 5"
    by (simp_all add: demo_result_def)
  have v: "ms_view (w_store demo_world) (ID demo_job) = Some (demo_result 5)"
    using demo_view id by simp
  have f: "Status (final_record demo_opts demo_env demo_job) = StatusCompleted"
    by (simp add: final_record_def demo_generate)
  show ?thesis
    using processJob_completes [OF wf env v c(1) refl, of demo_opts] f id c
    by (auto simp: demo_generate same_outcome_def Let_def)
qed

section \<open>Cancellation against a running job\<close>

text \<open>A job already marked canceled when a worker picks it up is not rendered: whatever the
  environment would do, the worker changes neither the store it read, nor blobs, metrics, webhook
  posts or registrations.\<close>

theorem processJob_skips_canceled:
  assumes "map_of (results (pe_interf env 0 (w_store w))) (ID job) = Some c"
    and "Status c = StatusCanceled"
  shows "processJob mem_store_ops B opts env job w = w\<lparr>w_store := pe_interf env 0 (w_store w)\<rparr>"
  using assms by (simp add: processJob_def mem_Get_def is_canceled_def)

theorem processJob_skips_canceled_witness:
  "processJob mem_store_ops mem_blob_ops demo_opts
      (demo_env\<lparr>pe_interf := (\<lambda>k s. if k = 0 then fst (mem_Cancel 50 ''a'' s) else s)\<rparr>) demo_job demo_world
   = demo_world\<lparr>w_store := fst (mem_Cancel 50 ''a'' demo_store)\<rparr>"
proof -
  let ?env = "demo_env\<lparr>pe_interf := (\<lambda>k s. if k = 0 then fst (mem_Cancel 50 ''a'' s) else s)\<rparr>"
  let ?c = "merge_result 50 (Some (demo_result 5)) (mark_canceled (demo_result 5))"
  have v: "ms_view demo_store ''a'' = Some (demo_result 5)"
    using demo_view by (simp add: demo_world_def)
  have "ms_view (fst (mem_Cancel 50 ''a'' demo_store)) ''a'' = Some ?c"
    using v by (simp add: store_simps spec_cancel_def) (simp add: demo_result_def)
  then have "map_of (results (pe_interf ?env 0 (w_store demo_world))) (ID demo_job) = Some ?c"
    by (simp add: demo_world_def ms_view_def demo_job_def zero_job_def)
  from processJob_skips_canceled [OF this, of mem_blob_ops demo_opts]
  show ?thesis by (simp add: demo_world_def)
qed

text \<open>C20: A job canceled while it renders is discarded: if the second read finds the status
  canceled, then however the rendering went, the record the cancel left stays as it is, no PDF is
  stored and no webhook is sent, and the render is counted as canceled.\<close>

theorem processJob_discards_canceled:
  assumes start: "\<not> is_canceled (snd (mem_Get (ID job) (pe_interf env 0 (w_store w))))"
    and s1: "s1 = fst (mem_Set (pe_set1 env) (ID job) (job_record job StatusProcessing)
                        (pe_interf env 1 (pe_interf env 0 (w_store w))))"
    and canceled: "map_of (results (pe_interf env 2 s1)) (ID job) = Some c" "Status c = StatusCanceled"
    and w': "w' = processJob mem_store_ops B opts env job w"
  shows "w_store w' = pe_interf env 2 s1 \<and> w_blobs w' = w_blobs w \<and> w_posts w' = w_posts w
    \<and> w_metrics w' = map_option (RenderFinished ''canceled'' (pe_end env - pe_start env) 0) (w_metrics w)"
proof -
  obtain pdf err where gen: "generateWithRetries opts env = (pdf, err)" by (metis surj_pair)
  have get: "mem_Get (ID job) (pe_interf env 2 s1) = (pe_interf env 2 s1, Inr c)"
    using canceled by (simp add: mem_Get_def)
  have "after_render mem_store_ops B opts env job w1
      = record_render StatusCanceled (pe_end env - pe_start env) 0 (w1\<lparr>w_store := pe_interf env 2 s1\<rparr>)"
    if "w_store w1 = s1" for w1
    using that canceled gen
    by (auto simp: mem_Get_def Let_def after_render_def canceled_job_def is_canceled_def notify_canceled split: option.splits)
  then show ?thesis
    using start s1 unfolding w' processJob_def
    by (auto simp: mem_Get_def Let_def status_defs split: prod.splits)
qed

theorem processJob_discards_canceled_witness:
  "let env = demo_env\<lparr>pe_interf := (\<lambda>k s. if k = 2 then fst (mem_Cancel 105 ''a'' s) else s)\<rparr>;
       w' = processJob mem_store_ops mem_blob_ops demo_opts env demo_job demo_world
   in w_blobs w' = [] \<and> w_posts w' = []
      \<and> map_option Status (ms_view (w_store w') ''a'') = Some StatusCanceled"
proof -
  let ?env = "demo_env\<lparr>pe_interf := (\<lambda>k s. if k = 2 then fst (mem_Cancel 105 ''a'' s) else s)\<rparr>"
  let ?p = "job_record demo_job StatusProcessing"
  let ?s1 = "fst (mem_Set 101 ''a'' ?p demo_store)"
  let ?r1 = "merge_result 101 (Some (demo_result 5)) ?p"
  let ?c = "merge_result 105 (Some ?r1) (mark_canceled ?r1)"
  have id: "ID demo_job = ''a''" by (simp add: demo_job_def zero_job_def)
  have v: "ms_view demo_store ''a'' = Some (demo_result 5)"
    using demo_view by (simp add: demo_world_def)
  have env: "pe_interf ?env 0 = (\<lambda>s. s)" "pe_interf ?env 1 = (\<lambda>s. s)" "pe_set1 ?env = 101"
    "pe_interf ?env 2 s = fst (mem_Cancel 105 ''a'' s)" for s
    by (simp_all add: demo_env_def)
  have start: "\<not> is_canceled (snd (mem_Get (ID demo_job) (pe_interf ?env 0 (w_store demo_world))))"
    using v by (simp add: is_canceled_def mem_Get_def demo_world_def ms_view_def id env demo_result_def)
  have s1: "?s1 = fst (mem_Set (pe_set1 ?env) (ID demo_job) ?p
      (pe_interf ?env 1 (pe_interf ?env 0 (w_store demo_world))))"
    unfolding env id by (simp add: demo_world_def)
  have "ms_view (pe_interf ?env 2 ?s1) ''a'' = Some ?c"
    unfolding env using v by (simp add: store_simps spec_cancel_def)
  then have c: "map_of (results (pe_interf ?env 2 ?s1)) (ID demo_job) = Some ?c"
    by (simp only: ms_view_def id)
  have st: "Status ?c = StatusCanceled" by simp
  show ?thesis
    using processJob_discards_canceled [OF start s1 c st refl, of mem_blob_ops demo_opts] c id st
    by (simp add: demo_world_def Let_def ms_view_def)
qed

text \<open>
  The two windows in which a cancel is lost. \<open>Cancel\<close> answers "canceled" and marks the record, but
  the worker's next \<open>Set\<close> does not look at the record it overwrites.
\<close>

definition cancel_at :: "nat \<Rightarrow> time \<Rightarrow> string \<Rightarrow> nat \<Rightarrow> mem_storage \<Rightarrow> mem_storage" where
  "cancel_at p now i k s = (if k = p then fst (mem_Cancel now i s) else s)"

lemma cancel_keeps_job: "ms_view s i = Some c \<Longrightarrow> ms_view (fst (mem_Cancel now i s)) i \<noteq> None"
  by (simp add: store_simps spec_cancel_def)

text \<open>C35: A cancel that arrives between the worker's first read and its first write is lost. The
  cancel succeeds and its answer is status canceled, yet the job is set back to processing, rendered,
  and ends in the completed or failed status as if nobody had canceled it.\<close>

theorem cancel_lost_before_processing:
  assumes "ms_wf (w_store w)" "pe_set1 env \<noteq> 0" "pe_set2 env \<noteq> 0" "now \<noteq> 0"
    and env: "pe_interf env = cancel_at 1 now (ID job)"
    and c: "ms_view (w_store w) (ID job) = Some c" "\<not> terminal (Status c)"
    and w': "w' = processJob mem_store_ops mem_blob_ops opts env job w"
  shows "(\<exists>r. snd (mem_Cancel now (ID job) (w_store w)) = Inr r \<and> Status r = StatusCanceled)
    \<and> map_option Status (ms_view (w_store w') (ID job)) = Some (Status (final_record opts env job))
    \<and> Status (final_record opts env job) \<in> {StatusCompleted, StatusFailed}"
proof -
  let ?p = "job_record job StatusProcessing"
  let ?s0 = "fst (mem_Cancel now (ID job) (w_store w))"
  let ?s1 = "fst (mem_Set (pe_set1 env) (ID job) ?p ?s0)"
  let ?w1 = "w\<lparr>w_store := ?s1, w_cancels := reg_Register (ID job) (pe_ctx env) (w_cancels w)\<rparr>"
  have interf: "pe_interf env 0 s = s" "pe_interf env (Suc 0) s = fst (mem_Cancel now (ID job) s)" for s
    by (simp_all add: env cancel_at_def)
  have alone: "2 \<le> k \<Longrightarrow> pe_interf env k s = s" for k s by (simp add: env cancel_at_def)
  have get: "map_of (results (w_store w)) (ID job) = Some c" "Status c \<noteq> StatusCanceled"
    using c by (auto simp: ms_view_def)
  have run: "w_store w' = w_store (after_render mem_store_ops mem_blob_ops opts env job ?w1)"
    using get by (simp add: w' processJob_def interf is_canceled_def Let_def mem_Get_def split: prod.splits)
  have inv1: "ms_wf (w_store ?w1)" using assms(1,2,4) by (auto intro: wf_intros)
  obtain q where q: "ms_view (w_store ?w1) (ID job) = Some q" "Status q \<noteq> StatusCanceled"
    by (simp add: store_simps)
  have "ms_view (w_store w') (ID job) = Some (merge_result (pe_set2 env) (Some q) (final_record opts env job))"
    using wb.after_render_alone [OF inv1 assms(3) alone q, of opts] run q by simp
  moreover have "\<exists>r. snd (mem_Cancel now (ID job) (w_store w)) = Inr r \<and> Status r = StatusCanceled"
    using get c by (simp add: mem_Cancel_cases)
  ultimately show ?thesis by (auto simp: final_record_def split: prod.splits option.splits)
qed

theorem cancel_lost_before_processing_witness:
  "let w' = processJob mem_store_ops mem_blob_ops demo_opts
        (demo_env\<lparr>pe_interf := cancel_at 1 101 ''a''\<rparr>) demo_job demo_world
   in map_option Status (ms_view (w_store w') ''a'') = Some StatusCompleted"
proof -
  let ?env = "demo_env\<lparr>pe_interf := cancel_at 1 101 ''a''\<rparr>"
  have id: "ID demo_job = ''a''" by (simp add: demo_job_def zero_job_def)
  have wf: "ms_wf (w_store demo_world)" using demo_store_wf by (simp add: demo_world_def)
  have env: "pe_set1 ?env \<noteq> 0" "pe_set2 ?env \<noteq> 0" "(101 :: time) \<noteq> 0"
    "pe_interf ?env = cancel_at 1 101 (ID demo_job)"
    by (simp_all add: demo_env_def id)
  have v: "ms_view (w_store demo_world) (ID demo_job) = Some (demo_result 5)"
    "\<not> terminal (Status (demo_result 5))"
    using demo_view id by (simp_all add: demo_result_def)
  have "generateWithRetries demo_opts ?env = ([37, 80, 68, 70], None)"
    by (simp add: generateWithRetries_def demo_opts_def demo_env_def render_loop.simps to_int64_def)
  then have "Status (final_record demo_opts ?env demo_job) = StatusCompleted"
    by (simp add: final_record_def)
  then show ?thesis
    using cancel_lost_before_processing [OF wf env v refl, of demo_opts] id by (simp add: Let_def)
qed

section \<open>The worker gauge\<close>

lemma RenderFinished_workers [simp]: "activeWorkers (RenderFinished st d n m) = activeWorkers m"
  by (simp add: RenderFinished_def Let_def)

definition gauge :: "('s, 'b) world \<Rightarrow> counter option" where
  "gauge w = map_option activeWorkers (w_metrics w)"

lemma gauge_record [simp]: "gauge (record_render st d n w) = gauge w"
  by (cases "w_metrics w") (simp_all add: gauge_def)

lemma gauge_frame [simp]:
  "gauge (w\<lparr>w_store := s\<rparr>) = gauge w" "gauge (w\<lparr>w_blobs := b\<rparr>) = gauge w"
  "gauge (w\<lparr>w_cancels := c\<rparr>) = gauge w" "gauge (notify opts env job r w) = gauge w"
  by (simp_all add: gauge_def)

lemma gauge_after_render: "gauge (after_render S B opts env job w) = gauge w"
  by (auto simp: after_render_def canceled_job_def fail_job_def finish_def Let_def
      split: prod.splits option.splits sum.splits)

lemma gauge_processJob: "gauge (processJob S B opts env job w) = gauge w"
  by (simp add: processJob_def Let_def gauge_after_render split: prod.splits)

lemma gauge_rounds: "gauge (fst (worker_rounds S B Q opts evs wq)) = gauge (fst wq)"
  by (induction S B Q opts evs wq rule: worker_rounds.induct) (simp_all add: gauge_processJob)

text \<open>A worker that stops leaves the active-worker gauge as it found it, whatever jobs and
  errors it saw, and even if the 64-bit gauge wrapped around in between.\<close>

theorem worker_gauge_restored:
  "gauge (fst (worker S B Q opts evs wq)) = gauge (fst wq)"
proof -
  obtain w q where wq: "wq = (w, q)" by (cases wq)
  let ?w = "w\<lparr>w_metrics := map_option WorkerStarted (w_metrics w)\<rparr>"
  obtain w' q' where r: "worker_rounds S B Q opts evs (?w, q) = (w', q')" by (metis surj_pair)
  have "gauge w' = gauge ?w" using gauge_rounds [of S B Q opts evs "(?w, q)"] r by simp
  moreover have "fst (worker S B Q opts evs wq)
      = w'\<lparr>w_metrics := map_option WorkerStopped (w_metrics w')\<rparr>"
    by (simp add: worker_def wq r)
  ultimately show ?thesis
    by (cases "w_metrics w"; cases "w_metrics w'")
      (simp_all add: wq gauge_def WorkerStarted_def WorkerStopped_def)
qed

end
