(* ===== verification/System.thy ===== *)
theory System
  imports Api_Properties Worker_Properties
begin

text \<open>
  The whole service on the in-memory back-ends as a transition system: any number of request and
  worker goroutines that interleave between their accesses to the shared store, queue and blobs.
  A handler or worker is cut at those accesses, each of which is atomic in the code (a mutex, a
  channel operation); \<open>MemoryStorage.Cancel\<close> is a locked read and a locked write and is cut between
  them. The composition lemmas show that the pieces of a goroutine that runs alone add up to the
  operations of the component theories.
\<close>

section \<open>Shared state and goroutines\<close>

text \<open>What a request is answered.\<close>

datatype answer =
    Accepted string
  | Replayed string
  | QueueFull string
  | NotFound string
  | StatusIs string JobStatus

text \<open>\<open>g_used\<close> holds the job ids drawn so far: \<open>uuid.New\<close> is assumed never to repeat one.\<close>

record shared =
  g_store :: mem_storage
  g_queue :: mem_queue
  g_blobs :: mem_blobs
  g_used :: "string list"
  g_answers :: "answer list"

record submission =
  sub_url :: string
  sub_key :: string
  sub_cb :: string
  sub_rid :: string
  sub_id :: string
  sub_now :: time

text \<open>Where a goroutine stands, with its local variables: what it will do next.\<close>

datatype pc =
    SReserve submission | SSet submission | SPush submission | SDelete submission
  | CGet string | CSet string job_result
  | WPop | WBlocked | WGet job | WSetProcessing job | WRender job
  | WCheck job "bytes result" | WPut job bytes | WSetCompleted job bytes
  | WSetFailed job string
  | Done

definition sub_job :: "submission \<Rightarrow> job" where
  "sub_job u = submitted_job (sub_id u) (sub_url u) (sub_key u) (sub_cb u) (sub_rid u)"

definition sub_record :: "submission \<Rightarrow> job_result" where
  "sub_record u = pending_record (sub_now u) (sub_url u) (sub_key u) (sub_cb u) (sub_rid u)"

abbreviation answer :: "answer \<Rightarrow> shared \<Rightarrow> shared" where
  "answer x g \<equiv> g\<lparr>g_answers := g_answers g @ [x]\<rparr>"

text \<open>
  One atomic step of a goroutine, by what the goroutine runs; \<open>None\<close>: it is blocked or has ended.
  First \<open>SubmitJob\<close> after its checks: reserve the key, store the pending record, push, and take
  the record back when the queue is full.
\<close>

fun submit_step :: "time \<Rightarrow> pc \<Rightarrow> shared \<Rightarrow> (pc \<times> shared) option" where
  "submit_step now (SReserve u) g =
     (case mem_ReserveIdempotencyKey (sub_key u) (sub_id u) (g_store g) of
        (s, Inl e) \<Rightarrow> Some (Done, g\<lparr>g_store := s\<rparr>)
      | (s, Inr (i, reserved)) \<Rightarrow>
          if reserved then Some (SSet u, g\<lparr>g_store := s\<rparr>)
          else Some (Done, answer (Replayed i) (g\<lparr>g_store := s\<rparr>)))"
| "submit_step now (SSet u) g =
     Some (SPush u, g\<lparr>g_store := fst (mem_Set now (sub_id u) (sub_record u) (g_store g))\<rparr>)"
| "submit_step now (SPush u) g =
     (case mq_Push (sub_job u) (g_queue g) of
        (q, None) \<Rightarrow> Some (Done, answer (Accepted (sub_id u)) (g\<lparr>g_queue := q\<rparr>))
      | (q, Some e) \<Rightarrow> Some (SDelete u, g\<lparr>g_queue := q\<rparr>))"
| "submit_step now (SDelete u) g =
     Some (Done, answer (QueueFull (sub_id u))
                   (g\<lparr>g_store := fst (mem_Delete (sub_id u) (g_store g))\<rparr>))"
| "submit_step now _ g = None"

text \<open>\<open>MemoryStorage.Cancel\<close>: the locked \<open>Get\<close>, then the locked \<open>Set\<close>.\<close>

fun cancel_step :: "time \<Rightarrow> pc \<Rightarrow> shared \<Rightarrow> (pc \<times> shared) option" where
  "cancel_step now (CGet i) g =
     (case mem_Get i (g_store g) of
        (s, Inl e) \<Rightarrow> Some (Done, answer (NotFound i) (g\<lparr>g_store := s\<rparr>))
      | (s, Inr r) \<Rightarrow>
          if terminal (Status r) then Some (Done, answer (StatusIs i (Status r)) (g\<lparr>g_store := s\<rparr>))
          else Some (CSet i (mark_canceled r), g\<lparr>g_store := s\<rparr>))"
| "cancel_step now (CSet i r) g =
     Some (Done, answer (StatusIs i (Status r)) (g\<lparr>g_store := fst (mem_Set now i r (g_store g))\<rparr>))"
| "cancel_step now _ g = None"

text \<open>
  The worker loop with \<open>processJob\<close>: pop, read, set processing, render, read again, store the PDF,
  set the final record; \<open>rendered\<close> is what \<open>generateWithRetries\<close> returns.
\<close>

fun worker_step :: "bytes result \<Rightarrow> time \<Rightarrow> pc \<Rightarrow> shared \<Rightarrow> (pc \<times> shared) option" where
  "worker_step rendered now WPop g =
     (case mq_Pop False False (g_queue g) of
        (q, PopReturns (Inr j)) \<Rightarrow> Some (WGet j, g\<lparr>g_queue := q\<rparr>)
      | (q, PopReturns (Inl e)) \<Rightarrow> Some (WPop, g\<lparr>g_queue := q\<rparr>)
      | (q, PopBlocks) \<Rightarrow> Some (WBlocked, g\<lparr>g_queue := q\<rparr>))"
| "worker_step rendered now WBlocked g =
     (case mq_Pop_resume (g_queue g) of
        (q, PopReturns (Inr j)) \<Rightarrow> Some (WGet j, g\<lparr>g_queue := q\<rparr>)
      | _ \<Rightarrow> None)"
| "worker_step rendered now (WGet j) g =
     (case mem_Get (ID j) (g_store g) of (s, r) \<Rightarrow>
        Some (if is_canceled r then WPop else WSetProcessing j, g\<lparr>g_store := s\<rparr>))"
| "worker_step rendered now (WSetProcessing j) g =
     Some (WRender j, g\<lparr>g_store := fst (mem_Set now (ID j) (job_record j StatusProcessing) (g_store g))\<rparr>)"
| "worker_step rendered now (WRender j) g = Some (WCheck j rendered, g)"
| "worker_step rendered now (WCheck j out) g =
     (case mem_Get (ID j) (g_store g) of (s, r) \<Rightarrow>
        Some (if is_canceled r then WPop
              else (case out of Inr pdf \<Rightarrow> WPut j pdf | Inl e \<Rightarrow> WSetFailed j (error_text e)),
              g\<lparr>g_store := s\<rparr>))"
| "worker_step rendered now (WPut j pdf) g =
     (case mb_Put (pdf_key j) pdf (g_blobs g) of
        (b, None) \<Rightarrow> Some (WSetCompleted j pdf, g\<lparr>g_blobs := b\<rparr>)
      | (b, Some e) \<Rightarrow> Some (WSetFailed j (error_text e), g\<lparr>g_blobs := b\<rparr>))"
| "worker_step rendered now (WSetCompleted j pdf) g =
     Some (WPop, g\<lparr>g_store := fst (mem_Set now (ID j)
        ((job_record j StatusCompleted)\<lparr>PDFKey := pdf_key j, PDFSize := int (length pdf)\<rparr>) (g_store g))\<rparr>)"
| "worker_step rendered now (WSetFailed j msg) g =
     Some (WPop, g\<lparr>g_store := fst (mem_Set now (ID j)
        ((job_record j StatusFailed)\<lparr>Error := msg\<rparr>) (g_store g))\<rparr>)"
| "worker_step rendered now _ g = None"

fun pc_step :: "bytes result \<Rightarrow> time \<Rightarrow> pc \<Rightarrow> shared \<Rightarrow> (pc \<times> shared) option" where
  "pc_step rendered now (SReserve u) g = submit_step now (SReserve u) g"
| "pc_step rendered now (SSet u) g = submit_step now (SSet u) g"
| "pc_step rendered now (SPush u) g = submit_step now (SPush u) g"
| "pc_step rendered now (SDelete u) g = submit_step now (SDelete u) g"
| "pc_step rendered now (CGet i) g = cancel_step now (CGet i) g"
| "pc_step rendered now (CSet i r) g = cancel_step now (CSet i r) g"
| "pc_step rendered now WPop g = worker_step rendered now WPop g"
| "pc_step rendered now WBlocked g = worker_step rendered now WBlocked g"
| "pc_step rendered now (WGet j) g = worker_step rendered now (WGet j) g"
| "pc_step rendered now (WSetProcessing j) g = worker_step rendered now (WSetProcessing j) g"
| "pc_step rendered now (WRender j) g = worker_step rendered now (WRender j) g"
| "pc_step rendered now (WCheck j out) g = worker_step rendered now (WCheck j out) g"
| "pc_step rendered now (WPut j pdf) g = worker_step rendered now (WPut j pdf) g"
| "pc_step rendered now (WSetCompleted j pdf) g = worker_step rendered now (WSetCompleted j pdf) g"
| "pc_step rendered now (WSetFailed j msg) g = worker_step rendered now (WSetFailed j msg) g"
| "pc_step rendered now Done g = None"

text \<open>
  The system: goroutines by number. A new request brings a submission with an unused id, a cancel
  for any id; a new worker starts popping.
\<close>

type_synonym procs = "nat \<Rightarrow> pc option"

inductive sys_step :: "procs \<times> shared \<Rightarrow> procs \<times> shared \<Rightarrow> bool" where
  new_submission: "P p = None \<Longrightarrow> sub_id u \<notin> set (g_used g) \<Longrightarrow> sub_now u \<noteq> 0 \<Longrightarrow>
     sys_step (P, g) (P(p \<mapsto> SReserve u), g\<lparr>g_used := sub_id u # g_used g\<rparr>)"
| new_cancel: "P p = None \<Longrightarrow> sys_step (P, g) (P(p \<mapsto> CGet i), g)"
| new_worker: "P p = None \<Longrightarrow> sys_step (P, g) (P(p \<mapsto> WPop), g)"
| run: "P p = Some c \<Longrightarrow> now \<noteq> 0 \<Longrightarrow> pc_step rendered now c g = Some (c', g') \<Longrightarrow>
     sys_step (P, g) (P(p \<mapsto> c'), g')"

definition sys_init :: "mem_queue \<Rightarrow> procs \<times> shared" where
  "sys_init q = (\<lambda>_. None, \<lparr>g_store = NewMemoryStorage, g_queue = q, g_blobs = NewMemoryStore,
     g_used = [], g_answers = []\<rparr>)"

definition reachable :: "procs \<times> shared \<Rightarrow> bool" where
  "reachable \<sigma> \<longleftrightarrow> (\<exists>n q. NewMemoryQueue n = Some q \<and> sys_step\<^sup>*\<^sup>* (sys_init q) \<sigma>)"

inductive_cases sys_stepE: "sys_step (P, g) \<sigma>'"

section \<open>Ownership of jobs\<close>

text \<open>The job a request or a worker is busy with; nobody else may be busy with it.\<close>

fun sub_owner :: "pc \<Rightarrow> string option" where
  "sub_owner (SReserve u) = Some (sub_id u)"
| "sub_owner (SSet u) = Some (sub_id u)"
| "sub_owner (SPush u) = Some (sub_id u)"
| "sub_owner (SDelete u) = Some (sub_id u)"
| "sub_owner _ = None"

fun worker_owner :: "pc \<Rightarrow> string option" where
  "worker_owner (WGet j) = Some (ID j)"
| "worker_owner (WSetProcessing j) = Some (ID j)"
| "worker_owner (WRender j) = Some (ID j)"
| "worker_owner (WCheck j r) = Some (ID j)"
| "worker_owner (WPut j pdf) = Some (ID j)"
| "worker_owner (WSetCompleted j pdf) = Some (ID j)"
| "worker_owner (WSetFailed j msg) = Some (ID j)"
| "worker_owner _ = None"

definition owner :: "pc \<Rightarrow> string option" where
  "owner c = (case sub_owner c of Some i \<Rightarrow> Some i | None \<Rightarrow> worker_owner c)"

definition held :: "(pc \<Rightarrow> string option) \<Rightarrow> procs \<Rightarrow> string \<Rightarrow> bool" where
  "held f P i \<longleftrightarrow> (\<exists>p c. P p = Some c \<and> f c = Some i)"

definition single_owner :: "procs \<Rightarrow> bool" where
  "single_owner P \<longleftrightarrow> (\<forall>p p' c c' i. P p = Some c \<longrightarrow> P p' = Some c' \<longrightarrow>
     owner c = Some i \<longrightarrow> owner c' = Some i \<longrightarrow> p = p')"

lemma owner_simps [simp]:
  "owner (SReserve u) = Some (sub_id u)" "owner (SSet u) = Some (sub_id u)"
  "owner (SPush u) = Some (sub_id u)" "owner (SDelete u) = Some (sub_id u)"
  "owner (CGet i) = None" "owner (CSet i r) = None" "owner WPop = None" "owner WBlocked = None"
  "owner (WGet j) = Some (ID j)" "owner (WSetProcessing j) = Some (ID j)"
  "owner (WRender j) = Some (ID j)" "owner (WCheck j out) = Some (ID j)"
  "owner (WPut j pdf) = Some (ID j)" "owner (WSetCompleted j pdf) = Some (ID j)"
  "owner (WSetFailed j msg) = Some (ID j)" "owner Done = None"
  by (simp_all add: owner_def)

lemma owner_split: "owner c = Some i \<longleftrightarrow> sub_owner c = Some i \<or> worker_owner c = Some i"
  by (cases c) auto

lemma held_owner: "held owner P i \<longleftrightarrow> held sub_owner P i \<or> held worker_owner P i"
  by (auto simp: held_def owner_split)

text \<open>What a step of goroutine \<open>p\<close> does to who holds what.\<close>

lemma held_update:
  assumes "P p = Some c" and "single_owner P"
    and f: "\<And>c i. f c = Some i \<Longrightarrow> owner c = Some i"
  shows "held f (P(p \<mapsto> c')) i \<longleftrightarrow> f c' = Some i \<or> held f P i \<and> owner c \<noteq> Some i"
proof -
  have "p' = p" if "P p' = Some d" "f d = Some i" "owner c = Some i" for p' d
    using that assms f unfolding single_owner_def by blast
  then show ?thesis using assms(1) f unfolding held_def by (auto split: if_splits) (metis option.inject)
qed

lemma held_new:
  assumes "P p = None"
  shows "held f (P(p \<mapsto> c')) i \<longleftrightarrow> f c' = Some i \<or> held f P i"
  using assms unfolding held_def by (auto split: if_splits) (metis option.distinct(1))

lemma held_cong:
  assumes "P p = Some c" and "f c' = f c"
  shows "held f (P(p \<mapsto> c')) i = held f P i"
  using assms unfolding held_def by (auto split: if_splits) (metis option.inject)+

lemma held_same:
  assumes "single_owner P" and "P p = Some c" and "owner c = Some i" and "held f P i"
    and f: "\<And>c i. f c = Some i \<Longrightarrow> owner c = Some i"
  shows "f c = Some i"
  using assms unfolding held_def single_owner_def by (metis option.inject)

lemma single_owner_update:
  assumes "single_owner P" and "P p = Some c"
    and "\<And>i. owner c' = Some i \<Longrightarrow> owner c = Some i \<or> \<not> held owner P i"
  shows "single_owner (P(p \<mapsto> c'))"
  using assms unfolding single_owner_def held_def by (auto split: if_splits)

lemma single_owner_new:
  assumes "single_owner P" and "P p = None" and "\<And>i. owner c' = Some i \<Longrightarrow> \<not> held owner P i"
  shows "single_owner (P(p \<mapsto> c'))"
  using assms unfolding single_owner_def held_def by (auto split: if_splits)

lemma pdf_key_inject [simp]: "pdf_key j = pdf_key j' \<longleftrightarrow> ID j = ID j'"
  by (simp add: pdf_key_def)


section \<open>Invariant\<close>

definition unfinished :: "job_result \<Rightarrow> bool" where
  "unfinished r \<longleftrightarrow> Status r \<noteq> StatusCompleted \<and> Status r \<noteq> StatusFailed"

text \<open>A completed record names the job's PDF, which is stored with the size it says.\<close>

definition pdf_ok :: "(string \<rightharpoonup> bytes) \<Rightarrow> string \<Rightarrow> job_result \<Rightarrow> bool" where
  "pdf_ok B i r \<longleftrightarrow> (Status r = StatusCompleted \<longrightarrow>
     (\<exists>pdf. PDFKey r = ''pdf/'' @ i @ ''.pdf'' \<and> B (PDFKey r) = Some pdf \<and> PDFSize r = int (length pdf)))"

text \<open>What each goroutine's local variables promise.\<close>

fun pc_ok :: "jobs_view \<Rightarrow> (string \<rightharpoonup> bytes) \<Rightarrow> string list \<Rightarrow> pc \<Rightarrow> bool" where
  "pc_ok V B U (CSet i r) = (Status r = StatusCanceled \<and> i \<in> set U)"
| "pc_ok V B U (SPush u) = (V (sub_id u) \<noteq> None)"
| "pc_ok V B U (SSet u) = (sub_now u \<noteq> 0)"
| "pc_ok V B U (SReserve u) = (sub_now u \<noteq> 0)"
| "pc_ok V B U (WSetCompleted j pdf) = (B (pdf_key j) = Some pdf)"
| "pc_ok V B U _ = True"

definition jobs_inv ::
    "procs \<Rightarrow> jobs_view \<Rightarrow> (string \<rightharpoonup> bytes) \<Rightarrow> string list \<Rightarrow> string list \<Rightarrow> answer list \<Rightarrow> bool" where
  "jobs_inv P V B Q U A \<longleftrightarrow>
     distinct Q \<and> single_owner P
   \<and> (\<forall>i. held owner P i \<longrightarrow> i \<notin> set Q \<and> i \<in> set U)
   \<and> (\<forall>i. i \<in> set Q \<or> V i \<noteq> None \<or> Accepted i \<in> set A \<longrightarrow> i \<in> set U)
   \<and> (\<forall>p c. P p = Some c \<longrightarrow> pc_ok V B U c)
   \<and> (\<forall>i r. V i = Some r \<longrightarrow> pdf_ok B i r \<and> (i \<in> set Q \<or> held owner P i \<longrightarrow> unfinished r))
   \<and> (\<forall>i. Accepted i \<in> set A \<longrightarrow> \<not> held sub_owner P i
        \<and> (\<exists>r. V i = Some r \<and> (terminal (Status r) \<or> i \<in> set Q \<or> held worker_owner P i)))"

definition sys_inv :: "procs \<times> shared \<Rightarrow> bool" where
  "sys_inv \<sigma> \<longleftrightarrow> (case \<sigma> of (P, g) \<Rightarrow>
     ms_wf (g_store g) \<and> mq_wf (g_queue g)
     \<and> jobs_inv P (ms_view (g_store g)) (map_of (g_blobs g)) (map ID (mq_pending (g_queue g)))
         (g_used g) (g_answers g))"

lemma jobs_invD:
  assumes "jobs_inv P V B Q U A"
  shows "distinct Q" "single_owner P"
    "\<And>i. held owner P i \<Longrightarrow> i \<notin> set Q" "\<And>i. held owner P i \<Longrightarrow> i \<in> set U"
    "\<And>i. i \<in> set Q \<Longrightarrow> i \<in> set U" "\<And>i r. V i = Some r \<Longrightarrow> i \<in> set U"
    "\<And>i. Accepted i \<in> set A \<Longrightarrow> i \<in> set U"
    "\<And>p c. P p = Some c \<Longrightarrow> pc_ok V B U c"
    "\<And>i r. V i = Some r \<Longrightarrow> pdf_ok B i r"
    "\<And>i r. V i = Some r \<Longrightarrow> i \<in> set Q \<or> held owner P i \<Longrightarrow> unfinished r"
    "\<And>i. Accepted i \<in> set A \<Longrightarrow> \<not> held sub_owner P i"
    "\<And>i. Accepted i \<in> set A \<Longrightarrow>
       \<exists>r. V i = Some r \<and> (terminal (Status r) \<or> i \<in> set Q \<or> held worker_owner P i)"
  using assms unfolding jobs_inv_def by blast+

lemma jobs_invI:
  assumes "distinct Q" "single_owner P"
    "\<And>i. held owner P i \<Longrightarrow> i \<notin> set Q \<and> i \<in> set U"
    "\<And>i. i \<in> set Q \<Longrightarrow> i \<in> set U" "\<And>i r. V i = Some r \<Longrightarrow> i \<in> set U"
    "\<And>i. Accepted i \<in> set A \<Longrightarrow> i \<in> set U"
    "\<And>p c. P p = Some c \<Longrightarrow> pc_ok V B U c"
    "\<And>i r. V i = Some r \<Longrightarrow> pdf_ok B i r"
    "\<And>i r. V i = Some r \<Longrightarrow> i \<in> set Q \<or> held owner P i \<Longrightarrow> unfinished r"
    "\<And>i. Accepted i \<in> set A \<Longrightarrow> \<not> held sub_owner P i"
    "\<And>i. Accepted i \<in> set A \<Longrightarrow>
       \<exists>r. V i = Some r \<and> (terminal (Status r) \<or> i \<in> set Q \<or> held worker_owner P i)"
  shows "jobs_inv P V B Q U A"
  unfolding jobs_inv_def using assms by blast

lemma held_of:
  "P p = Some c \<Longrightarrow> owner c = Some i \<Longrightarrow> held owner P i"
  "P p = Some c \<Longrightarrow> sub_owner c = Some i \<Longrightarrow> held sub_owner P i"
  "P p = Some c \<Longrightarrow> worker_owner c = Some i \<Longrightarrow> held worker_owner P i"
  by (auto simp: held_def)

text \<open>
  Four shapes of step cover all of them: a goroutine moves on and keeps or drops its job; it drops
  into or takes from the queue; the owner writes the record of its job; a cancel writes one.
\<close>

lemma inv_move:
  assumes inv: "jobs_inv P V B Q U A" and p: "P p = Some c"
    and same: "sub_owner c' = sub_owner c" "worker_owner c' = worker_owner c" and ok: "pc_ok V B U c'"
  shows "jobs_inv (P(p \<mapsto> c')) V B Q U A"
proof -
  note I = jobs_invD [OF inv]
  have own: "owner c' = owner c" unfolding owner_def same ..
  have h: "held owner (P(p \<mapsto> c')) i = held owner P i" "held sub_owner (P(p \<mapsto> c')) i = held sub_owner P i"
    "held worker_owner (P(p \<mapsto> c')) i = held worker_owner P i" for i
    using p same own by (simp_all add: held_cong)
  have "single_owner (P(p \<mapsto> c'))" by (rule single_owner_update [OF I(2) p]) (simp add: own)
  then show ?thesis unfolding jobs_inv_def h using inv ok
    unfolding jobs_inv_def by (auto split: if_splits)
qed

lemma inv_answer:
  "jobs_inv P V B Q U A \<Longrightarrow> \<forall>i. x \<noteq> Accepted i \<Longrightarrow> jobs_inv P V B Q U (A @ [x])"
  unfolding jobs_inv_def by auto

lemma inv_drop:
  assumes inv: "jobs_inv P V B Q U A" and p: "P p = Some c"
    and none: "owner c' = None" and ok: "pc_ok V B U c'"
    and fin: "\<And>i r. worker_owner c = Some i \<Longrightarrow> V i = Some r \<Longrightarrow> terminal (Status r)"
  shows "jobs_inv (P(p \<mapsto> c')) V B Q U A"
proof -
  note I = jobs_invD [OF inv]
  have none': "sub_owner c' = None" "worker_owner c' = None" using none by (auto simp: owner_def split: option.splits)
  have h: "held f (P(p \<mapsto> c')) i \<Longrightarrow> held f P i" if "f = owner \<or> f = sub_owner \<or> f = worker_owner" for f i
    using held_update [OF p I(2), of f c' i] that none none' by (auto simp: owner_split)
  have w: "held worker_owner (P(p \<mapsto> c')) i \<or> terminal (Status r)"
    if "held worker_owner P i" "V i = Some r" for i r
    using held_update [OF p I(2), of worker_owner c' i] that fin [of i r]
      held_same [OF I(2) p, of i worker_owner] by (auto simp: owner_split)
  show ?thesis
  proof (rule jobs_invI)
    show "single_owner (P(p \<mapsto> c'))" by (rule single_owner_update [OF I(2) p]) (simp add: none)
    show "pc_ok V B U d" if "(P(p \<mapsto> c')) p' = Some d" for p' d
      using that ok I(8) by (auto split: if_splits)
    show "\<exists>r. V i = Some r \<and> (terminal (Status r) \<or> i \<in> set Q \<or> held worker_owner (P(p \<mapsto> c')) i)"
      if "Accepted i \<in> set A" for i
      using I(12) [OF that] w by blast
  qed (use I h in blast)+
qed

lemma inv_write:
  assumes inv: "jobs_inv P V B Q U A" and i: "i \<in> set U" and pdf: "pdf_ok B i r"
    and unf: "i \<in> set Q \<or> held owner P i \<Longrightarrow> unfinished r"
    and trm: "terminal (Status r) \<or> i \<in> set Q \<or> held worker_owner P i \<or> Accepted i \<notin> set A"
  shows "jobs_inv P (V(i \<mapsto> r)) B Q U A"
proof -
  note I = jobs_invD [OF inv]
  have ok: "pc_ok (V(i \<mapsto> r)) B U c" if "pc_ok V B U c" for c
    using that by (cases c) auto
  show ?thesis
  proof (rule jobs_invI)
    show "\<exists>q. (V(i \<mapsto> r)) k = Some q
        \<and> (terminal (Status q) \<or> k \<in> set Q \<or> held worker_owner P k)" if "Accepted k \<in> set A" for k
      using I(12) [OF that] trm that by (cases "k = i") auto
    show "unfinished q" if "(V(i \<mapsto> r)) k = Some q" "k \<in> set Q \<or> held owner P k" for k q
      using that I(10) unf by (auto split: if_splits)
    show "pdf_ok B k q" if "(V(i \<mapsto> r)) k = Some q" for k q
      using that I(9) pdf by (auto split: if_splits)
    show "k \<in> set U" if "(V(i \<mapsto> r)) k = Some q" for k q
      using that I(6) i by (auto split: if_splits)
  qed (use I ok in blast)+
qed

lemma inv_finish:
  assumes inv: "jobs_inv P V B Q U A" and p: "P p = Some c" and i: "worker_owner c = Some i"
    and none: "owner c' = None" and ok: "\<And>V. pc_ok V B U c'"
    and pdf: "pdf_ok B i r" and fin: "terminal (Status r)"
  shows "jobs_inv (P(p \<mapsto> c')) (V(i \<mapsto> r)) B Q U A"
proof -
  note I = jobs_invD [OF inv]
  let ?mid = "V(i \<mapsto> mark_canceled r)"
  have "i \<in> set U" using I(4) held_of(1) [of P p c] p i by (simp add: owner_split)
  moreover have "unfinished (mark_canceled r)" "pdf_ok B i (mark_canceled r)"
    by (simp_all add: unfinished_def pdf_ok_def)
  ultimately have "jobs_inv P ?mid B Q U A" by (intro inv_write [OF inv]) simp_all
  then have mid: "jobs_inv (P(p \<mapsto> c')) ?mid B Q U A"
    by (rule inv_drop [where P = P and p = p and c = c and c' = c']) (use p none ok i in auto)
  have own: "held owner P i" using held_of(1) [of P p c] p i by (simp add: owner_split)
  then have "i \<notin> set Q" using I(3) by blast
  moreover have "\<not> held owner (P(p \<mapsto> c')) i"
    using held_update [OF p I(2), of owner c' i] none i by (simp add: owner_split)
  ultimately have "jobs_inv (P(p \<mapsto> c')) (?mid(i \<mapsto> r)) B Q U A"
    using fin pdf I(4) [OF own] by (intro inv_write [OF mid]) auto
  then show ?thesis by simp
qed


lemma inv_accept:
  assumes inv: "jobs_inv P V B Q U A" and p: "P p = Some (SPush u)"
  shows "jobs_inv (P(p \<mapsto> Done)) V B (Q @ [sub_id u]) U (A @ [Accepted (sub_id u)])"
proof -
  note I = jobs_invD [OF inv]
  let ?i = "sub_id u" and ?P = "P(p \<mapsto> Done)"
  have own: "held owner P ?i" using p by (force simp: held_def)
  obtain r where r: "V ?i = Some r" using I(8) [OF p] by auto
  have gone: "\<not> held owner ?P ?i" using held_update [OF p I(2), of owner Done ?i] by simp
  have less: "held f ?P k \<Longrightarrow> held f P k" if "f = owner \<or> f = sub_owner \<or> f = worker_owner" for f k
    using held_update [OF p I(2), of f Done k] that by (auto simp: owner_split)
  have w: "held worker_owner ?P k" if "held worker_owner P k" for k
    using held_cong [of P p "SPush u" worker_owner Done k] p that by simp
  show ?thesis
  proof (rule jobs_invI)
    show "single_owner ?P" by (rule single_owner_update [OF I(2) p]) simp
    show "pc_ok V B U d" if "?P p' = Some d" for p' d using that I(8) by (auto split: if_splits)
    show "\<exists>r. V k = Some r \<and> (terminal (Status r) \<or> k \<in> set (Q @ [?i]) \<or> held worker_owner ?P k)"
      if "Accepted k \<in> set (A @ [Accepted ?i])" for k
      using that I(12) [of k] r w [of k] by auto
    show "\<not> held sub_owner ?P k" if "Accepted k \<in> set (A @ [Accepted ?i])" for k
      using that I(11) less gone by (auto simp: held_owner)
    show "unfinished q" if "V k = Some q" "k \<in> set (Q @ [?i]) \<or> held owner ?P k" for k q
      using that I(10) own less by auto
    show "held owner ?P k \<Longrightarrow> k \<notin> set (Q @ [?i]) \<and> k \<in> set U" for k
      using I(3,4) less gone by auto
  qed (use I own in \<open>auto\<close>)
qed

lemma inv_delete:
  assumes inv: "jobs_inv P V B Q U A" and p: "P p = Some (SDelete u)"
  shows "jobs_inv (P(p \<mapsto> Done)) (V(sub_id u := None)) B Q U A"
proof -
  note I = jobs_invD [OF inv]
  let ?i = "sub_id u" and ?P = "P(p \<mapsto> Done)"
  have own: "held owner P ?i" "held sub_owner P ?i" using p by (force simp: held_def)+
  have less: "held f ?P k \<Longrightarrow> held f P k" if "f = owner \<or> f = sub_owner \<or> f = worker_owner" for f k
    using held_update [OF p I(2), of f Done k] that by (auto simp: owner_split)
  have w: "held worker_owner ?P k" if "held worker_owner P k" for k
    using held_cong [of P p "SDelete u" worker_owner Done k] p that by simp
  have other: "sub_id u' \<noteq> ?i" if "P p' = Some (SPush u')" for p' u'
    using that p I(2) unfolding single_owner_def by fastforce
  show ?thesis
  proof (rule jobs_invI)
    show "single_owner ?P" by (rule single_owner_update [OF I(2) p]) simp
    show "pc_ok (V(?i := None)) B U d" if d: "?P p' = Some d" for p' d
    proof (cases "p' = p")
      case False
      then have d': "P p' = Some d" using d by simp
      then show ?thesis using I(8) [OF d'] other by (cases d) auto
    qed (use d in auto)
    show "\<exists>r. (V(?i := None)) k = Some r \<and> (terminal (Status r) \<or> k \<in> set Q \<or> held worker_owner ?P k)"
      if "Accepted k \<in> set A" for k
      using I(11) [OF that] I(12) [OF that] own(2) w [of k] by (cases "k = ?i") auto
    show "unfinished q" if "(V(?i := None)) k = Some q" "k \<in> set Q \<or> held owner ?P k" for k q
      using that I(10) less by (auto split: if_splits)
    show "pdf_ok B k q" if "(V(?i := None)) k = Some q" for k q
      using that I(9) by (auto split: if_splits)
    show "k \<in> set U" if "(V(?i := None)) k = Some q" for k q
      using that I(6) by (auto split: if_splits)
    show "\<not> held sub_owner ?P k" if "Accepted k \<in> set A" for k using I(11) [OF that] less by blast
    show "held owner ?P k \<Longrightarrow> k \<notin> set Q \<and> k \<in> set U" for k using I(3,4) less by blast
  qed (use I in blast)+
qed

lemma inv_take:
  assumes inv: "jobs_inv P V B (ID j # Q) U A" and p: "P p = Some c" and c: "owner c = None"
  shows "jobs_inv (P(p \<mapsto> WGet j)) V B Q U A"
proof -
  note I = jobs_invD [OF inv]
  let ?P = "P(p \<mapsto> WGet j)"
  have none: "sub_owner c = None" "worker_owner c = None"
    using c by (auto simp: owner_def split: option.splits)
  have ho: "held owner ?P k \<longleftrightarrow> k = ID j \<or> held owner P k" for k
    using held_update [OF p I(2), of owner "WGet j" k] c by auto
  have hs: "held sub_owner ?P k \<longleftrightarrow> held sub_owner P k" for k
    using held_update [OF p I(2), of sub_owner "WGet j" k] c by (auto simp: owner_split)
  have hw: "held worker_owner ?P k \<longleftrightarrow> k = ID j \<or> held worker_owner P k" for k
    using held_update [OF p I(2), of worker_owner "WGet j" k] c by (auto simp: owner_split)
  have free: "\<not> held owner P (ID j)" using I(3) by auto
  show ?thesis
  proof (rule jobs_invI)
    show "single_owner ?P" by (rule single_owner_update [OF I(2) p]) (use free in auto)
    show "pc_ok V B U d" if "?P p' = Some d" for p' d using that I(8) by (auto split: if_splits)
    show "\<exists>r. V k = Some r \<and> (terminal (Status r) \<or> k \<in> set Q \<or> held worker_owner ?P k)"
      if "Accepted k \<in> set A" for k
      using I(12) [OF that] hw by auto
    show "unfinished q" if "V k = Some q" "k \<in> set Q \<or> held owner ?P k" for k q
      using that I(10) ho by auto
    show "held owner ?P k \<Longrightarrow> k \<notin> set Q \<and> k \<in> set U" for k
      using I(1,3,4,5) ho by auto
    show "\<not> held sub_owner ?P k" if "Accepted k \<in> set A" for k using I(11) [OF that] hs by blast
  qed (use I in auto)
qed

lemma inv_blob:
  assumes inv: "jobs_inv P V B Q U A" and p: "P p = Some (WPut j pdf)"
  shows "jobs_inv (P(p \<mapsto> WSetCompleted j pdf)) V (B(pdf_key j \<mapsto> pdf)) Q U A"
proof -
  note I = jobs_invD [OF inv]
  let ?B = "B(pdf_key j \<mapsto> pdf)"
  have own: "held owner P (ID j)" using p by (force simp: held_def)
  have other: "ID j' \<noteq> ID j" if "P p' = Some (WSetCompleted j' pdf')" for p' j' pdf'
    using that p I(2) unfolding single_owner_def by fastforce
  have "jobs_inv P V ?B Q U A"
  proof (rule jobs_invI)
    show "pc_ok V ?B U d" if "P p' = Some d" for p' d
      using I(8) [OF that] that other by (cases d) auto
    show "pdf_ok ?B k q" if "V k = Some q" for k q
    proof (cases "k = ID j")
      case True
      then show ?thesis using I(10) that own by (auto simp: unfinished_def pdf_ok_def)
    next
      case False
      then have "''pdf/'' @ k @ ''.pdf'' \<noteq> pdf_key j" by (simp add: pdf_key_def)
      then show ?thesis using I(9) [OF that] by (auto simp: pdf_ok_def)
    qed
  qed (use I in blast)+
  then show ?thesis by (rule inv_move [where P = P and p = p and c = "WPut j pdf"]) (use p in simp_all)
qed

lemma inv_new:
  assumes inv: "jobs_inv P V B Q U A" and p: "P p = None" and none: "owner c' = None"
    and ok: "pc_ok V B U c'"
  shows "jobs_inv (P(p \<mapsto> c')) V B Q U A"
proof -
  note I = jobs_invD [OF inv]
  have none': "sub_owner c' = None" "worker_owner c' = None"
    using none by (auto simp: owner_def split: option.splits)
  have h: "held owner (P(p \<mapsto> c')) k = held owner P k" "held sub_owner (P(p \<mapsto> c')) k = held sub_owner P k"
    "held worker_owner (P(p \<mapsto> c')) k = held worker_owner P k" for k
    using held_new [of P p, OF p, of owner c' k] held_new [of P p, OF p, of sub_owner c' k]
      held_new [of P p, OF p, of worker_owner c' k] none none' by auto
  have "single_owner (P(p \<mapsto> c'))" by (rule single_owner_new [of P p, OF I(2) p]) (simp add: none)
  then show ?thesis unfolding jobs_inv_def h using inv ok
    unfolding jobs_inv_def by (auto split: if_splits)
qed

lemma inv_new_submission:
  assumes inv: "jobs_inv P V B Q U A" and p: "P p = None" and new: "sub_id u \<notin> set U"
    and t: "sub_now u \<noteq> 0"
  shows "jobs_inv (P(p \<mapsto> SReserve u)) V B Q (sub_id u # U) A"
proof -
  note I = jobs_invD [OF inv]
  let ?P = "P(p \<mapsto> SReserve u)"
  have h: "held owner ?P k \<longleftrightarrow> k = sub_id u \<or> held owner P k"
    "held sub_owner ?P k \<longleftrightarrow> k = sub_id u \<or> held sub_owner P k"
    "held worker_owner ?P k \<longleftrightarrow> held worker_owner P k" for k
    using held_new [of P p, OF p, of owner "SReserve u" k] held_new [of P p, OF p, of sub_owner "SReserve u" k]
      held_new [of P p, OF p, of worker_owner "SReserve u" k] by auto
  have ok: "pc_ok V B (sub_id u # U) d" if "pc_ok V B U d" for d using that by (cases d) auto
  show ?thesis
  proof (rule jobs_invI)
    show "single_owner ?P" by (rule single_owner_new [of P p, OF I(2) p]) (use new I(4) in auto)
    show "pc_ok V B (sub_id u # U) d" if "?P p' = Some d" for p' d
      using that ok I(8) t by (auto split: if_splits)
    show "unfinished q" if "V k = Some q" "k \<in> set Q \<or> held owner ?P k" for k q
      using that I(10) h(1) I(6) new by auto
    show "held owner ?P k \<Longrightarrow> k \<notin> set Q \<and> k \<in> set (sub_id u # U)" for k
      using I(3,4,5) new h(1) by auto
    show "\<not> held sub_owner ?P k" if "Accepted k \<in> set A" for k
      using I(11) [OF that] I(7) [OF that] h(2) [of k] new by auto
    show "\<exists>r. V k = Some r \<and> (terminal (Status r) \<or> k \<in> set Q \<or> held worker_owner ?P k)"
      if "Accepted k \<in> set A" for k
      using I(12) [OF that] h(3) by auto
  qed (use I in auto)
qed


lemma inv_perm:
  assumes "jobs_inv P V B Q U A" and "mset Q' = mset Q"
  shows "jobs_inv P V B Q' U A"
proof -
  have d: "distinct Q' = distinct Q" by (rule mset_eq_imp_distinct_iff [OF assms(2)])
  have s: "set Q' = set Q" by (rule mset_eq_setD [OF assms(2)])
  show ?thesis using assms(1) unfolding jobs_inv_def d s .
qed

text \<open>The invariant over the shared state, with the simplification rules of the back-ends.\<close>

lemma sys_invI:
  "ms_wf (g_store g) \<Longrightarrow> mq_wf (g_queue g) \<Longrightarrow>
     jobs_inv P (ms_view (g_store g)) (map_of (g_blobs g)) (map ID (mq_pending (g_queue g)))
       (g_used g) (g_answers g) \<Longrightarrow> sys_inv (P, g)"
  by (simp add: sys_inv_def)

lemma canceled_view:
  "is_canceled (snd (mem_Get i s)) \<longleftrightarrow> (\<exists>r. ms_view s i = Some r \<and> Status r = StatusCanceled)"
  by (auto simp: is_canceled_def mem_Get_def ms_view_def split: option.splits)

lemma merge_pdf_ok [simp]: "pdf_ok B i (merge_result now old r) = pdf_ok B i r"
  by (simp add: pdf_ok_def)

lemma merge_unfinished [simp]: "unfinished (merge_result now old r) = unfinished r"
  by (simp add: unfinished_def)

lemma spec_set_update: "spec_set now i r V = V(i \<mapsto> merge_result now (V i) r)"
  by (simp add: spec_set_def)

lemma unfinished_record [simp]:
  "unfinished (sub_record u)" "unfinished (job_record j StatusProcessing)"
  "Status (sub_record u) = StatusPending"
  "pdf_ok B i (sub_record u)" "pdf_ok B i (job_record j StatusProcessing)"
  by (simp_all add: unfinished_def pdf_ok_def sub_record_def job_record_def pending_record_def zero_result_def)

lemma mq_Pop_takes:
  assumes "mq_Pop False False q = (q', PopReturns (Inr j))"
  shows "mset (map ID (mq_pending q)) = mset (ID j # map ID (mq_pending q'))"
  using assms by (auto simp: mq_Pop_def mq_pending_def split: list.splits)

lemma mq_Pop_resume_takes:
  assumes "mq_Pop_resume q = (q', PopReturns (Inr j))"
  shows "mset (map ID (mq_pending q)) = mset (ID j # map ID (mq_pending q'))"
  using assms by (auto simp: mq_Pop_resume_def mq_pending_def split: list.splits)

lemma mq_Pop_waits:
  "mq_Pop False False q = (q', PopBlocks) \<Longrightarrow> mq_pending q' = mq_pending q"
  by (auto simp: mq_Pop_def mq_pending_def split: list.splits)

text \<open>Requests.\<close>

lemma submit_step_inv:
  assumes inv: "sys_inv (P, g)" and p: "P p = Some c" and now: "now \<noteq> 0"
    and step: "pc_step rendered now c g = Some (c', g')" and c: "sub_owner c \<noteq> None"
  shows "sys_inv (P(p \<mapsto> c'), g')"
proof -
  have wf: "ms_wf (g_store g)" "mq_wf (g_queue g)"
    and J: "jobs_inv P (ms_view (g_store g)) (map_of (g_blobs g)) (map ID (mq_pending (g_queue g)))
              (g_used g) (g_answers g)"
    using inv by (simp_all add: sys_inv_def)
  note move = inv_move [OF J, of p c c'] and drop = inv_drop [OF J, of p c c']
  have ok: "pc_ok (ms_view (g_store g)) (map_of (g_blobs g)) (g_used g) c" by (rule jobs_invD(8) [OF J p])
  show ?thesis
  proof (cases c)
    case (SReserve u)
    obtain s1 i fr where r: "mem_ReserveIdempotencyKey (sub_key u) (sub_id u) (g_store g) = (s1, Inr (i, fr))"
      using mem_Reserve_result [of "sub_key u" "sub_id u" "g_store g"] by (metis prod.collapse)
    then have s1: "s1 = fst (mem_ReserveIdempotencyKey (sub_key u) (sub_id u) (g_store g))" by simp
    have s: "ms_wf s1" "ms_view s1 = ms_view (g_store g)"
      using wf unfolding s1 by (simp_all add: wf_intros store_simps)
    show ?thesis
    proof (cases fr)
      case True
      then have "c' = SSet u" "g' = g\<lparr>g_store := s1\<rparr>" using step SReserve r by auto
      then show ?thesis using s wf move p SReserve ok by (intro sys_invI) simp_all
    next
      case False
      then have "c' = Done" "g' = answer (Replayed i) (g\<lparr>g_store := s1\<rparr>)" using step SReserve r by auto
      then show ?thesis using s wf drop p SReserve by (intro sys_invI) (simp_all add: inv_answer)
    qed
  next
    case (SSet u)
    let ?s = "fst (mem_Set now (sub_id u) (sub_record u) (g_store g))"
    have "c' = SPush u" "g' = g\<lparr>g_store := ?s\<rparr>" using step SSet by auto
    moreover have own: "held owner P (sub_id u)" "held sub_owner P (sub_id u)"
      using p SSet by (force simp: held_def)+
    have "jobs_inv P (spec_set now (sub_id u) (sub_record u) (ms_view (g_store g)))
        (map_of (g_blobs g)) (map ID (mq_pending (g_queue g))) (g_used g) (g_answers g)"
      unfolding spec_set_update
      by (rule inv_write [OF J]) (use own jobs_invD(4,11) [OF J] in auto)
    from inv_move [OF this, of p c c'] have "jobs_inv (P(p \<mapsto> SPush u))
        (spec_set now (sub_id u) (sub_record u) (ms_view (g_store g)))
        (map_of (g_blobs g)) (map ID (mq_pending (g_queue g))) (g_used g) (g_answers g)"
      using p SSet \<open>c' = SPush u\<close> by simp
    ultimately show ?thesis using wf now by (intro sys_invI) (simp_all add: store_simps wf_intros)
  next
    case (SPush u)
    obtain q e where push: "mq_Push (sub_job u) (g_queue g) = (q, e)" by (metis surj_pair)
    have q: "mq_wf q" using mq_Push_wf [OF wf(2), of "sub_job u"] push by simp
    have id: "ID (sub_job u) = sub_id u"
      by (simp add: sub_job_def submitted_job_def zero_job_def)
    show ?thesis
    proof (cases e)
      case None
      then have "c' = Done" "g' = answer (Accepted (sub_id u)) (g\<lparr>g_queue := q\<rparr>)"
        using step SPush push by auto
      moreover have "mq_pending q = mq_pending (g_queue g) @ [sub_job u]"
        using mq_Push_accepted wf(2) push None by blast
      ultimately show ?thesis using wf(1) q inv_accept [OF J, of p u] p SPush id
        by (intro sys_invI) simp_all
    next
      case (Some err)
      then have "c' = SDelete u" "g' = g\<lparr>g_queue := q\<rparr>" "q = g_queue g"
        using step SPush push mq_Push_rejected by auto
      then show ?thesis using wf move p SPush by (intro sys_invI) simp_all
    qed
  next
    case (SDelete u)
    then have "c' = Done" "g' = answer (QueueFull (sub_id u))
        (g\<lparr>g_store := fst (mem_Delete (sub_id u) (g_store g))\<rparr>)" using step by auto
    then show ?thesis using wf inv_delete [OF J, of p u] p SDelete
      by (intro sys_invI) (simp_all add: store_simps wf_intros inv_answer)
  qed (use c in auto)
qed


text \<open>Cancels.\<close>

lemma cancel_step_inv:
  assumes inv: "sys_inv (P, g)" and p: "P p = Some c" and now: "now \<noteq> 0"
    and step: "pc_step rendered now c g = Some (c', g')" and c: "c = CGet i \<or> c = CSet i r"
  shows "sys_inv (P(p \<mapsto> c'), g')"
proof -
  have wf: "ms_wf (g_store g)" "mq_wf (g_queue g)"
    and J: "jobs_inv P (ms_view (g_store g)) (map_of (g_blobs g)) (map ID (mq_pending (g_queue g)))
              (g_used g) (g_answers g)"
    using inv by (simp_all add: sys_inv_def)
  have ok: "pc_ok (ms_view (g_store g)) (map_of (g_blobs g)) (g_used g) c" by (rule jobs_invD(8) [OF J p])
  have stay: "sys_inv (P(p \<mapsto> d), g)" if "owner d = None" "owner c = None"
    "pc_ok (ms_view (g_store g)) (map_of (g_blobs g)) (g_used g) d" for d
  proof (rule sys_invI [OF wf])
    show "jobs_inv (P(p \<mapsto> d)) (ms_view (g_store g)) (map_of (g_blobs g))
        (map ID (mq_pending (g_queue g))) (g_used g) (g_answers g)"
      by (rule inv_drop [OF J, of p c]) (use p that c in auto)
  qed
  have said: "sys_inv (Q, answer x h)" if "sys_inv (Q, h)" "\<forall>i. x \<noteq> Accepted i" for Q h x
    using that by (simp add: sys_inv_def inv_answer)
  from c show ?thesis
  proof
    assume c: "c = CGet i"
    show ?thesis
    proof (cases "ms_view (g_store g) i")
      case None
      then have "c' = Done" "g' = answer (NotFound i) g"
        using step c by (auto simp: mem_Get_def ms_view_def)
      then show ?thesis using stay [of Done] c said by simp
    next
      case (Some q)
      show ?thesis
      proof (cases "terminal (Status q)")
        case True
        then have "c' = Done" "g' = answer (StatusIs i (Status q)) g"
          using step c Some by (auto simp: mem_Get_def ms_view_def)
        then show ?thesis using stay [of Done] c said by simp
      next
        case False
        then have "c' = CSet i (mark_canceled q)" "g' = g"
          using step c Some by (auto simp: mem_Get_def ms_view_def)
        then show ?thesis using stay [of "CSet i (mark_canceled q)"] c jobs_invD(6) [OF J Some] by simp
      qed
    qed
  next
    assume c: "c = CSet i r"
    let ?s = "fst (mem_Set now i r (g_store g))"
    have "c' = Done" "g' = answer (StatusIs i (Status r)) (g\<lparr>g_store := ?s\<rparr>)" using step c by auto
    moreover have "jobs_inv P (spec_set now i r (ms_view (g_store g)))
        (map_of (g_blobs g)) (map ID (mq_pending (g_queue g))) (g_used g) (g_answers g)"
      unfolding spec_set_update
      by (rule inv_write [OF J]) (use ok c in \<open>auto simp: pdf_ok_def unfinished_def\<close>)
    then have "jobs_inv (P(p \<mapsto> Done)) (spec_set now i r (ms_view (g_store g)))
        (map_of (g_blobs g)) (map ID (mq_pending (g_queue g))) (g_used g) (g_answers g)"
      by (rule inv_drop [where c = c]) (use p c in auto)
    ultimately show ?thesis using wf now
      by (intro sys_invI) (simp_all add: store_simps wf_intros inv_answer)
  qed
qed

text \<open>Workers.\<close>

lemma worker_step_inv:
  assumes inv: "sys_inv (P, g)" and p: "P p = Some c" and now: "now \<noteq> 0"
    and step: "pc_step rendered now c g = Some (c', g')"
    and c: "c = WPop \<or> c = WBlocked \<or> worker_owner c \<noteq> None"
  shows "sys_inv (P(p \<mapsto> c'), g')"
proof -
  let ?V = "ms_view (g_store g)" and ?B = "map_of (g_blobs g)" and ?Q = "map ID (mq_pending (g_queue g))"
  have wf: "ms_wf (g_store g)" "mq_wf (g_queue g)" and J: "jobs_inv P ?V ?B ?Q (g_used g) (g_answers g)"
    using inv by (simp_all add: sys_inv_def)
  have ok: "pc_ok ?V ?B (g_used g) c" by (rule jobs_invD(8) [OF J p])
  have move: "sys_inv (P(p \<mapsto> d), g)"
    if "sub_owner d = sub_owner c" "worker_owner d = worker_owner c" "pc_ok ?V ?B (g_used g) d" for d
    by (rule sys_invI [OF wf inv_move [OF J, of p c]]) (use p that in auto)
  have gone: "sys_inv (P(p \<mapsto> WPop), g)"
    if "worker_owner c = Some i" "?V i = Some r" "Status r = StatusCanceled" for i r
    by (rule sys_invI [OF wf inv_drop [OF J, of p c]]) (use p that in auto)
  have finish: "sys_inv (P(p \<mapsto> WPop), g\<lparr>g_store := fst (mem_Set now i r (g_store g))\<rparr>)"
    if "worker_owner c = Some i" "terminal (Status r)" "pdf_ok ?B i r" for i r
  proof (rule sys_invI)
    show "jobs_inv (P(p \<mapsto> WPop)) (ms_view (g_store (g\<lparr>g_store := fst (mem_Set now i r (g_store g))\<rparr>)))
        (map_of (g_blobs (g\<lparr>g_store := fst (mem_Set now i r (g_store g))\<rparr>)))
        (map ID (mq_pending (g_queue (g\<lparr>g_store := fst (mem_Set now i r (g_store g))\<rparr>))))
        (g_used (g\<lparr>g_store := fst (mem_Set now i r (g_store g))\<rparr>))
        (g_answers (g\<lparr>g_store := fst (mem_Set now i r (g_store g))\<rparr>))"
      using inv_finish [OF J, of p c i WPop "merge_result now (?V i) r"] p that
      by (simp add: store_simps spec_set_update)
  qed (use wf now in \<open>simp_all add: wf_intros\<close>)
  have take: "sys_inv (P(p \<mapsto> WGet j), g\<lparr>g_queue := q\<rparr>)"
    if "owner c = None" "mset ?Q = mset (ID j # map ID (mq_pending q))" "mq_wf q" for j q
  proof -
    have "jobs_inv P ?V ?B (ID j # map ID (mq_pending q)) (g_used g) (g_answers g)"
      using inv_perm [OF J] that(2) by simp
    then have "jobs_inv (P(p \<mapsto> WGet j)) ?V ?B (map ID (mq_pending q)) (g_used g) (g_answers g)"
      by (rule inv_take [where c = c]) (use p that(1) in auto)
    then show ?thesis using wf that(3) by (intro sys_invI) simp_all
  qed
  show ?thesis
  proof (cases c)
    case WPop
    obtain q r where pop: "mq_Pop False False (g_queue g) = (q, r)" by (metis surj_pair)
    have q: "mq_wf q" using mq_Pop_wf [OF wf(2), of False False] pop by simp
    have "r = PopBlocks \<or> (\<exists>j. r = PopReturns (Inr j))"
      using pop by (auto simp: mq_Pop_def split: list.splits)
    then show ?thesis
    proof
      assume "r = PopBlocks"
      then have "c' = WBlocked" "g' = g\<lparr>g_queue := q\<rparr>" "mq_pending q = mq_pending (g_queue g)"
        using step WPop pop mq_Pop_waits by auto
      moreover have "jobs_inv (P(p \<mapsto> WBlocked)) ?V ?B ?Q (g_used g) (g_answers g)"
        by (rule inv_move [OF J, of p c]) (use p WPop in auto)
      ultimately show ?thesis using wf q by (intro sys_invI) simp_all
    next
      assume "\<exists>j. r = PopReturns (Inr j)"
      then obtain j where j: "r = PopReturns (Inr j)" by blast
      then have "c' = WGet j" "g' = g\<lparr>g_queue := q\<rparr>" using step WPop pop by auto
      then show ?thesis using take [of j q] mq_Pop_takes pop j q WPop by simp
    qed
  next
    case WBlocked
    obtain q r where pop: "mq_Pop_resume (g_queue g) = (q, r)" by (metis surj_pair)
    have q: "mq_wf q" using mq_Pop_resume_wf [OF wf(2)] pop by simp
    obtain j where j: "r = PopReturns (Inr j)"
      using step WBlocked pop by (cases r) (auto split: sum.splits)
    then have "c' = WGet j" "g' = g\<lparr>g_queue := q\<rparr>" using step WBlocked pop by auto
    then show ?thesis using take [of j q] mq_Pop_resume_takes pop j q WBlocked by simp
  next
    case (WGet j)
    then have "g' = g" "c' = (if is_canceled (snd (mem_Get (ID j) (g_store g))) then WPop else WSetProcessing j)"
      using step by (auto simp: mem_Get_def)
    then show ?thesis using gone move [of "WSetProcessing j"] WGet
      by (auto simp: canceled_view)
  next
    case (WSetProcessing j)
    let ?s = "fst (mem_Set now (ID j) (job_record j StatusProcessing) (g_store g))"
    have own: "held worker_owner P (ID j)" "held owner P (ID j)"
      using p WSetProcessing by (force simp: held_def)+
    have "jobs_inv P (spec_set now (ID j) (job_record j StatusProcessing) ?V) ?B ?Q (g_used g) (g_answers g)"
      unfolding spec_set_update
      by (rule inv_write [OF J]) (use own jobs_invD(4) [OF J] in auto)
    then have "jobs_inv (P(p \<mapsto> WRender j)) (spec_set now (ID j) (job_record j StatusProcessing) ?V)
        ?B ?Q (g_used g) (g_answers g)"
      by (rule inv_move [where c = c]) (use p WSetProcessing in auto)
    moreover have "c' = WRender j" "g' = g\<lparr>g_store := ?s\<rparr>" using step WSetProcessing by auto
    ultimately show ?thesis using wf now by (intro sys_invI) (simp_all add: store_simps wf_intros)
  next
    case (WRender j)
    then show ?thesis using step move [of "WCheck j rendered"] by auto
  next
    case (WCheck j out)
    then have "g' = g" "c' = (if is_canceled (snd (mem_Get (ID j) (g_store g))) then WPop
        else (case out of Inr pdf \<Rightarrow> WPut j pdf | Inl e \<Rightarrow> WSetFailed j (error_text e)))"
      using step by (auto simp: mem_Get_def)
    then show ?thesis using gone move WCheck
      by (auto simp: canceled_view split: sum.splits)
  next
    case (WPut j pdf)
    then have "c' = WSetCompleted j pdf" "g' = g\<lparr>g_blobs := gm_put (pdf_key j) pdf (g_blobs g)\<rparr>"
      using step by (auto simp: mb_Put_def)
    then show ?thesis using wf inv_blob [OF J, of p j pdf] p WPut by (intro sys_invI) simp_all
  next
    case (WSetCompleted j pdf)
    let ?r = "(job_record j StatusCompleted)\<lparr>PDFKey := pdf_key j, PDFSize := int (length pdf)\<rparr>"
    have "pdf_ok ?B (ID j) ?r" using ok WSetCompleted by (simp add: pdf_ok_def pdf_key_def)
    then show ?thesis using step finish [of "ID j" ?r] WSetCompleted by (auto simp: job_record_def)
  next
    case (WSetFailed j msg)
    then show ?thesis using step finish [of "ID j" "(job_record j StatusFailed)\<lparr>Error := msg\<rparr>"]
      by (auto simp: job_record_def pdf_ok_def)
  qed (use c in auto)
qed


lemma sys_step_inv: "sys_step \<sigma> \<sigma>' \<Longrightarrow> sys_inv \<sigma> \<Longrightarrow> sys_inv \<sigma>'"
proof (induction rule: sys_step.induct)
  case (new_submission P p u g)
  then show ?case by (auto simp: sys_inv_def intro: inv_new_submission)
next
  case (new_cancel P p g i)
  then show ?case by (auto simp: sys_inv_def intro!: inv_new)
next
  case (new_worker P p g)
  then show ?case by (auto simp: sys_inv_def intro!: inv_new)
next
  case (run P p c now rendered g c' g')
  have "c \<noteq> Done" using run.hyps(3) by auto
  then consider "sub_owner c \<noteq> None" | i r where "c = CGet i \<or> c = CSet i r"
    | "c = WPop \<or> c = WBlocked \<or> worker_owner c \<noteq> None"
    by (cases c) auto
  then show ?case
    using submit_step_inv [OF run.prems run.hyps] cancel_step_inv [OF run.prems run.hyps]
      worker_step_inv [OF run.prems run.hyps] by cases blast+
qed

lemma sys_init_inv: "NewMemoryQueue n = Some q \<Longrightarrow> sys_inv (sys_init q)"
proof -
  assume "NewMemoryQueue n = Some q"
  then have "mq_wf q" "mq_pending q = []" using NewMemoryQueue_wf by blast+
  moreover have "ms_view NewMemoryStorage = Map.empty" by (simp add: ms_view_def NewMemoryStorage_def)
  ultimately show ?thesis
    by (simp add: sys_inv_def sys_init_def ms_wf_new NewMemoryStore_def jobs_inv_def single_owner_def held_def)
qed

lemma steps_inv: "sys_step\<^sup>*\<^sup>* \<sigma> \<sigma>' \<Longrightarrow> sys_inv \<sigma> \<Longrightarrow> sys_inv \<sigma>'"
  by (induction rule: rtranclp_induct) (auto intro: sys_step_inv)

lemma reachable_inv: "reachable \<sigma> \<Longrightarrow> sys_inv \<sigma>"
  unfolding reachable_def using steps_inv sys_init_inv by blast

section \<open>What holds in every reachable state\<close>

text \<open>C3: In every interleaving of requests, cancels and workers, a job whose record says completed has
  its PDF: the record names the job's object, the object is stored, and its size is the size in
  the record. Records, keys and submission order stay consistent throughout.\<close>

theorem completed_has_pdf:
  assumes "reachable (P, g)"
  shows "ms_wf (g_store g)
    \<and> (\<forall>i r. ms_view (g_store g) i = Some r \<longrightarrow> Status r = StatusCompleted \<longrightarrow>
         (\<exists>pdf. PDFKey r = ''pdf/'' @ i @ ''.pdf'' \<and> map_of (g_blobs g) (PDFKey r) = Some pdf
              \<and> PDFSize r = int (length pdf)))"
proof -
  have "ms_wf (g_store g)" and J: "jobs_inv P (ms_view (g_store g)) (map_of (g_blobs g))
      (map ID (mq_pending (g_queue g))) (g_used g) (g_answers g)"
    using reachable_inv [OF assms] by (simp_all add: sys_inv_def)
  then show ?thesis using jobs_invD(9) [OF J] unfolding pdf_ok_def by blast
qed

text \<open>C4: In every interleaving, a job is worked on by one goroutine at a time and never while it waits
  in the queue, where it waits at most once: no page is rendered twice.\<close>

theorem one_owner_per_job:
  assumes "reachable (P, g)"
  shows "distinct (map ID (mq_pending (g_queue g)))
    \<and> (\<forall>p c i. P p = Some c \<longrightarrow> owner c = Some i \<longrightarrow> i \<notin> ID ` set (mq_pending (g_queue g))
         \<and> (\<forall>p' c'. P p' = Some c' \<longrightarrow> owner c' = Some i \<longrightarrow> p' = p))"
  using reachable_inv [OF assms]
  unfolding sys_inv_def jobs_inv_def single_owner_def held_def by (simp add: image_iff) metis

text \<open>C2: No accepted job is lost. In every interleaving, a job whose submission was answered 202 (and
  not as a replay) has a record, and until that record is completed, failed or canceled the job is
  in the queue or in the hands of a worker.\<close>

theorem accepted_job_not_lost:
  assumes "reachable (P, g)" and "Accepted i \<in> set (g_answers g)"
  shows "\<exists>r. ms_view (g_store g) i = Some r
    \<and> (terminal (Status r) \<or> i \<in> ID ` set (mq_pending (g_queue g))
       \<or> (\<exists>p c. P p = Some c \<and> worker_owner c = Some i))"
  using reachable_inv [OF assms(1)] assms(2)
  unfolding sys_inv_def jobs_inv_def held_def by simp

section \<open>Schedules\<close>

text \<open>An executable scheduler, whose every step is a step of the system.\<close>

datatype sched = NewSub nat submission | NewCancel nat string | NewWorker nat | Run nat "bytes result"

fun sched_step :: "sched \<Rightarrow> procs \<times> shared \<Rightarrow> (procs \<times> shared) option" where
  "sched_step (NewSub p u) (P, g) =
     (if P p = None \<and> sub_id u \<notin> set (g_used g) \<and> sub_now u \<noteq> 0
      then Some (P(p \<mapsto> SReserve u), g\<lparr>g_used := sub_id u # g_used g\<rparr>) else None)"
| "sched_step (NewCancel p i) (P, g) = (if P p = None then Some (P(p \<mapsto> CGet i), g) else None)"
| "sched_step (NewWorker p) (P, g) = (if P p = None then Some (P(p \<mapsto> WPop), g) else None)"
| "sched_step (Run p rendered) (P, g) =
     (case P p of
        None \<Rightarrow> None
      | Some c \<Rightarrow>
          (case pc_step rendered 5 c g of None \<Rightarrow> None | Some (c', g') \<Rightarrow> Some (P(p \<mapsto> c'), g')))"

fun sched_run :: "sched list \<Rightarrow> procs \<times> shared \<Rightarrow> (procs \<times> shared) option" where
  "sched_run [] \<sigma> = Some \<sigma>"
| "sched_run (e # es) \<sigma> = (case sched_step e \<sigma> of None \<Rightarrow> None | Some \<sigma>' \<Rightarrow> sched_run es \<sigma>')"

lemma sched_step_sound: "sched_step e (P, g) = Some \<sigma>' \<Longrightarrow> sys_step (P, g) \<sigma>'"
  by (cases e) (auto split: if_splits option.splits intro: sys_step.intros(1-3) sys_step.run [where now = 5])

lemma sched_run_sound: "sched_run es \<sigma> = Some \<sigma>' \<Longrightarrow> sys_step\<^sup>*\<^sup>* \<sigma> \<sigma>'"
proof (induction es arbitrary: \<sigma>)
  case Nil
  then show ?case by simp
next
  case (Cons e es)
  then obtain \<sigma>1 where "sched_step e \<sigma> = Some \<sigma>1" "sched_run es \<sigma>1 = Some \<sigma>'"
    by (auto split: option.splits)
  then show ?case using Cons.IH sched_step_sound by (metis converse_rtranclp_into_rtranclp surj_pair)
qed

lemma sched_reachable:
  "NewMemoryQueue n = Some q \<Longrightarrow> sched_run es (sys_init q) = Some \<sigma> \<Longrightarrow> reachable \<sigma>"
  unfolding reachable_def using sched_run_sound by blast


definition status_of :: "string \<Rightarrow> procs \<times> shared \<Rightarrow> JobStatus option" where
  "status_of i \<sigma> = map_option Status (ms_view (g_store (snd \<sigma>)) i)"

lemma run_witness:
  assumes "NewMemoryQueue n = Some q"
    and "map_option f (sched_run es (sys_init q)) = Some x"
  shows "\<exists>\<sigma>. reachable \<sigma> \<and> f \<sigma> = x"
proof -
  obtain \<sigma> where "sched_run es (sys_init q) = Some \<sigma>" "f \<sigma> = x" using assms(2) by auto
  then show ?thesis using sched_reachable [OF assms(1)] by blast
qed

lemma run_witness2:
  assumes "NewMemoryQueue n = Some q"
    and "map_option f (sched_run es (sys_init q)) = Some x"
    and "map_option f (sched_run (es @ es') (sys_init q)) = Some y"
  shows "\<exists>\<sigma> \<sigma>'. reachable \<sigma> \<and> sys_step\<^sup>*\<^sup>* \<sigma> \<sigma>' \<and> f \<sigma> = x \<and> f \<sigma>' = y"
proof -
  have split: "sched_run (as @ bs) \<tau> = (case sched_run as \<tau> of None \<Rightarrow> None | Some \<tau>' \<Rightarrow> sched_run bs \<tau>')"
    for as bs \<tau>
    by (induction as arbitrary: \<tau>) (auto split: option.splits)
  obtain \<sigma> where s: "sched_run es (sys_init q) = Some \<sigma>" "f \<sigma> = x" using assms(2) by auto
  obtain \<sigma>' where "sched_run es' \<sigma> = Some \<sigma>'" "f \<sigma>' = y" using assms(3) s by (auto simp: split)
  then show ?thesis using s sched_reachable [OF assms(1)] sched_run_sound by blast
qed

definition demo_submission :: "string \<Rightarrow> submission" where
  "demo_submission i = \<lparr>sub_url = ''http://e'', sub_key = ''k'', sub_cb = '''', sub_rid = '''',
     sub_id = i, sub_now = 3\<rparr>"

text \<open>A queue of the given size, as \<open>NewMemoryQueue\<close> makes it.\<close>

definition demo_queue :: "nat \<Rightarrow> mem_queue" where
  "demo_queue n = \<lparr>buf = [], capacity = n, recvq = 0, handed = []\<rparr>"

lemma demo_queue_new: "NewMemoryQueue (int n) = Some (demo_queue n)"
  by (simp add: NewMemoryQueue_def demo_queue_def)

text \<open>
  One submission and one worker that gets as far as having stored the PDF; a cancel that has read
  the record meanwhile.
\<close>

definition busy_schedule :: "sched list" where
  "busy_schedule =
     [NewSub 0 (demo_submission ''a''), Run 0 (Inr []), Run 0 (Inr []), Run 0 (Inr []),
      NewWorker 1, Run 1 (Inr []), Run 1 (Inr []), Run 1 (Inr []), Run 1 (Inr [37]),
      NewCancel 2 ''a'', Run 2 (Inr []),
      Run 1 (Inr []), Run 1 (Inr []), Run 1 (Inr [])]"

text \<open>A finished job can turn canceled. \<open>MemoryStorage.Cancel\<close> reads the record and writes it back
  in two locked sections; a worker that completes the job in between is overwritten, so a job seen
  as completed, whose PDF could be downloaded, is canceled afterwards.\<close>

theorem completed_job_turns_canceled:
  "\<exists>\<sigma> \<sigma>'. reachable \<sigma> \<and> sys_step\<^sup>*\<^sup>* \<sigma> \<sigma>'
     \<and> status_of ''a'' \<sigma> = Some StatusCompleted \<and> status_of ''a'' \<sigma>' = Some StatusCanceled"
proof (rule run_witness2 [where n = "int 1" and q = "demo_queue 1" and es = busy_schedule
      and es' = "[Run 2 (Inr [])]", OF demo_queue_new])
  show "map_option (status_of ''a'') (sched_run busy_schedule (sys_init (demo_queue 1)))
      = Some (Some StatusCompleted)" by code_simp
  show "map_option (status_of ''a'') (sched_run (busy_schedule @ [Run 2 (Inr [])]) (sys_init (demo_queue 1)))
      = Some (Some StatusCanceled)" by code_simp
qed

text \<open>A replayed submission can be told about a job that vanishes. A second request with the same
  key arrives after the first reserved it and before the first finds the queue full and takes its
  record and key back; it is answered 202 with an id that then has no record, is not queued and
  that nobody works on.\<close>

theorem replayed_job_can_vanish:
  "\<exists>\<sigma>. reachable \<sigma> \<and> Replayed ''a'' \<in> set (g_answers (snd \<sigma>))
     \<and> status_of ''a'' \<sigma> = None \<and> mq_pending (g_queue (snd \<sigma>)) = []
     \<and> fst \<sigma> 0 = Some Done \<and> fst \<sigma> 1 = Some Done"
proof -
  let ?es = "[NewSub 0 (demo_submission ''a''), Run 0 (Inr []), Run 0 (Inr []),
              NewSub 1 (demo_submission ''b''), Run 1 (Inr []), Run 0 (Inr []), Run 0 (Inr [])]"
  let ?f = "\<lambda>\<sigma>. (Replayed ''a'' \<in> set (g_answers (snd \<sigma>)), status_of ''a'' \<sigma>,
                 mq_pending (g_queue (snd \<sigma>)), fst \<sigma> 0, fst \<sigma> 1)"
  have "\<exists>\<sigma>. reachable \<sigma> \<and> ?f \<sigma> = (True, None, [], Some Done, Some Done)"
  proof (rule run_witness [where n = "int 0" and q = "demo_queue 0" and es = ?es, OF demo_queue_new])
    show "map_option ?f (sched_run ?es (sys_init (demo_queue 0)))
        = Some (True, None, [], Some Done, Some Done)" by code_simp
  qed
  then show ?thesis by auto
qed

definition busy_state :: "procs \<times> shared" where
  "busy_state = the (sched_run busy_schedule (sys_init (demo_queue 1)))"

lemma busy_reachable: "reachable busy_state"
proof -
  have "map_option (\<lambda>_. True) (sched_run busy_schedule (sys_init (demo_queue 1))) = Some True"
    by code_simp
  then show ?thesis
    using sched_reachable [OF demo_queue_new [of 1]] by (auto simp: busy_state_def)
qed

lemma busy_split: "reachable (fst busy_state, snd busy_state)"
  using busy_reachable by simp

theorem completed_has_pdf_witness:
  "\<exists>r pdf. ms_view (g_store (snd busy_state)) ''a'' = Some r \<and> Status r = StatusCompleted
     \<and> map_of (g_blobs (snd busy_state)) (PDFKey r) = Some pdf \<and> PDFSize r = int (length pdf)"
proof -
  have "map_option Status (ms_view (g_store (snd busy_state)) ''a'') = Some StatusCompleted"
    by code_simp
  then obtain r where "ms_view (g_store (snd busy_state)) ''a'' = Some r" "Status r = StatusCompleted"
    by auto
  then show ?thesis using completed_has_pdf [OF busy_split] by blast
qed

theorem accepted_job_not_lost_witness:
  "Accepted ''a'' \<in> set (g_answers (snd busy_state))
   \<and> (\<exists>r. ms_view (g_store (snd busy_state)) ''a'' = Some r)"
proof -
  have "Accepted ''a'' \<in> set (g_answers (snd busy_state))" by code_simp
  then show ?thesis using accepted_job_not_lost [OF busy_split] by blast
qed

theorem one_owner_per_job_witness:
  "\<exists>\<sigma>. reachable \<sigma> \<and> fst \<sigma> 1 = Some (WGet (sub_job (demo_submission ''a'')))
     \<and> ''a'' \<notin> ID ` set (mq_pending (g_queue (snd \<sigma>)))"
proof -
  let ?es = "[NewSub 0 (demo_submission ''a''), Run 0 (Inr []), Run 0 (Inr []), Run 0 (Inr []),
              NewWorker 1, Run 1 (Inr [])]"
  have "\<exists>\<sigma>. reachable \<sigma> \<and> fst \<sigma> 1 = Some (WGet (sub_job (demo_submission ''a'')))"
  proof (rule run_witness [where f = "\<lambda>\<sigma>. fst \<sigma> 1" and n = "int 1" and q = "demo_queue 1" and es = ?es,
        OF demo_queue_new])
    show "map_option (\<lambda>\<sigma>. fst \<sigma> 1) (sched_run ?es (sys_init (demo_queue 1)))
        = Some (Some (WGet (sub_job (demo_submission ''a''))))" by code_simp
  qed
  then obtain P g where r: "reachable (P, g)" "P 1 = Some (WGet (sub_job (demo_submission ''a'')))"
    by auto
  have "owner (WGet (sub_job (demo_submission ''a''))) = Some ''a''" by code_simp
  then have "''a'' \<notin> ID ` set (mq_pending (g_queue g))"
    using one_owner_per_job [OF r(1)] r(2) by blast
  then show ?thesis using r by (intro exI [of _ "(P, g)"]) simp
qed

section \<open>The pieces add up\<close>

text \<open>A goroutine that runs alone for at most \<open>n\<close> steps, with the clock standing at \<open>now\<close>.\<close>

fun pc_run :: "nat \<Rightarrow> bytes result \<Rightarrow> time \<Rightarrow> pc \<Rightarrow> shared \<Rightarrow> pc \<times> shared" where
  "pc_run 0 rendered now c g = (c, g)"
| "pc_run (Suc n) rendered now c g =
     (case pc_step rendered now c g of
        None \<Rightarrow> (c, g)
      | Some (c', g') \<Rightarrow> pc_run n rendered now c' g')"

definition answer_of :: "http_response \<Rightarrow> string \<Rightarrow> answer" where
  "answer_of resp i =
     (case body resp of
        SubmitResponse j _ idempotent \<Rightarrow> if idempotent then Replayed j else Accepted j
      | JobStatusBody j _ st _ \<Rightarrow> StatusIs j st
      | _ \<Rightarrow> if code resp = 503 then QueueFull i else NotFound i)"

text \<open>The interleaving model cuts the handlers faithfully: a submission whose four pieces run
  without interruption leaves the store, the queue and the answer that \<open>SubmitJob\<close> does.\<close>

theorem submission_pieces_compose:
  assumes chk: "check_submission opts r = Inr (sub_url u, sub_key u, sub_cb u)"
    and rid: "sub_rid u = ctx_request_id r"
    and a: "a_store a = g_store g" "a_queue a = g_queue g"
    and run: "SubmitJob mem_store_ops mem_queue_ops opts (sub_id u) (sub_now u) now r a = (a', resp)"
  shows "pc_run 4 rendered now (SReserve u) g =
    (Done, g\<lparr>g_store := a_store a', g_queue := a_queue a',
             g_answers := g_answers g @ [answer_of resp (sub_id u)]\<rparr>)"
proof -
  obtain s1 i fr where r1: "mem_ReserveIdempotencyKey (sub_key u) (sub_id u) (g_store g) = (s1, Inr (i, fr))"
    using mem_Reserve_result [of "sub_key u" "sub_id u" "g_store g"] by (metis prod.collapse)
  obtain s2 r2 where r2: "mem_Set now (sub_id u) (sub_record u) s1 = (s2, r2, None)"
    by (simp add: mem_Set_def Let_def)
  obtain q e where r3: "mq_Push (sub_job u) (g_queue g) = (q, e)" by (metis surj_pair)
  have four: "(4 :: nat) = Suc (Suc (Suc (Suc 0)))" by simp
  show ?thesis
  proof (cases fr)
    case False
    then show ?thesis using run chk a r1
      by (auto simp: four SubmitJob_def answer_of_def accepted_def)
  next
    case True
    show ?thesis
    proof (cases e)
      case None
      then show ?thesis using run chk a r1 r2 r3 True rid
        by (auto simp: four SubmitJob_def answer_of_def accepted_def sub_record_def sub_job_def)
    next
      case (Some err)
      then have "err = ErrQueueFull" using mq_Push_rejected r3 by blast
      then show ?thesis using run chk a r1 r2 r3 True rid Some
        by (auto simp: four SubmitJob_def answer_of_def sub_record_def sub_job_def Let_def)
    qed
  qed
qed


theorem submission_pieces_compose_witness:
  "let (a', resp) = SubmitJob mem_store_ops mem_queue_ops demo_handler_options ''new'' 9 10
         demo_request (demo_api 1);
       u = \<lparr>sub_url = ''http://e/p'', sub_key = ''k1'', sub_cb = ''http://hook'', sub_rid = ''r1'',
            sub_id = ''new'', sub_now = 9\<rparr>;
       g = \<lparr>g_store = demo_store, g_queue = a_queue (demo_api 1), g_blobs = [], g_used = [], g_answers = []\<rparr>
   in fst (pc_run 4 (Inr []) 10 (SReserve u) g) = Done
      \<and> g_queue (snd (pc_run 4 (Inr []) 10 (SReserve u) g)) = a_queue a'"
proof -
  let ?u = "\<lparr>sub_url = ''http://e/p'', sub_key = ''k1'', sub_cb = ''http://hook'', sub_rid = ''r1'',
            sub_id = ''new'', sub_now = 9\<rparr>"
  let ?g = "\<lparr>g_store = demo_store, g_queue = a_queue (demo_api 1), g_blobs = [], g_used = [], g_answers = []\<rparr>"
  obtain a' resp where run: "SubmitJob mem_store_ops mem_queue_ops demo_handler_options (sub_id ?u) (sub_now ?u)
      10 demo_request (demo_api 1) = (a', resp)" by (metis surj_pair)
  have chk: "check_submission demo_handler_options demo_request = Inr (sub_url ?u, sub_key ?u, sub_cb ?u)"
    using demo_checks by simp
  have rid: "sub_rid ?u = ctx_request_id demo_request" by (simp add: demo_request_def)
  have a: "a_store (demo_api 1) = g_store ?g" "a_queue (demo_api 1) = g_queue ?g"
    by (simp_all add: demo_api_def)
  show ?thesis
    using submission_pieces_compose [OF chk rid a run, of "Inr []"] run by (simp add: Let_def)
qed

text \<open>How the outcome of a rendering appears in the interleaving model: the text the job's record gets.\<close>

definition renders_as :: "'s process_env \<Rightarrow> bytes \<times> go_error option \<Rightarrow> bytes result \<Rightarrow> bool" where
  "renders_as env out rendered \<longleftrightarrow>
     (case out of
        (pdf, None) \<Rightarrow> rendered = Inr pdf
      | (_, Some e) \<Rightarrow> (\<exists>e'. rendered = Inl e' \<and> error_text e' = status_error env e))"

text \<open>The same for workers: the pieces of one job, run without interruption, leave the store and the
  blobs that \<open>processJob\<close> does.\<close>

theorem worker_pieces_compose:
  assumes t: "pe_set1 env = now" "pe_set2 env = now" and alone: "\<And>k s. pe_interf env k s = s"
    and out: "renders_as env (generateWithRetries opts env) rendered"
    and w: "w_store w = g_store g" "w_blobs w = g_blobs g"
    and w': "w' = processJob mem_store_ops mem_blob_ops opts env j w"
  shows "\<exists>n. pc_run n rendered now (WGet j) g
    = (WPop, g\<lparr>g_store := w_store w', g_blobs := w_blobs w'\<rparr>)"
proof -
  let ?p = "job_record j StatusProcessing"
  obtain pdf err where gen: "generateWithRetries opts env = (pdf, err)" by (metis surj_pair)
  show ?thesis
  proof (cases "is_canceled (snd (mem_Get (ID j) (g_store g)))")
    case True
    then have "pc_run 1 rendered now (WGet j) g = (WPop, g\<lparr>g_store := w_store w', g_blobs := w_blobs w'\<rparr>)"
      using w w' alone by (simp add: processJob_def mem_Get_def)
    then show ?thesis by blast
  next
    case False
    obtain s1 r1 where s1: "mem_Set now (ID j) ?p (g_store g) = (s1, r1, None)"
      by (simp add: mem_Set_def Let_def)
    have v1: "map_of (results s1) (ID j) = Some r1" "Status r1 = StatusProcessing"
      using s1 by (auto simp: mem_Set_def Let_def job_record_def)
    have get: "mem_Get (ID j) s1 = (s1, Inr r1)" using v1 by (simp add: mem_Get_def)
    have nc: "\<not> is_canceled (Inr r1)" using v1 by (simp add: is_canceled_def)
    show ?thesis
    proof (cases err)
      case None
      let ?r = "(job_record j StatusCompleted)\<lparr>PDFKey := pdf_key j, PDFSize := int (length pdf)\<rparr>"
      obtain s2 r2 where s2: "mem_Set now (ID j) ?r s1 = (s2, r2, None)" by (simp add: mem_Set_def Let_def)
      have "rendered = Inr pdf" using out gen None by (simp add: renders_as_def)
      then have "pc_run (Suc (Suc (Suc (Suc (Suc (Suc 0)))))) rendered now (WGet j) g
          = (WPop, g\<lparr>g_store := s2, g_blobs := gm_put (pdf_key j) pdf (g_blobs g)\<rparr>)"
        using False s1 s2 get nc by (simp add: mem_Get_def mb_Put_def)
      moreover have "w_store w' = s2 \<and> w_blobs w' = gm_put (pdf_key j) pdf (g_blobs g)"
        using False w w' alone s1 s2 get nc gen None t
        by (simp add: processJob_def after_render_def mb_Put_def Let_def mem_Get_def)
      ultimately show ?thesis by metis
    next
      case (Some e)
      obtain e' where e': "rendered = Inl e'" "error_text e' = status_error env e"
        using out gen Some by (auto simp: renders_as_def)
      let ?r = "(job_record j StatusFailed)\<lparr>Error := status_error env e\<rparr>"
      obtain s2 r2 where s2: "mem_Set now (ID j) ?r s1 = (s2, r2, None)" by (simp add: mem_Set_def Let_def)
      have "pc_run (Suc (Suc (Suc (Suc (Suc 0))))) rendered now (WGet j) g = (WPop, g\<lparr>g_store := s2\<rparr>)"
        using False s1 s2 get nc e' by (simp add: mem_Get_def)
      moreover have "w_store w' = s2 \<and> w_blobs w' = g_blobs g"
        using False w w' alone s1 s2 get nc gen Some t v1
        by (simp add: processJob_def after_render_def Let_def mem_Get_def fail_job_def finish_def)
      moreover have "g\<lparr>g_store := s2, g_blobs := g_blobs g\<rparr> = g\<lparr>g_store := s2\<rparr>" by simp
      ultimately show ?thesis by metis
    qed
  qed
qed


theorem worker_pieces_compose_witness:
  "\<exists>n g'. pc_run n (Inr [37, 80, 68, 70]) 101 (WGet demo_job)
       \<lparr>g_store = demo_store, g_queue = demo_queue 1, g_blobs = [], g_used = [], g_answers = []\<rparr>
     = (WPop, g')"
proof -
  let ?env = "demo_env\<lparr>pe_set2 := 101\<rparr>"
  let ?g = "\<lparr>g_store = demo_store, g_queue = demo_queue 1, g_blobs = [], g_used = [], g_answers = []\<rparr>"
  have "generateWithRetries demo_opts ?env = ([37, 80, 68, 70], None)"
    by (simp add: generateWithRetries_def demo_opts_def demo_env_def render_loop.simps to_int64_def)
  then have "renders_as ?env (generateWithRetries demo_opts ?env) (Inr [37, 80, 68, 70])"
    by (simp add: renders_as_def)
  moreover have "pe_set1 ?env = 101" "pe_set2 ?env = 101" "\<And>k s. pe_interf ?env k s = s"
    "w_store demo_world = g_store ?g" "w_blobs demo_world = g_blobs ?g"
    by (simp_all add: demo_env_def demo_world_def)
  ultimately show ?thesis
    using worker_pieces_compose [of ?env 101 demo_opts "Inr [37, 80, 68, 70]" demo_world ?g] by blast
qed


end
