(* ===== verification/Resp.thy ===== *)
theory Resp
  imports Go_Url
begin

text \<open>
  The Redis client (\<open>internal/redisx/client.go\<close>): its RESP codec and the connection handling of
  \<open>Do\<close>. The network is a parameter: a dictionary that dials, writes, and says which bytes the
  server still has to deliver on a connection.
\<close>

section \<open>Replies\<close>

text \<open>The \<open>any\<close> value \<open>readRESP\<close> returns: nil, a string, an int64 or a slice of such values.\<close>

datatype resp = RNil | RStr string | RInt int | RArr "resp list"

text \<open>
  Reading ends with a value and the unread rest, with an error (after which the caller closes the
  connection), or with the panic of \<open>make\<close>. The fourth case is the model's own: fuel ran out.
\<close>

datatype 'a reading = Read 'a string | ReadFails go_error | Panics string | NoFuel

definition crlf :: string where
  "crlf = [CHR 0x0D, CHR 0x0A]"

text \<open>\<open>ReadString\<close> up to the next line feed, which is dropped with a carriage return before it.\<close>

definition read_line :: "string \<Rightarrow> (string \<times> string) option" where
  "read_line s =
     (if CHR 0x0A \<notin> set s then None
      else Some (trim_suffix (takeWhile (\<lambda>c. c \<noteq> CHR 0x0A) s) [CHR 0x0D],
                 tl (dropWhile (\<lambda>c. c \<noteq> CHR 0x0A) s)))"

text \<open>
  \<open>make([]T, n)\<close> panics for a negative length and for one beyond the address space (2^48 bytes on
  64-bit Linux).
\<close>

definition make_ok :: "int \<Rightarrow> int \<Rightarrow> bool" where
  "make_ok elem n \<longleftrightarrow> 0 \<le> n \<and> elem * n \<le> 2 ^ 48"

text \<open>The quotes \<open>strconv\<close> and \<open>%q\<close> put around the offending text are left out.\<close>

definition num_error_text :: "string \<Rightarrow> string \<Rightarrow> num_error \<Rightarrow> string" where
  "num_error_text f s e = ''strconv.'' @ f @ '': parsing '' @ s @ '': ''
     @ (case e of ErrSyntax \<Rightarrow> ''invalid syntax'' | ErrRange \<Rightarrow> ''value out of range'')"

definition read_bulk :: "int \<Rightarrow> string \<Rightarrow> resp reading" where
  "read_bulk n s =
     (let total = to_int64 (n + 2)
      in if \<not> make_ok 1 total then Panics ''makeslice: len out of range''
         else if length s < nat total
         then ReadFails (if s = [] \<and> 0 < total then ErrEOF else ErrUnexpectedEOF)
         else Read (RStr (take (nat n) s)) (drop (nat total) s))"

fun readRESP :: "nat \<Rightarrow> string \<Rightarrow> resp reading"
and read_array :: "nat \<Rightarrow> nat \<Rightarrow> string \<Rightarrow> resp list reading" where
  "readRESP 0 s = NoFuel"
| "readRESP (Suc fuel) [] = ReadFails ErrEOF"
| "readRESP (Suc fuel) (prefix # s) =
     (case read_line s of
        None \<Rightarrow> ReadFails ErrEOF
      | Some (line, rest) \<Rightarrow>
          if prefix = CHR ''+'' then Read (RStr line) rest
          else if prefix = CHR ''-'' then ReadFails (ErrNew line)
          else if prefix = CHR '':'' then
            (case parse_int line of
               (_, Some e) \<Rightarrow> ReadFails (ErrNew (num_error_text ''ParseInt'' line e))
             | (n, None) \<Rightarrow> Read (RInt n) rest)
          else if prefix = CHR ''$'' then
            (case parse_int line of
               (_, Some e) \<Rightarrow> ReadFails (ErrNew (num_error_text ''Atoi'' line e))
             | (n, None) \<Rightarrow> if n < 0 then Read RNil rest else read_bulk n rest)
          else if prefix = CHR ''*'' then
            (case parse_int line of
               (_, Some e) \<Rightarrow> ReadFails (ErrNew (num_error_text ''Atoi'' line e))
             | (n, None) \<Rightarrow>
                 if n < 0 then Read RNil rest
                 else if \<not> make_ok 16 n then Panics ''makeslice: len out of range''
                 else (case read_array fuel (nat n) rest of
                         Read vs rest' \<Rightarrow> Read (RArr vs) rest'
                       | ReadFails e \<Rightarrow> ReadFails e
                       | Panics m \<Rightarrow> Panics m
                       | NoFuel \<Rightarrow> NoFuel))
          else ReadFails (ErrNew (''unknown RESP prefix '' @ [prefix])))"
| "read_array 0 n s = NoFuel"
| "read_array (Suc fuel) 0 s = Read [] s"
| "read_array (Suc fuel) (Suc n) s =
     (case readRESP fuel s of
        Read v rest \<Rightarrow>
          (case read_array fuel n rest of
             Read vs rest' \<Rightarrow> Read (v # vs) rest'
           | ReadFails e \<Rightarrow> ReadFails e
           | Panics m \<Rightarrow> Panics m
           | NoFuel \<Rightarrow> NoFuel)
      | ReadFails e \<Rightarrow> ReadFails e
      | Panics m \<Rightarrow> Panics m
      | NoFuel \<Rightarrow> NoFuel)"

text \<open>Enough fuel for any input of that length.\<close>

definition read_fuel :: "string \<Rightarrow> nat" where
  "read_fuel s = 2 * length s + 2"

definition read_reply :: "string \<Rightarrow> resp reading" where
  "read_reply s = readRESP (read_fuel s) s"

text \<open>The accessors \<open>String\<close> and \<open>Int\<close>.\<close>

definition resp_String :: "resp \<Rightarrow> string" where
  "resp_String v = (case v of RStr s \<Rightarrow> s | _ \<Rightarrow> '''')"

definition resp_Int :: "resp \<Rightarrow> int" where
  "resp_Int v = (case v of RInt n \<Rightarrow> n | RStr s \<Rightarrow> fst (parse_int s) | _ \<Rightarrow> 0)"

section \<open>Commands\<close>

text \<open>The pieces \<open>writeCommand\<close> writes one after the other, until a write fails.\<close>

definition command_pieces :: "string list \<Rightarrow> string list" where
  "command_pieces args =
     (CHR ''*'' # itoa (int (length args)) @ crlf)
       # map (\<lambda>arg. CHR ''$'' # itoa (int (length arg)) @ crlf @ arg @ crlf) args"

fun write_pieces ::
    "(string \<Rightarrow> 'c \<Rightarrow> 'c \<times> go_error option) \<Rightarrow> string list \<Rightarrow> 'c \<Rightarrow> 'c \<times> go_error option" where
  "write_pieces w [] c = (c, None)"
| "write_pieces w (p # ps) c =
     (case w p c of (c', Some e) \<Rightarrow> (c', Some e) | (c', None) \<Rightarrow> write_pieces w ps c')"

definition writeCommand ::
    "(string \<Rightarrow> 'c \<Rightarrow> 'c \<times> go_error option) \<Rightarrow> string list \<Rightarrow> 'c \<Rightarrow> 'c \<times> go_error option" where
  "writeCommand w args = write_pieces w (command_pieces args)"

section \<open>The reader always ends\<close>

lemma read_line_shorter: "read_line s = Some (l, r) \<Longrightarrow> length r < length s"
proof -
  assume a: "read_line s = Some (l, r)"
  then have n: "CHR 0x0A \<in> set s" and r: "r = tl (dropWhile (\<lambda>c. c \<noteq> CHR 0x0A) s)"
    by (auto simp: read_line_def split: if_splits)
  have "dropWhile (\<lambda>c. c \<noteq> CHR 0x0A) s \<noteq> []" using n by (auto simp: dropWhile_eq_Nil_conv)
  then have "length r < length (dropWhile (\<lambda>c. c \<noteq> CHR 0x0A) s)" using r by (cases "dropWhile (\<lambda>c. c \<noteq> CHR 0x0A) s") auto
  also have "\<dots> \<le> length s" by (rule length_dropWhile_le)
  finally show ?thesis .
qed

lemma read_bulk_shorter:
  "read_bulk n s = Read v r \<Longrightarrow> length r \<le> length s" "read_bulk n s \<noteq> NoFuel"
  by (auto simp: read_bulk_def Let_def split: if_splits)

lemma readRESP_simple:
  assumes "read_line s = Some (line, rest)" "parse_int line = (n, e)"
    "prefix = CHR ''$'' \<or> prefix = CHR ''*'' \<longrightarrow> e \<noteq> None \<or> n < 0"
  shows "(\<exists>e. readRESP (Suc fuel) (prefix # s) = ReadFails e)
    \<or> (\<exists>v. readRESP (Suc fuel) (prefix # s) = Read v rest)"
proof (cases e)
  case None
  then show ?thesis using assms by (simp split: if_splits)
next
  case (Some x)
  then show ?thesis using assms(1,2) by simp
qed

lemma read_terminates:
  "2 * length s + 1 \<le> fuel \<Longrightarrow> readRESP fuel s \<noteq> NoFuel
     \<and> (\<forall>v r. readRESP fuel s = Read v r \<longrightarrow> length r + 2 \<le> length s)"
  "2 * length s + 2 \<le> fuel \<Longrightarrow> read_array fuel n s \<noteq> NoFuel
     \<and> (\<forall>vs r. read_array fuel n s = Read vs r \<longrightarrow> length r + 2 * n \<le> length s)"
proof (induction fuel s and fuel n s rule: readRESP_read_array.induct)
  case (3 fuel prefix s)
  show ?case
  proof (cases "read_line s")
    case None
    then show ?thesis by simp
  next
    case (Some lr)
    obtain line rest where lr: "lr = (line, rest)" by (cases lr)
    have short: "length rest < length s" using read_line_shorter Some lr by simp
    obtain n e where p: "parse_int line = (n, e)" by (metis surj_pair)
    show ?thesis
    proof (cases "prefix = CHR ''*'' \<and> e = None \<and> 0 \<le> n \<and> make_ok 16 n")
      case True
      then have "read_array fuel (nat n) rest \<noteq> NoFuel
          \<and> (\<forall>vs r. read_array fuel (nat n) rest = Read vs r \<longrightarrow> length r + 2 * nat n \<le> length rest)"
        using 3 Some lr p short by auto
      then show ?thesis using True Some lr p short
        by (auto split: reading.splits)
    next
      case False
      consider (bulk) "prefix = CHR ''$''" "e = None" "0 \<le> n"
        | (arr) "prefix = CHR ''*''" "e = None" "0 \<le> n" "\<not> make_ok 16 n"
        | (other) "prefix = CHR ''$'' \<or> prefix = CHR ''*'' \<longrightarrow> e \<noteq> None \<or> n < 0"
        using False by fastforce
      then show ?thesis
      proof cases
        case bulk
        then have "readRESP (Suc fuel) (prefix # s) = read_bulk n rest" using Some lr p by simp
        then show ?thesis using read_bulk_shorter [of n rest] short by fastforce
      next
        case arr
        then show ?thesis using Some lr p by simp
      next
        case other
        have rl: "read_line s = Some (line, rest)" using Some lr by simp
        consider e' where "readRESP (Suc fuel) (prefix # s) = ReadFails e'"
          | v where "readRESP (Suc fuel) (prefix # s) = Read v rest"
          using readRESP_simple [OF rl p other, of fuel] by blast
        then show ?thesis
        proof cases
          case 1
          show ?thesis unfolding 1 by simp
        next
          case 2
          show ?thesis unfolding 2 using short by auto
        qed
      qed
    qed
  qed
next
  case (6 fuel n s)
  have one: "readRESP fuel s \<noteq> NoFuel \<and> (\<forall>v r. readRESP fuel s = Read v r \<longrightarrow> length r + 2 \<le> length s)"
    using 6 by simp
  show ?case
  proof (cases "readRESP fuel s")
    case (Read v rest)
    then have "length rest + 2 \<le> length s" using one by simp
    then have "read_array fuel n rest \<noteq> NoFuel
        \<and> (\<forall>vs r. read_array fuel n rest = Read vs r \<longrightarrow> length r + 2 * n \<le> length rest)"
      using 6 Read by simp
    then show ?thesis using Read \<open>length rest + 2 \<le> length s\<close>
      by (cases "read_array fuel n rest") simp_all
  qed (use one in auto)
qed auto

lemma readRESP_no_array:
  assumes "read_line s = Some (line, rest)" "parse_int line = (n, e)"
    "\<not> (prefix = CHR ''*'' \<and> e = None \<and> 0 \<le> n \<and> make_ok 16 n)"
  shows "readRESP (Suc f) (prefix # s) = readRESP (Suc g) (prefix # s)"
proof (cases e)
  case None
  then show ?thesis using assms by (cases "prefix = CHR ''*''") simp_all
next
  case (Some x)
  then show ?thesis using assms(1,2) by simp
qed

lemma read_more_fuel:
  "readRESP fuel s \<noteq> NoFuel \<Longrightarrow> fuel \<le> fuel' \<Longrightarrow> readRESP fuel' s = readRESP fuel s"
  "read_array fuel n s \<noteq> NoFuel \<Longrightarrow> fuel \<le> fuel' \<Longrightarrow> read_array fuel' n s = read_array fuel n s"
proof (induction fuel s and fuel n s arbitrary: fuel' and fuel' rule: readRESP_read_array.induct)
  case (3 fuel prefix s)
  from 3(3) obtain f where f: "fuel' = Suc f" "fuel \<le> f" by (cases fuel') auto
  show ?case
  proof (cases "read_line s")
    case None
    then show ?thesis using f by simp
  next
    case (Some lr)
    obtain line rest where lr: "lr = (line, rest)" by (cases lr)
    obtain n e where p: "parse_int line = (n, e)" by (metis surj_pair)
    show ?thesis
    proof (cases "prefix = CHR ''*'' \<and> e = None \<and> 0 \<le> n \<and> make_ok 16 n")
      case True
      have "read_array fuel (nat n) rest \<noteq> NoFuel"
      proof
        assume "read_array fuel (nat n) rest = NoFuel"
        then have "readRESP (Suc fuel) (prefix # s) = NoFuel" using True Some lr p by simp
        with 3(2) show False by contradiction
      qed
      then have "read_array f (nat n) rest = read_array fuel (nat n) rest"
        using True Some lr p f(2)
        by (intro 3(1) [of lr line rest n e]) (simp_all only: simp_thms, simp_all)
      then show ?thesis using True Some lr p f by simp
    next
      case False
      have rl: "read_line s = Some (line, rest)" using Some lr by simp
      show ?thesis unfolding f by (rule readRESP_no_array [OF rl p False])
    qed
  qed
next
  case (5 fuel s)
  then show ?case by (cases fuel') auto
next
  case (6 fuel n s)
  from 6(4) obtain f where f: "fuel' = Suc f" "fuel \<le> f" by (cases fuel') auto
  have "readRESP fuel s \<noteq> NoFuel"
  proof
    assume "readRESP fuel s = NoFuel"
    then have "read_array (Suc fuel) (Suc n) s = NoFuel" by simp
    with 6(3) show False by contradiction
  qed
  then have one: "readRESP f s = readRESP fuel s" using f(2) by (rule 6(1))
  show ?case
  proof (cases "readRESP fuel s")
    case (Read v rest)
    have "read_array fuel n rest \<noteq> NoFuel"
    proof
      assume "read_array fuel n rest = NoFuel"
      then have "read_array (Suc fuel) (Suc n) s = NoFuel" using Read by simp
      with 6(3) show False by contradiction
    qed
    then have "read_array f n rest = read_array fuel n rest" using f(2) by (rule 6(2) [OF Read])
    then show ?thesis unfolding f using Read one by simp
  qed (unfold f, use one in simp_all)
next
  case (2 fuel)
  then show ?case by (cases fuel') auto
qed auto


text \<open>\<open>readRESP\<close> returns on every finite input: the fuel suffices, more fuel changes nothing, and
  a reply that was read took at least its prefix and a line feed, so a reader that goes on reading
  replies makes progress.\<close>

theorem readRESP_returns:
  "read_reply s \<noteq> NoFuel \<and> (\<forall>fuel. read_fuel s \<le> fuel \<longrightarrow> readRESP fuel s = read_reply s)
     \<and> (\<forall>v rest. read_reply s = Read v rest \<longrightarrow> length rest + 2 \<le> length s)"
proof -
  have fuel: "2 * length s + 1 \<le> read_fuel s" by (simp add: read_fuel_def)
  have "read_reply s \<noteq> NoFuel"
    "\<forall>v rest. read_reply s = Read v rest \<longrightarrow> length rest + 2 \<le> length s"
    using read_terminates(1) [OF fuel] unfolding read_reply_def by blast+
  then show ?thesis using read_more_fuel(1) unfolding read_reply_def by blast
qed

lemma read_reply_any_fuel:
  assumes "readRESP fuel s = x" and "x \<noteq> NoFuel"
  shows "read_reply s = x"
proof -
  have "readRESP (max fuel (read_fuel s)) s = x" using read_more_fuel(1) [of fuel s] assms by simp
  moreover have "2 * length s + 1 \<le> read_fuel s" by (simp add: read_fuel_def)
  then have "readRESP (read_fuel s) s \<noteq> NoFuel" using read_terminates(1) by blast
  then have "readRESP (max fuel (read_fuel s)) s = readRESP (read_fuel s) s"
    by (rule read_more_fuel(1)) simp
  ultimately show ?thesis by (simp add: read_reply_def)
qed

section \<open>Round trips\<close>

text \<open>The protocol's serialisation of a value, as the server sends it.\<close>

fun encode :: "resp \<Rightarrow> string" where
  "encode RNil = ''$-1'' @ crlf"
| "encode (RStr s) = CHR ''$'' # itoa (int (length s)) @ crlf @ s @ crlf"
| "encode (RInt n) = CHR '':'' # itoa n @ crlf"
| "encode (RArr vs) = CHR ''*'' # itoa (int (length vs)) @ crlf @ concat (map encode vs)"

text \<open>What fits a 64-bit client.\<close>

fun fits :: "resp \<Rightarrow> bool" where
  "fits RNil = True"
| "fits (RStr s) = (int (length s) + 2 \<le> 2 ^ 48)"
| "fits (RInt n) = is_int64 n"
| "fits (RArr vs) = (16 * int (length vs) \<le> 2 ^ 48 \<and> list_all fits vs)"

lemma read_line_crlf: "CHR 0x0A \<notin> set l \<Longrightarrow> read_line (l @ crlf @ rest) = Some (l, rest)"
proof -
  assume l: "CHR 0x0A \<notin> set l"
  then have "takeWhile (\<lambda>c. c \<noteq> CHR 0x0A) (l @ crlf @ rest) = l @ [CHR 0x0D]"
    "dropWhile (\<lambda>c. c \<noteq> CHR 0x0A) (l @ crlf @ rest) = CHR 0x0A # rest"
    by (auto simp: crlf_def takeWhile_append dropWhile_append)
  then show ?thesis
    by (simp add: read_line_def trim_suffix_def has_suffix_def has_prefix_def) (simp add: crlf_def)
qed

lemma itoa_no_lf: "CHR 0x0A \<notin> set (itoa n)"
  using itoa_nat_digits [of "CHR 0x0A"]
  by (auto simp: itoa_def is_digit_def less_eq_char_def)

lemma parse_int_itoa: "is_int64 n \<Longrightarrow> parse_int (itoa n) = (n, None)"
proof (cases "n < 0")
  case False
  then show "is_int64 n \<Longrightarrow> ?thesis"
    using parse_int_itoa_nat [of "nat n"] by (simp add: itoa_def is_int64_def nat_less_iff)
next
  case True
  assume "is_int64 n"
  then have n: "nat (- n) \<le> 2 ^ 63" by (simp add: is_int64_def nat_le_iff)
  then have "parse_uint 0 (itoa_nat (nat (- n))) = Inr (nat (- n))" by (intro parse_uint_itoa) simp
  then show ?thesis using True n by (simp add: itoa_def parse_int_def Let_def)
qed

lemma length_is_int64: "int n + 2 \<le> 2 ^ 48 \<Longrightarrow> is_int64 (int n)" "16 * int n \<le> 2 ^ 48 \<Longrightarrow> is_int64 (int n)"
  by (simp_all add: is_int64_def)

lemma read_bulk_encoded:
  "int (length s) + 2 \<le> 2 ^ 48 \<Longrightarrow> read_bulk (int (length s)) (s @ crlf @ rest) = Read (RStr s) rest"
proof -
  assume s: "int (length s) + 2 \<le> 2 ^ 48"
  then have "to_int64 (int (length s) + 2) = int (length s) + 2"
    by (intro to_int64_id) (simp add: is_int64_def)
  moreover have "nat (int (length s) + 2) = length s + 2" by simp
  ultimately show ?thesis using s
    by (simp add: read_bulk_def Let_def make_ok_def crlf_def del: of_nat_add)
qed


lemma read_encoded:
  "fits v \<Longrightarrow> \<exists>fuel. readRESP fuel (encode v @ rest) = Read v rest"
proof (induction v arbitrary: rest)
  case RNil
  have "read_line (''-1'' @ crlf @ rest) = Some (''-1'', rest)" by (rule read_line_crlf) simp
  moreover have "parse_int ''-1'' = (-1, None)"
    by (simp add: parse_int_def is_digit_def digit_val_def less_eq_char_def)
  ultimately have "readRESP (Suc 0) (encode RNil @ rest) = Read RNil rest" by simp
  then show ?case by blast
next
  case (RStr s)
  then have len: "int (length s) + 2 \<le> 2 ^ 48" by simp
  have "readRESP (Suc 0) (encode (RStr s) @ rest) = Read (RStr s) rest"
    using read_line_crlf [OF itoa_no_lf, of "int (length s)" "s @ crlf @ rest"]
      parse_int_itoa [OF length_is_int64(1) [OF len]] read_bulk_encoded [OF len, of rest]
    by simp
  then show ?case by blast
next
  case (RInt n)
  then have "readRESP (Suc 0) (encode (RInt n) @ rest) = Read (RInt n) rest"
    using read_line_crlf [OF itoa_no_lf, of n rest] parse_int_itoa [of n] by simp
  then show ?case by blast
next
  case (RArr vs)
  have arr: "\<exists>fuel. read_array fuel (length ws) (concat (map encode ws) @ rest) = Read ws rest"
    if "set ws \<subseteq> set vs" for ws
    using that
  proof (induction ws)
    case Nil
    have "read_array (Suc 0) 0 rest = Read [] rest" by simp
    then have "\<exists>fuel. read_array fuel 0 rest = Read [] rest" by blast
    then show ?case by simp
  next
    case (Cons w ws)
    obtain g where g: "read_array g (length ws) (concat (map encode ws) @ rest) = Read ws rest"
      using Cons by auto
    have "fits w" using Cons.prems RArr.prems by (auto simp: list_all_iff)
    then obtain f where f: "readRESP f (encode w @ concat (map encode ws) @ rest)
        = Read w (concat (map encode ws) @ rest)"
      using RArr.IH Cons.prems by (meson list.set_intros(1) subset_code(1))
    have "readRESP (max f g) (encode w @ concat (map encode ws) @ rest)
        = Read w (concat (map encode ws) @ rest)"
      using read_more_fuel(1) [of f _ "max f g"] f by simp
    moreover have "read_array (max f g) (length ws) (concat (map encode ws) @ rest) = Read ws rest"
      using read_more_fuel(2) [of g _ _ "max f g"] g by simp
    ultimately have "read_array (Suc (max f g)) (length (w # ws)) (concat (map encode (w # ws)) @ rest)
        = Read (w # ws) rest" by simp
    then show ?case by blast
  qed
  then obtain f where f: "read_array f (length vs) (concat (map encode vs) @ rest) = Read vs rest"
    by blast
  have len: "16 * int (length vs) \<le> 2 ^ 48" using RArr.prems by simp
  have "readRESP (Suc f) (encode (RArr vs) @ rest) = Read (RArr vs) rest"
    using read_line_crlf [OF itoa_no_lf, of "int (length vs)" "concat (map encode vs) @ rest"]
      parse_int_itoa [OF length_is_int64(2) [OF len]] len f
    by (simp add: make_ok_def)
  then show ?case by blast
qed

text \<open>C21: Replies survive the wire. Every value the server can send, nested arrays and strings with
  arbitrary bytes included, is read back exactly as it was encoded, and the bytes behind it stay
  unread.\<close>

theorem reply_roundtrip: "fits v \<Longrightarrow> read_reply (encode v @ rest) = Read v rest"
  using read_encoded read_reply_any_fuel by blast

text \<open>A connection that takes every write, as the bytes written so far.\<close>

definition lossless :: "string \<Rightarrow> string \<Rightarrow> string \<times> go_error option" where
  "lossless p c = (c @ p, None)"

lemma write_pieces_lossless: "write_pieces lossless ps c = (c @ concat ps, None)"
  by (induction ps arbitrary: c) (simp_all add: lossless_def)

text \<open>C22: Commands survive the wire. What \<open>writeCommand\<close> puts on a connection is one array of bulk
  strings: read by the same protocol it gives back exactly the arguments, with line breaks or any
  other bytes inside them, so that no argument can smuggle in a second command.\<close>

theorem command_roundtrip:
  assumes "16 * int (length args) \<le> 2 ^ 48" and "\<forall>a \<in> set args. int (length a) + 2 \<le> 2 ^ 48"
  shows "\<exists>sent. writeCommand lossless args [] = (sent, None)
    \<and> read_reply (sent @ rest) = Read (RArr (map RStr args)) rest"
proof -
  have enc: "concat (map (\<lambda>arg. CHR ''$'' # itoa (int (length arg)) @ crlf @ arg @ crlf) as)
      = concat (map encode (map RStr as))" for as
    by (induction as) simp_all
  have "concat (command_pieces args) = encode (RArr (map RStr args))"
    using enc [of args] by (simp add: command_pieces_def)
  then have "writeCommand lossless args [] = (encode (RArr (map RStr args)), None)"
    by (simp add: writeCommand_def write_pieces_lossless)
  moreover have "fits (RArr (map RStr args))" using assms by (simp add: list_all_iff)
  ultimately show ?thesis using read_encoded read_reply_any_fuel by blast
qed


theorem reply_roundtrip_witness:
  "read_reply (encode (RArr [RStr (''a'' @ crlf), RInt (- 3), RNil]) @ ''x'')
     = Read (RArr [RStr (''a'' @ crlf), RInt (- 3), RNil]) ''x''"
  by (rule reply_roundtrip) (simp add: is_int64_def crlf_def)

theorem command_roundtrip_witness:
  "\<exists>sent. writeCommand lossless [''SET'', ''k'', ''v'' @ crlf @ ''DEL x''] [] = (sent, None)
    \<and> read_reply (sent @ []) = Read (RArr [RStr ''SET'', RStr ''k'', RStr (''v'' @ crlf @ ''DEL x'')]) []"
  using command_roundtrip [of "[''SET'', ''k'', ''v'' @ crlf @ ''DEL x'']" "[]"]
  by (simp add: crlf_def)

theorem readRESP_returns_witness:
  "readRESP 1000 (encode (RArr [RStr ''OK'', RInt 7]) @ ''rest'') = Read (RArr [RStr ''OK'', RInt 7]) ''rest''"
proof -
  let ?v = "RArr [RStr ''OK'', RInt 7]"
  have "\<exists>f. readRESP f (encode ?v @ ''rest'') = Read ?v ''rest''"
    by (rule read_encoded) (simp add: is_int64_def)
  then have r: "read_reply (encode ?v @ ''rest'') = Read ?v ''rest''"
    using read_reply_any_fuel by blast
  have "itoa 2 = ''2''" "itoa 7 = ''7''"
    by (simp_all add: itoa_def itoa_nat.simps digit_char_def) (code_simp, code_simp)
  then have "length (encode ?v @ ''rest'') < 100" by (simp add: crlf_def)
  then have "read_fuel (encode ?v @ ''rest'') \<le> 1000" by (simp only: read_fuel_def)
  then show ?thesis using readRESP_returns [of "encode ?v @ ''rest''"] r by metis
qed

section \<open>The client\<close>

text \<open>
  The network: dialling an address with or without TLS, writing, the bytes a connection will still
  deliver before it ends, and marking some of them read.
\<close>

record 'c net =
  n_dial :: "string \<Rightarrow> bool \<Rightarrow> go_error + 'c"
  n_write :: "string \<Rightarrow> 'c \<Rightarrow> 'c \<times> go_error option"
  n_incoming :: "'c \<Rightarrow> string"
  n_advance :: "string \<Rightarrow> 'c \<Rightarrow> 'c"

record 'c client =
  addr :: string
  password :: string
  db :: int
  useTLS :: bool
  conn :: "'c option"

definition trim_slashes :: "string \<Rightarrow> string" where
  "trim_slashes s =
     rev (dropWhile (\<lambda>c. c = CHR ''/'') (rev (dropWhile (\<lambda>c. c = CHR ''/'') s)))"

definition NewClient :: "string \<Rightarrow> 'c client result" where
  "NewClient rawURL0 =
     (let rawURL = (if rawURL0 = '''' then ''redis://localhost:6379/0'' else rawURL0)
      in case Parse rawURL of
           None \<Rightarrow> Inl (ErrNew ''parse'')
         | Some u \<Rightarrow>
             if Scheme u \<noteq> ''redis'' \<and> Scheme u \<noteq> ''rediss''
             then Inl (ErrNew (''unsupported redis scheme '' @ Scheme u))
             else
               (let host = (if CHR '':'' \<in> set (Host u) then Host u else Host u @ '':6379'');
                    pass0 = (case User u of Some (_, Some p) \<Rightarrow> p | _ \<Rightarrow> '''');
                    pass = (if pass0 = '''' then (case User u of Some (name, _) \<Rightarrow> name | None \<Rightarrow> '''')
                            else pass0);
                    path = trim_slashes (Path u)
                in Inr \<lparr>addr = host, password = pass,
                        db = (if path \<noteq> '''' then fst (parse_int path) else 0),
                        useTLS = (Scheme u = ''rediss''), conn = None\<rparr>))"

text \<open>One request and its reply on an open connection: \<open>writeCommand\<close>, then \<open>readRESP\<close>.\<close>

definition exchange :: "'c net \<Rightarrow> string list \<Rightarrow> 'c \<Rightarrow> 'c \<times> resp reading" where
  "exchange N args c =
     (case writeCommand (n_write N) args c of
        (c1, Some e) \<Rightarrow> (c1, ReadFails e)
      | (c1, None) \<Rightarrow>
          (case read_reply (n_incoming N c1) of
             Read v rest \<Rightarrow> (n_advance N rest c1, Read v rest)
           | failed \<Rightarrow> (c1, failed)))"

text \<open>
  The handshake steps of \<open>ensureConn\<close>. The result is \<open>Read\<close> when the connection is ready; an
  error closes it; a panic leaves the field as it is.
\<close>

definition handshake :: "'c client \<Rightarrow> string list list" where
  "handshake cl =
     (if password cl \<noteq> '''' then [[''AUTH'', password cl]] else [])
     @ (if 0 < db cl then [[''SELECT'', itoa (db cl)]] else [])"

fun run_handshake :: "'c net \<Rightarrow> string list list \<Rightarrow> 'c \<Rightarrow> 'c \<times> unit reading" where
  "run_handshake N [] c = (c, Read () [])"
| "run_handshake N (cmd # cmds) c =
     (case exchange N cmd c of
        (c1, Read _ _) \<Rightarrow> run_handshake N cmds c1
      | (c1, ReadFails e) \<Rightarrow> (c1, ReadFails e)
      | (c1, Panics m) \<Rightarrow> (c1, Panics m)
      | (c1, NoFuel) \<Rightarrow> (c1, NoFuel))"

definition ensureConn :: "'c net \<Rightarrow> 'c client \<Rightarrow> 'c client \<times> unit reading" where
  "ensureConn N cl =
     (if conn cl \<noteq> None then (cl, Read () [])
      else (case n_dial N (addr cl) (useTLS cl) of
              Inl e \<Rightarrow> (cl, ReadFails e)
            | Inr c \<Rightarrow>
                (case run_handshake N (handshake cl) c of
                   (c', ReadFails e) \<Rightarrow> (cl\<lparr>conn := None\<rparr>, ReadFails e)
                 | (c', r) \<Rightarrow> (cl\<lparr>conn := Some c'\<rparr>, r))))"

definition Do :: "'c net \<Rightarrow> string list \<Rightarrow> 'c client \<Rightarrow> 'c client \<times> resp reading" where
  "Do N args cl =
     (case ensureConn N cl of
        (cl1, Read _ _) \<Rightarrow>
          (case conn cl1 of
             None \<Rightarrow> (cl1, NoFuel)
           | Some c \<Rightarrow>
               (case exchange N args c of
                  (c', ReadFails e) \<Rightarrow> (cl1\<lparr>conn := None\<rparr>, ReadFails e)
                | (c', r) \<Rightarrow> (cl1\<lparr>conn := Some c'\<rparr>, r)))
      | (cl1, ReadFails e) \<Rightarrow> (cl1, ReadFails e)
      | (cl1, Panics m) \<Rightarrow> (cl1, Panics m)
      | (cl1, NoFuel) \<Rightarrow> (cl1, NoFuel))"

definition Close :: "'c client \<Rightarrow> 'c client" where
  "Close cl = cl\<lparr>conn := None\<rparr>"


text \<open>C23: Replies are never paired with the wrong command. A \<open>Do\<close> that fails (dialling, handshake,
  writing, a broken or an error reply) leaves no connection behind, so the next call starts on a new
  one; a \<open>Do\<close> that succeeds leaves the connection at the first byte behind the reply it returned.\<close>

theorem Do_keeps_in_step:
  assumes "Do N args cl = (cl', r)"
  shows "(\<forall>e. r = ReadFails e \<longrightarrow> conn cl' = None)
    \<and> (\<forall>v rest. r = Read v rest \<longrightarrow>
         (\<exists>c1. conn cl' = Some (n_advance N rest c1) \<and> read_reply (n_incoming N c1) = Read v rest))
    \<and> addr cl' = addr cl \<and> password cl' = password cl \<and> db cl' = db cl \<and> useTLS cl' = useTLS cl"
proof -
  have ens: "(\<forall>e. r0 = ReadFails e \<longrightarrow> conn cl1 = None) \<and> addr cl1 = addr cl \<and> password cl1 = password cl
      \<and> db cl1 = db cl \<and> useTLS cl1 = useTLS cl \<and> (\<forall>u s. r0 = Read u s \<longrightarrow> conn cl1 \<noteq> None)"
    if "ensureConn N cl = (cl1, r0)" for cl1 r0
    using that by (auto simp: ensureConn_def split: if_splits sum.splits prod.splits reading.splits)
  have exch: "\<exists>c1. c' = n_advance N rest c1 \<and> read_reply (n_incoming N c1) = Read v rest"
    if "exchange N as c = (c', Read v rest)" for as c c' v rest
    using that by (auto simp: exchange_def split: prod.splits option.splits reading.splits)
  obtain cl1 r0 where e: "ensureConn N cl = (cl1, r0)" by (metis surj_pair)
  show ?thesis
  proof (cases r0)
    case (Read u s)
    then obtain c where c: "conn cl1 = Some c" using ens [OF e] by auto
    obtain c' r' where x: "exchange N args c = (c', r')" by (metis surj_pair)
    show ?thesis using assms ens [OF e] e Read c x exch [of args c c']
      by (cases r') (auto simp: Do_def)
  qed (use assms ens [OF e] e in \<open>auto simp: Do_def\<close>)
qed

text \<open>A server that answers every command on a fresh connection with the given bytes.\<close>

definition scripted :: "string \<Rightarrow> (string \<times> string) net" where
  "scripted replies = \<lparr>n_dial = (\<lambda>_ _. Inr ([], replies)), n_write = (\<lambda>p (out, inc). ((out @ p, inc), None)),
     n_incoming = snd, n_advance = (\<lambda>rest (out, _). (out, rest))\<rparr>"

definition demo_client :: "(string \<times> string) client" where
  "demo_client = \<lparr>addr = ''r:6379'', password = '''', db = 0, useTLS = False, conn = None\<rparr>"

theorem Do_keeps_in_step_witness:
  "\<exists>cl. Do (scripted (''-ERR no'' @ crlf @ ''+late'' @ crlf)) [''GET'', ''k''] demo_client
          = (cl, ReadFails (ErrNew ''ERR no'')) \<and> conn cl = None"
proof -
  let ?N = "scripted (''-ERR no'' @ crlf @ ''+late'' @ crlf)"
  have rl: "read_line (''ERR no'' @ crlf @ ''+late'' @ crlf) = Some (''ERR no'', ''+late'' @ crlf)"
    by (rule read_line_crlf) simp
  then have "readRESP (Suc 0) (''-ERR no'' @ crlf @ ''+late'' @ crlf) = ReadFails (ErrNew ''ERR no'')"
    by simp
  then have rr: "read_reply (''-ERR no'' @ crlf @ ''+late'' @ crlf) = ReadFails (ErrNew ''ERR no'')"
    by (rule read_reply_any_fuel) simp
  have w: "write_pieces (\<lambda>p (out, inc). ((out @ p, inc), None)) ps (out, inc) = ((out @ concat ps, inc), None)"
    for ps and out inc :: string
    by (induction ps arbitrary: out) simp_all
  obtain cl r where d: "Do ?N [''GET'', ''k''] demo_client = (cl, r)" by (metis surj_pair)
  moreover from d have "r = ReadFails (ErrNew ''ERR no'')"
    using rr by (simp add: Do_def ensureConn_def demo_client_def scripted_def handshake_def exchange_def
        writeCommand_def w)
  ultimately show ?thesis using Do_keeps_in_step [OF d] by blast
qed

text \<open>A length field is trusted as it comes. A bulk reply that announces the largest int makes
  the buffer length \<open>n + 2\<close> wrap around, and \<open>make\<close> panics instead of returning an error.\<close>

theorem huge_bulk_length_panics:
  "read_reply (''$9223372036854775807'' @ crlf @ rest) = Panics ''makeslice: len out of range''"
proof -
  have "parse_int ''9223372036854775807'' = (2 ^ 63 - 1, None)"
    by (simp add: parse_int_def is_digit_def digit_val_def less_eq_char_def)
  moreover have "read_line (''9223372036854775807'' @ crlf @ rest) = Some (''9223372036854775807'', rest)"
    by (rule read_line_crlf) simp
  moreover have "to_int64 (2 ^ 63 - 1 + 2) = - (2 ^ 63) + 1" by (simp add: to_int64_def)
  ultimately have "readRESP (Suc 0) (''$9223372036854775807'' @ crlf @ rest)
      = Panics ''makeslice: len out of range''"
    by (simp add: read_bulk_def Let_def make_ok_def)
  then show ?thesis by (rule read_reply_any_fuel) simp
qed


end
