(* ===== verification/Redis_Server.thy ===== *)
theory Redis_Server
  imports Resp
begin

text \<open>
  The Redis server, which is not part of the repository: a state with a keyspace, and a function
  \<open>cmd\<close> that stands for \<open>Client.Do\<close>, sends one command and returns the reply or an error. The
  locale \<open>redis\<close> states what the documentation promises of the commands the program uses; a
  command may fail, before or after it took effect. \<open>redis_up\<close> adds that commands of the right
  type do not fail. \<open>redis_exec\<close> is an executable server that satisfies both.
\<close>

section \<open>The keyspace\<close>

datatype rvalue =
    VStr string
  | VHash "string \<Rightarrow> string option"
  | VList "string list"
  | VZSet "string \<Rightarrow> int option"

type_synonym keyspace = "string \<Rightarrow> rvalue option"

text \<open>A missing key reads as the empty value of the type asked for; another type is an error.\<close>

fun as_str :: "rvalue option \<Rightarrow> string option option" where
  "as_str None = Some None"
| "as_str (Some (VStr s)) = Some (Some s)"
| "as_str _ = None"

fun as_hash :: "rvalue option \<Rightarrow> (string \<Rightarrow> string option) option" where
  "as_hash None = Some Map.empty"
| "as_hash (Some (VHash h)) = Some h"
| "as_hash _ = None"

fun as_list :: "rvalue option \<Rightarrow> string list option" where
  "as_list None = Some []"
| "as_list (Some (VList xs)) = Some xs"
| "as_list _ = None"

fun as_zset :: "rvalue option \<Rightarrow> (string \<Rightarrow> int option) option" where
  "as_zset None = Some Map.empty"
| "as_zset (Some (VZSet z)) = Some z"
| "as_zset _ = None"

text \<open>Empty lists and sorted sets do not exist: the key is removed.\<close>

definition list_value :: "string list \<Rightarrow> rvalue option" where
  "list_value xs = (if xs = [] then None else Some (VList xs))"

definition zset_value :: "(string \<Rightarrow> int option) \<Rightarrow> rvalue option" where
  "zset_value z = (if z = Map.empty then None else Some (VZSet z))"

lemma as_list_value [simp]: "as_list (list_value xs) = Some xs"
  by (simp add: list_value_def)

lemma as_zset_value [simp]: "as_zset (zset_value z) = Some z"
  by (simp add: zset_value_def)

section \<open>The documented commands\<close>

text \<open>
  A command took effect and was answered as \<open>reply\<close> says, or took effect and the answer was lost,
  or failed without effect.
\<close>

definition answers ::
    "keyspace \<Rightarrow> keyspace \<Rightarrow> (resp \<Rightarrow> bool) \<Rightarrow> keyspace \<Rightarrow> resp result \<Rightarrow> bool" where
  "answers d new reply d' res \<longleftrightarrow>
     (d' = new \<and> (case res of Inr v \<Rightarrow> reply v | Inl _ \<Rightarrow> True)) \<or> (d' = d \<and> (\<exists>e. res = Inl e))"

text \<open>Scores are doubles, exact for the integers used here.\<close>

definition is_score :: "int \<Rightarrow> bool" where
  "is_score s \<longleftrightarrow> \<bar>s\<bar> \<le> 2 ^ 53"

definition field_args :: "(string \<times> string) list \<Rightarrow> string list" where
  "field_args fvs = concat (map (\<lambda>(f, x). [f, x]) fvs)"

locale redis =
  fixes cmd :: "string list \<Rightarrow> 'r \<Rightarrow> 'r \<times> resp result"
    and kv :: "'r \<Rightarrow> keyspace"
  assumes hset: "as_hash (kv r k) = Some h \<Longrightarrow> fvs \<noteq> [] \<Longrightarrow>
      cmd (''HSET'' # k # field_args fvs) r = (r', res) \<Longrightarrow>
      answers (kv r) ((kv r)(k \<mapsto> VHash (h ++ map_of (rev fvs)))) (\<lambda>_. True) (kv r') res"
    and hgetall: "as_hash (kv r k) = Some h \<Longrightarrow> cmd [''HGETALL'', k] r = (r', res) \<Longrightarrow>
      answers (kv r) (kv r)
        (\<lambda>v. \<exists>l. v = RArr (map RStr (field_args l)) \<and> map_of l = h \<and> distinct (map fst l)) (kv r') res"
    and del: "cmd [''DEL'', k] r = (r', res) \<Longrightarrow>
      answers (kv r) ((kv r)(k := None)) (\<lambda>_. True) (kv r') res"
    and set_nx: "cmd [''SET'', k, x, ''NX''] r = (r', res) \<Longrightarrow>
      (if kv r k = None
       then answers (kv r) ((kv r)(k \<mapsto> VStr x)) (\<lambda>v. v = RStr ''OK'') (kv r') res
       else answers (kv r) (kv r) (\<lambda>v. v = RNil) (kv r') res)"
    and get: "as_str (kv r k) = Some w \<Longrightarrow> cmd [''GET'', k] r = (r', res) \<Longrightarrow>
      answers (kv r) (kv r) (\<lambda>v. v = (case w of None \<Rightarrow> RNil | Some x \<Rightarrow> RStr x)) (kv r') res"
    and lpush: "as_list (kv r k) = Some xs \<Longrightarrow> cmd [''LPUSH'', k, x] r = (r', res) \<Longrightarrow>
      answers (kv r) ((kv r)(k := list_value (x # xs))) (\<lambda>_. True) (kv r') res"
    and lrem: "as_list (kv r k) = Some xs \<Longrightarrow> cmd [''LREM'', k, ''0'', x] r = (r', res) \<Longrightarrow>
      answers (kv r) ((kv r)(k := list_value (removeAll x xs))) (\<lambda>_. True) (kv r') res"
    and lrange: "as_list (kv r k) = Some xs \<Longrightarrow> cmd [''LRANGE'', k, ''0'', ''199''] r = (r', res) \<Longrightarrow>
      answers (kv r) (kv r) (\<lambda>v. v = RArr (map RStr (take 200 xs))) (kv r') res"
    and llen: "as_list (kv r k) = Some xs \<Longrightarrow> cmd [''LLEN'', k] r = (r', res) \<Longrightarrow>
      answers (kv r) (kv r) (\<lambda>v. v = RInt (int (length xs))) (kv r') res"
    and brpop: "as_list (kv r k) = Some xs \<Longrightarrow> cmd [''BRPOP'', k, ''5''] r = (r', res) \<Longrightarrow>
      answers (kv r) (if xs = [] then kv r else (kv r)(k := list_value (butlast xs)))
        (\<lambda>v. v = (if xs = [] then RNil else RArr [RStr k, RStr (last xs)])) (kv r') res"
    and zadd: "as_zset (kv r k) = Some z \<Longrightarrow> is_score s \<Longrightarrow> cmd [''ZADD'', k, itoa s, m] r = (r', res) \<Longrightarrow>
      answers (kv r) ((kv r)(k := zset_value (z(m \<mapsto> s)))) (\<lambda>_. True) (kv r') res"
    and zrem: "as_zset (kv r k) = Some z \<Longrightarrow> cmd [''ZREM'', k, m] r = (r', res) \<Longrightarrow>
      answers (kv r) ((kv r)(k := zset_value (z(m := None)))) (\<lambda>_. True) (kv r') res"
    and zcard: "as_zset (kv r k) = Some z \<Longrightarrow> cmd [''ZCARD'', k] r = (r', res) \<Longrightarrow>
      answers (kv r) (kv r) (\<lambda>v. v = RInt (int (card (dom z)))) (kv r') res"
    and zrange: "as_zset (kv r k) = Some z \<Longrightarrow> is_score s \<Longrightarrow>
      cmd [''ZRANGEBYSCORE'', k, ''-inf'', itoa s, ''LIMIT'', ''0'', ''25''] r = (r', res) \<Longrightarrow>
      answers (kv r) (kv r)
        (\<lambda>v. \<exists>ms. v = RArr (map RStr ms) \<and> distinct ms \<and> length ms \<le> 25
            \<and> set ms \<subseteq> {m. \<exists>q. z m = Some q \<and> q \<le> s}
            \<and> (length ms < 25 \<longrightarrow> set ms = {m. \<exists>q. z m = Some q \<and> q \<le> s})) (kv r') res"

text \<open>Whether the command's key holds the type the command works on.\<close>

definition well_typed :: "string list \<Rightarrow> keyspace \<Rightarrow> bool" where
  "well_typed args d \<longleftrightarrow>
     (case args of
        c # k # _ \<Rightarrow>
          if c = ''HSET'' \<or> c = ''HGETALL'' then as_hash (d k) \<noteq> None
          else if c = ''GET'' then as_str (d k) \<noteq> None
          else if c = ''LPUSH'' \<or> c = ''LREM'' \<or> c = ''LRANGE'' \<or> c = ''LLEN'' \<or> c = ''BRPOP''
          then as_list (d k) \<noteq> None
          else if c = ''ZADD'' \<or> c = ''ZREM'' \<or> c = ''ZCARD'' \<or> c = ''ZRANGEBYSCORE''
          then as_zset (d k) \<noteq> None
          else c = ''SET'' \<or> c = ''DEL''
      | _ \<Rightarrow> False)"

text \<open>A server that is reachable and answers every command of the right type.\<close>

locale redis_up = redis +
  assumes up: "well_typed args (kv r) \<Longrightarrow> \<exists>v. snd (cmd args r) = Inr v"
begin

text \<open>Then a command has its effect and its reply.\<close>

lemma done_by:
  assumes "well_typed args (kv r)" and "cmd args r = (r', res)" and "answers (kv r) new reply (kv r') res"
  shows "\<exists>v. res = Inr v \<and> kv r' = new \<and> reply v"
  using assms up [OF assms(1)] by (auto simp: answers_def)

end

section \<open>An executable server\<close>

datatype cvalue =
    CStr string | CHash "(string \<times> string) list" | CList "string list" | CZSet "(string \<times> int) list"

type_synonym redis_state = "(string, cvalue) gomap"

fun cvalue_of :: "cvalue \<Rightarrow> rvalue" where
  "cvalue_of (CStr s) = VStr s"
| "cvalue_of (CHash l) = VHash (map_of l)"
| "cvalue_of (CList xs) = VList xs"
| "cvalue_of (CZSet l) = VZSet (map_of l)"

definition redis_db :: "redis_state \<Rightarrow> keyspace" where
  "redis_db s k = map_option cvalue_of (map_of s k)"

fun pair_up :: "string list \<Rightarrow> (string \<times> string) list" where
  "pair_up (a # b # r) = (a, b) # pair_up r"
| "pair_up _ = []"

definition store_list :: "string \<Rightarrow> string list \<Rightarrow> redis_state \<Rightarrow> redis_state" where
  "store_list k xs s = (if xs = [] then gm_del k s else gm_put k (CList xs) s)"

definition store_zset :: "string \<Rightarrow> (string \<times> int) list \<Rightarrow> redis_state \<Rightarrow> redis_state" where
  "store_zset k l s = (if l = [] then gm_del k s else gm_put k (CZSet l) s)"

definition wrong_type :: "redis_state \<Rightarrow> redis_state \<times> resp result" where
  "wrong_type s = (s, Inl (ErrNew ''WRONGTYPE Operation against a key holding the wrong kind of value''))"

definition exec_hash :: "string \<Rightarrow> string \<Rightarrow> string list \<Rightarrow> (string \<times> string) list \<Rightarrow> redis_state
    \<Rightarrow> redis_state \<times> resp result" where
  "exec_hash c k args l s =
     (if c = ''HSET''
      then (gm_put k (CHash (fold (\<lambda>(f, x). gm_put f x) (pair_up args) l)) s, Inr (RInt (int (length args div 2))))
      else (s, Inr (RArr (map RStr (field_args (map (\<lambda>f. (f, the (map_of l f))) (remdups (map fst l))))))))"

definition exec_list :: "string \<Rightarrow> string \<Rightarrow> string list \<Rightarrow> string list \<Rightarrow> redis_state
    \<Rightarrow> redis_state \<times> resp result" where
  "exec_list c k args xs s =
     (if c = ''LPUSH'' then (store_list k (hd args # xs) s, Inr (RInt (int (length xs + 1))))
      else if c = ''LREM'' then (store_list k (removeAll (last args) xs) s, Inr (RInt 0))
      else if c = ''LRANGE'' then (s, Inr (RArr (map RStr (take 200 xs))))
      else if c = ''LLEN'' then (s, Inr (RInt (int (length xs))))
      else if xs = [] then (s, Inr RNil)
      else (store_list k (butlast xs) s, Inr (RArr [RStr k, RStr (last xs)])))"

definition exec_zset :: "string \<Rightarrow> string \<Rightarrow> string list \<Rightarrow> (string \<times> int) list \<Rightarrow> redis_state
    \<Rightarrow> redis_state \<times> resp result" where
  "exec_zset c k args l s =
     (if c = ''ZADD'' then (store_zset k (gm_put (last args) (fst (parse_int (hd args))) l) s, Inr (RInt 1))
      else if c = ''ZREM'' then (store_zset k (gm_del (hd args) l) s, Inr (RInt 1))
      else if c = ''ZCARD'' then (s, Inr (RInt (int (length (remdups (map fst l))))))
      else (s, Inr (RArr (map RStr (take 25
              (filter (\<lambda>m. the (map_of l m) \<le> fst (parse_int (args ! 1))) (remdups (map fst l))))))))"

definition redis_exec :: "string list \<Rightarrow> redis_state \<Rightarrow> redis_state \<times> resp result" where
  "redis_exec args s =
     (case args of
        c # k # rest \<Rightarrow>
          if c = ''DEL'' then (gm_del k s, Inr (RInt 1))
          else if c = ''SET'' then
            (if map_of s k = None then (gm_put k (CStr (hd rest)) s, Inr (RStr ''OK'')) else (s, Inr RNil))
          else if c = ''GET'' then
            (case map_of s k of None \<Rightarrow> (s, Inr RNil) | Some (CStr x) \<Rightarrow> (s, Inr (RStr x)) | _ \<Rightarrow> wrong_type s)
          else if c = ''HSET'' \<or> c = ''HGETALL'' then
            (case map_of s k of None \<Rightarrow> exec_hash c k rest [] s
             | Some (CHash l) \<Rightarrow> exec_hash c k rest l s | _ \<Rightarrow> wrong_type s)
          else if c = ''LPUSH'' \<or> c = ''LREM'' \<or> c = ''LRANGE'' \<or> c = ''LLEN'' \<or> c = ''BRPOP'' then
            (case map_of s k of None \<Rightarrow> exec_list c k rest [] s
             | Some (CList xs) \<Rightarrow> exec_list c k rest xs s | _ \<Rightarrow> wrong_type s)
          else if c = ''ZADD'' \<or> c = ''ZREM'' \<or> c = ''ZCARD'' \<or> c = ''ZRANGEBYSCORE'' then
            (case map_of s k of None \<Rightarrow> exec_zset c k rest [] s
             | Some (CZSet l) \<Rightarrow> exec_zset c k rest l s | _ \<Rightarrow> wrong_type s)
          else (s, Inl (ErrNew ''ERR unknown command''))
      | _ \<Rightarrow> (s, Inl (ErrNew ''ERR unknown command'')))"

lemma redis_db_put [simp]: "redis_db (gm_put k v s) = (redis_db s)(k \<mapsto> cvalue_of v)"
  by (auto simp: redis_db_def fun_eq_iff)

lemma redis_db_del [simp]: "redis_db (gm_del k s) = (redis_db s)(k := None)"
  by (auto simp: redis_db_def fun_eq_iff)

lemma redis_db_list [simp]: "redis_db (store_list k xs s) = (redis_db s)(k := list_value xs)"
  by (simp add: store_list_def list_value_def)

lemma zset_value_map: "zset_value (map_of l) = (if l = [] then None else Some (VZSet (map_of l)))"
  by (simp add: zset_value_def)

lemma redis_db_zset [simp]: "redis_db (store_zset k l s) = (redis_db s)(k := zset_value (map_of l))"
  by (simp add: store_zset_def zset_value_map)

lemma pair_up_fields [simp]: "pair_up (field_args fvs) = fvs"
  by (induction fvs) (auto simp: field_args_def)

lemma map_of_puts: "map_of (fold (\<lambda>(f, x). gm_put f x) fvs l) = map_of l ++ map_of (rev fvs)"
  by (induction fvs arbitrary: l) (auto simp: map_add_def fun_eq_iff split: option.splits)

text \<open>The typed lookups, in terms of the executable state.\<close>

lemma redis_db_cases:
  "as_hash (redis_db s k) = Some h \<Longrightarrow>
     (map_of s k = None \<and> h = map_of []) \<or> (\<exists>l. map_of s k = Some (CHash l) \<and> h = map_of l)"
  "as_list (redis_db s k) = Some xs \<Longrightarrow>
     (map_of s k = None \<and> xs = []) \<or> map_of s k = Some (CList xs)"
  "as_zset (redis_db s k) = Some z \<Longrightarrow>
     (map_of s k = None \<and> z = map_of []) \<or> (\<exists>l. map_of s k = Some (CZSet l) \<and> z = map_of l)"
  "as_str (redis_db s k) = Some w \<Longrightarrow>
     (map_of s k = None \<and> w = None) \<or> (\<exists>x. map_of s k = Some (CStr x) \<and> w = Some x)"
  by (cases "map_of s k"; simp add: redis_db_def; (cases "the (map_of s k)"; simp)?)+

lemma exec_hash_run:
  assumes h: "as_hash (redis_db s k) = Some h" and c: "c = ''HSET'' \<or> c = ''HGETALL''"
  shows "\<exists>l. h = map_of l \<and> redis_exec (c # k # rest) s = exec_hash c k rest l s"
proof -
  obtain l where l: "h = map_of l" "map_of s k = None \<and> l = [] \<or> map_of s k = Some (CHash l)"
    using redis_db_cases(1) [OF h] by blast
  from l(2) c have "redis_exec (c # k # rest) s = exec_hash c k rest l s"
    by (elim disjE conjE) (simp_all add: redis_exec_def)
  then show ?thesis using l(1) by blast
qed

lemma exec_list_run:
  assumes xs: "as_list (redis_db s k) = Some xs"
    and c: "c = ''LPUSH'' \<or> c = ''LREM'' \<or> c = ''LRANGE'' \<or> c = ''LLEN'' \<or> c = ''BRPOP''"
  shows "redis_exec (c # k # rest) s = exec_list c k rest xs s"
  using redis_db_cases(2) [OF xs] c
  by (elim disjE conjE) (simp_all add: redis_exec_def)

lemma exec_zset_run:
  assumes z: "as_zset (redis_db s k) = Some z"
    and c: "c = ''ZADD'' \<or> c = ''ZREM'' \<or> c = ''ZCARD'' \<or> c = ''ZRANGEBYSCORE''"
  shows "\<exists>l. z = map_of l \<and> redis_exec (c # k # rest) s = exec_zset c k rest l s"
proof -
  obtain l where l: "z = map_of l" "map_of s k = None \<and> l = [] \<or> map_of s k = Some (CZSet l)"
    using redis_db_cases(3) [OF z] by blast
  from l(2) c have "redis_exec (c # k # rest) s = exec_zset c k rest l s"
    by (elim disjE conjE) (simp_all add: redis_exec_def)
  then show ?thesis using l(1) by blast
qed

lemma score_text: "is_score s \<Longrightarrow> fst (parse_int (itoa s)) = s"
  by (subst parse_int_itoa) (auto simp: is_score_def is_int64_def)

lemma key_has_value: "k \<in> fst ` set l \<longleftrightarrow> (\<exists>v. map_of l k = Some v)"
  by (metis map_of_eq_None_iff option.exhaust option.distinct(1))

lemma remdups_entries:
  "map_of (map (\<lambda>f. (f, the (map_of l f))) (remdups (map fst l))) = map_of l"
proof
  fix k
  show "map_of (map (\<lambda>f. (f, the (map_of l f))) (remdups (map fst l))) k = map_of l k"
    by (cases "map_of l k") (auto simp: map_of_map_restrict restrict_map_def key_has_value)
qed

lemma card_dom_alist: "card (dom (map_of l)) = length (remdups (map fst l))"
  by (simp add: dom_map_of_conv_image_fst length_remdups_card_conv)

lemma range_members:
  "set (filter (\<lambda>m. the (map_of l m) \<le> s) (remdups (map fst l)))
     = {m. \<exists>q. map_of l m = Some q \<and> q \<le> (s :: int)}"
  by (auto simp: key_has_value)

lemma take_prefix_facts:
  "distinct xs \<Longrightarrow> distinct (take n xs) \<and> length (take n xs) \<le> n \<and> set (take n xs) \<subseteq> set xs
     \<and> (length (take n xs) < n \<longrightarrow> set (take n xs) = set xs)"
  using set_take_subset [of n xs] by (auto simp: min_def)

interpretation rx: redis_up redis_exec redis_db
proof (unfold_locales, goal_cases)
  case (1 r k h fvs r' res)
  then show ?case using exec_hash_run [of r k h "''HSET''" "field_args fvs"]
    by (auto simp: exec_hash_def answers_def map_of_puts)
next
  case (2 r k h r' res)
  then obtain l where l: "h = map_of l" "redis_exec [''HGETALL'', k] r = exec_hash ''HGETALL'' k [] l r"
    using exec_hash_run by blast
  show ?case using l 2(2) unfolding exec_hash_def
    by (auto simp: answers_def remdups_entries comp_def
        intro!: exI [of _ "map (\<lambda>f. (f, the (map_of l f))) (remdups (map fst l))"])
next
  case (3 k r r' res)
  then show ?case by (auto simp: redis_exec_def answers_def)
next
  case (4 k x r r' res)
  then show ?case by (auto simp: redis_exec_def answers_def redis_db_def)
next
  case (5 r k w r' res)
  then show ?case by (auto simp: redis_exec_def answers_def dest!: redis_db_cases(4))
next
  case (6 r k xs x r' res)
  then show ?case by (auto simp: exec_list_run exec_list_def answers_def)
next
  case (7 r k xs x r' res)
  then show ?case by (auto simp: exec_list_run exec_list_def answers_def)
next
  case (8 r k xs r' res)
  then show ?case by (auto simp: exec_list_run exec_list_def answers_def)
next
  case (9 r k xs r' res)
  then show ?case by (auto simp: exec_list_run exec_list_def answers_def)
next
  case (10 r k xs r' res)
  then show ?case by (auto simp: exec_list_run exec_list_def answers_def)
next
  case (11 r k z s m r' res)
  then show ?case using exec_zset_run [of r k z "''ZADD''" "[itoa s, m]"]
    by (auto simp: exec_zset_def answers_def score_text)
next
  case (12 r k z m r' res)
  then show ?case using exec_zset_run [of r k z "''ZREM''" "[m]"]
    by (auto simp: exec_zset_def answers_def)
next
  case (13 r k z r' res)
  then show ?case using exec_zset_run [of r k z "''ZCARD''" "[]"]
    by (auto simp: exec_zset_def answers_def card_dom_alist)
next
  case (14 r k z s r' res)
  then obtain l where l: "z = map_of l"
    "redis_exec [''ZRANGEBYSCORE'', k, ''-inf'', itoa s, ''LIMIT'', ''0'', ''25''] r
       = exec_zset ''ZRANGEBYSCORE'' k [''-inf'', itoa s, ''LIMIT'', ''0'', ''25''] l r"
    using exec_zset_run by blast
  let ?due = "filter (\<lambda>m. the (map_of l m) \<le> s) (remdups (map fst l))"
  have "r' = r" "res = Inr (RArr (map RStr (take 25 ?due)))"
    using l(2) 14(3) score_text [OF 14(2)] by (simp_all add: exec_zset_def del: take_all_iff)
  moreover have "distinct ?due" by simp
  ultimately show ?case using take_prefix_facts [of ?due 25] unfolding range_members l(1) answers_def
    by auto
next
  case (15 args r)
  show ?case
  proof (cases args rule: remdups_adj.cases)
    case (3 c k rest)
    then show ?thesis using 15
      by (cases "map_of r k" rule: option.exhaust; (cases "the (map_of r k)")?)
        (auto simp: well_typed_def redis_exec_def redis_db_def exec_hash_def exec_list_def exec_zset_def
          split: if_splits)
  qed (use 15 in \<open>auto simp: well_typed_def\<close>)
qed

section \<open>A server that fails now and then\<close>

text \<open>The executable server behind a connection that loses the commands marked in a list.\<close>

definition flaky :: "string list \<Rightarrow> bool list \<times> redis_state \<Rightarrow> (bool list \<times> redis_state) \<times> resp result" where
  "flaky args st =
     (case st of (fails, s) \<Rightarrow>
        if fails \<noteq> [] \<and> hd fails then ((tl fails, s), Inl (ErrNew ''connection reset''))
        else (case redis_exec args s of (s', res) \<Rightarrow> ((tl fails, s'), res)))"

definition flaky_db :: "bool list \<times> redis_state \<Rightarrow> keyspace" where
  "flaky_db st = redis_db (snd st)"

lemma flaky_cases:
  assumes "flaky args st = (st', res)"
  obtains (lost) e where "res = Inl e" "flaky_db st' = flaky_db st"
    | (ran) s' where "redis_exec args (snd st) = (s', res)" "flaky_db st' = redis_db s'"
  using assms
  by (auto simp: flaky_def flaky_db_def split: prod.splits if_splits)

interpretation fl: redis flaky flaky_db
proof (unfold_locales, goal_cases)
  case (1 r k h fvs r' res)
  from 1(3) show ?case
    by (cases rule: flaky_cases) (use 1 rx.hset in \<open>auto simp: answers_def flaky_db_def\<close>)
next
  case (2 r k h r' res)
  from 2(2) show ?case
    by (cases rule: flaky_cases) (use 2 rx.hgetall in \<open>auto simp: answers_def flaky_db_def\<close>)
next
  case (3 k r r' res)
  from 3(1) show ?case
    by (cases rule: flaky_cases) (use rx.del in \<open>auto simp: answers_def flaky_db_def\<close>)
next
  case (4 k x r r' res)
  from 4(1) show ?case
  proof (cases rule: flaky_cases)
    case (ran s')
    then show ?thesis using rx.set_nx [OF ran(1)] by (simp add: flaky_db_def)
  qed (simp add: answers_def)
next
  case (5 r k w r' res)
  from 5(2) show ?case
    by (cases rule: flaky_cases) (use 5 rx.get in \<open>auto simp: answers_def flaky_db_def\<close>)
next
  case (6 r k xs x r' res)
  from 6(2) show ?case
    by (cases rule: flaky_cases) (use 6 rx.lpush in \<open>auto simp: answers_def flaky_db_def\<close>)
next
  case (7 r k xs x r' res)
  from 7(2) show ?case
    by (cases rule: flaky_cases) (use 7 rx.lrem in \<open>auto simp: answers_def flaky_db_def\<close>)
next
  case (8 r k xs r' res)
  from 8(2) show ?case
    by (cases rule: flaky_cases) (use 8 rx.lrange in \<open>auto simp: answers_def flaky_db_def\<close>)
next
  case (9 r k xs r' res)
  from 9(2) show ?case
    by (cases rule: flaky_cases) (use 9 rx.llen in \<open>auto simp: answers_def flaky_db_def\<close>)
next
  case (10 r k xs r' res)
  from 10(2) show ?case
  proof (cases rule: flaky_cases)
    case (ran s')
    then show ?thesis using rx.brpop [OF 10(1)[unfolded flaky_db_def] ran(1)]
      by (cases "xs = []") (simp_all add: flaky_db_def)
  qed (simp add: answers_def)
next
  case (11 r k z s m r' res)
  from 11(3) show ?case
    by (cases rule: flaky_cases) (use 11 rx.zadd in \<open>auto simp: answers_def flaky_db_def\<close>)
next
  case (12 r k z m r' res)
  from 12(2) show ?case
    by (cases rule: flaky_cases) (use 12 rx.zrem in \<open>auto simp: answers_def flaky_db_def\<close>)
next
  case (13 r k z r' res)
  from 13(2) show ?case
    by (cases rule: flaky_cases) (use 13 rx.zcard in \<open>auto simp: answers_def flaky_db_def\<close>)
next
  case (14 r k z s r' res)
  from 14(3) show ?case
  proof (cases rule: flaky_cases)
    case (ran s')
    then show ?thesis using rx.zrange [OF 14(1)[unfolded flaky_db_def] 14(2) ran(1)] by (simp add: flaky_db_def)
  qed (simp add: answers_def)
qed

end
