(* ===== verification/Redis_Storage.thy ===== *)
theory Redis_Storage
  imports Redis_Server Storage_Properties Go_Time
begin

text \<open>
  The Redis metadata store (\<open>internal/storage/redis.go\<close>) over a function that sends one command:
  \<open>Client.Do\<close> on whatever state it keeps. Job records are hashes, the submission order is a list,
  idempotency keys are strings; times are RFC 3339 texts. On a server that answers, a run of
  operations does what the in-memory store does.
\<close>

section \<open>State and operations\<close>

record 'r redis_storage =
  rs_cmd :: "string list \<Rightarrow> 'r \<Rightarrow> 'r \<times> resp result"
  rs_prefix :: string
  rs_onSet :: "('r \<Rightarrow> 'r) option"

text \<open>
  \<open>Client.Do\<close> as such a function. The panic of a reply length out of range ends the goroutine; it is
  an error here.
\<close>

definition client_cmd :: "'c net \<Rightarrow> string list \<Rightarrow> 'c client \<Rightarrow> 'c client \<times> resp result" where
  "client_cmd net args c =
     (case Do net args c of
        (c', Read v _) \<Rightarrow> (c', Inr v)
      | (c', ReadFails e) \<Rightarrow> (c', Inl e)
      | (c', Panics m) \<Rightarrow> (c', Inl (ErrNew m))
      | (c', NoFuel) \<Rightarrow> (c', Inl (ErrNew [])))"

definition default_prefix :: "string \<Rightarrow> string" where
  "default_prefix prefix = (if prefix = [] then ''chromaflow'' else prefix)"

definition NewRedisStorage ::
    "'c net \<Rightarrow> string \<Rightarrow> string \<Rightarrow> ('c client redis_storage \<times> 'c client) result" where
  "NewRedisStorage net rawURL prefix =
     (case NewClient rawURL of
        Inl e \<Rightarrow> Inl e
      | Inr c \<Rightarrow> Inr (\<lparr>rs_cmd = client_cmd net, rs_prefix = default_prefix prefix, rs_onSet = None\<rparr>, c))"

definition rs_SetOnChange :: "('r \<Rightarrow> 'r) \<Rightarrow> 'r redis_storage \<Rightarrow> 'r redis_storage" where
  "rs_SetOnChange f S = S\<lparr>rs_onSet := Some f\<rparr>"

definition changed :: "'r redis_storage \<Rightarrow> 'r \<Rightarrow> 'r" where
  "changed S r = (case rs_onSet S of None \<Rightarrow> r | Some f \<Rightarrow> f r)"

definition job_key :: "string \<Rightarrow> string \<Rightarrow> string" where
  "job_key prefix jobID = prefix @ '':job:'' @ jobID"

definition order_key :: "string \<Rightarrow> string" where
  "order_key prefix = prefix @ '':jobs''"

definition idem_key :: "string \<Rightarrow> string \<Rightarrow> string" where
  "idem_key prefix key = prefix @ '':idempotency:'' @ key"

text \<open>The type assertion \<open>v.([]any)\<close>: nil when the reply is something else.\<close>

definition resp_slice :: "resp \<Rightarrow> resp list" where
  "resp_slice v = (case v of RArr vs \<Rightarrow> vs | _ \<Rightarrow> [])"

fun pair_fields :: "resp list \<Rightarrow> (string, string) gomap \<Rightarrow> (string, string) gomap" where
  "pair_fields (a # b # rest) m = pair_fields rest (gm_put (resp_String a) (resp_String b) m)"
| "pair_fields _ m = m"

definition field_or_empty :: "(string \<Rightarrow> string option) \<Rightarrow> string \<Rightarrow> string" where
  "field_or_empty h f = (case h f of None \<Rightarrow> '''' | Some x \<Rightarrow> x)"

definition time_or_zero :: "string \<Rightarrow> time" where
  "time_or_zero s = (case parse_time s of None \<Rightarrow> 0 | Some t \<Rightarrow> t)"

definition result_of_hash :: "(string \<Rightarrow> string option) \<Rightarrow> job_result" where
  "result_of_hash h =
     (let m = field_or_empty h
      in zero_result\<lparr>URL := m ''url'', Status := JobStatus (m ''status''), PDFKey := m ''pdf_key'',
           PDFSize := fst (parse_int (m ''pdf_size'')), Error := m ''error'',
           IdempotencyKey := m ''idempotency_key'', CallbackURL := m ''callback_url'',
           RequestID := m ''request_id'', CreatedAt := time_or_zero (m ''created_at''),
           UpdatedAt := time_or_zero (m ''updated_at'')\<rparr>)"

definition rs_Get :: "'r redis_storage \<Rightarrow> string \<Rightarrow> 'r \<Rightarrow> 'r \<times> job_result result" where
  "rs_Get S jobID r =
     (case rs_cmd S [''HGETALL'', job_key (rs_prefix S) jobID] r of
        (r', Inl e) \<Rightarrow> (r', Inl e)
      | (r', Inr v) \<Rightarrow>
          if resp_slice v = [] then (r', Inl (ErrNew ''job not found''))
          else (r', Inr (result_of_hash (map_of (pair_fields (resp_slice v) [])))))"

definition record_fields :: "job_result \<Rightarrow> (string \<times> string) list" where
  "record_fields r =
     [(''url'', URL r), (''status'', status_text (Status r)), (''pdf_key'', PDFKey r),
      (''pdf_size'', itoa (PDFSize r)), (''error'', Error r),
      (''idempotency_key'', IdempotencyKey r), (''callback_url'', CallbackURL r),
      (''request_id'', RequestID r), (''created_at'', format_time (CreatedAt r)),
      (''updated_at'', format_time (UpdatedAt r))]"

definition rs_Set ::
    "'r redis_storage \<Rightarrow> time \<Rightarrow> string \<Rightarrow> job_result \<Rightarrow> 'r \<Rightarrow> 'r \<times> job_result \<times> go_error option" where
  "rs_Set S now jobID result r =
     (case rs_Get S jobID r of (r1, got) \<Rightarrow>
        let existing = (case got of Inl _ \<Rightarrow> None | Inr e \<Rightarrow> Some e);
            r2 = (if existing = None then fst (rs_cmd S [''LPUSH'', order_key (rs_prefix S), jobID] r1)
                  else r1)
        in (case rs_cmd S (''HSET'' # job_key (rs_prefix S) jobID
                     # field_args (record_fields (merge_result now existing result))) r2 of
              (r3, Inl e) \<Rightarrow> (r3, result, Some e)
            | (r3, Inr _) \<Rightarrow> (changed S r3, result, None)))"

definition rs_Delete :: "'r redis_storage \<Rightarrow> string \<Rightarrow> 'r \<Rightarrow> 'r \<times> go_error option" where
  "rs_Delete S jobID r =
     (case rs_Get S jobID r of (r1, got) \<Rightarrow>
      case rs_cmd S [''DEL'', job_key (rs_prefix S) jobID] r1 of (r2, res) \<Rightarrow>
        let r3 = fst (rs_cmd S [''LREM'', order_key (rs_prefix S), ''0'', jobID] r2);
            r4 = (case got of
                    Inr result \<Rightarrow>
                      if IdempotencyKey result \<noteq> ''''
                      then fst (rs_cmd S [''DEL'', idem_key (rs_prefix S) (IdempotencyKey result)] r3)
                      else r3
                  | Inl _ \<Rightarrow> r3)
        in (changed S r4, case res of Inl e \<Rightarrow> Some e | Inr _ \<Rightarrow> None))"

text \<open>\<open>Cancel\<close> returns the record it read, with the two fields changed, and the error of \<open>Set\<close>.\<close>

definition rs_Cancel :: "'r redis_storage \<Rightarrow> time \<Rightarrow> string \<Rightarrow> 'r \<Rightarrow> 'r \<times> job_result result" where
  "rs_Cancel S now jobID r =
     (case rs_Get S jobID r of
        (r1, Inl e) \<Rightarrow> (r1, Inl e)
      | (r1, Inr result) \<Rightarrow>
          if Status result = StatusCompleted \<or> Status result = StatusFailed \<or> Status result = StatusCanceled
          then (r1, Inr result)
          else (case rs_Set S now jobID (mark_canceled result) r1 of
                  (r2, _, Some e) \<Rightarrow> (r2, Inl e)
                | (r2, result', None) \<Rightarrow> (r2, Inr result')))"

definition rs_ReserveIdempotencyKey ::
    "'r redis_storage \<Rightarrow> string \<Rightarrow> string \<Rightarrow> 'r \<Rightarrow> 'r \<times> (string \<times> bool) result" where
  "rs_ReserveIdempotencyKey S key jobID r =
     (if key = '''' then (r, Inr ('''', True))
      else (case rs_cmd S [''SET'', idem_key (rs_prefix S) key, jobID, ''NX''] r of
              (r1, Inl e) \<Rightarrow> (r1, Inl e)
            | (r1, Inr v) \<Rightarrow>
                if resp_String v = ''OK'' then (r1, Inr (jobID, True))
                else (case rs_cmd S [''GET'', idem_key (rs_prefix S) key] r1 of
                        (r2, Inl e) \<Rightarrow> (r2, Inl e)
                      | (r2, Inr w) \<Rightarrow> (r2, Inr (resp_String w, False)))))"

text \<open>\<open>List\<close> looks at the newest 200 ids, skips repetitions and records it cannot read.\<close>

fun rs_snapshots ::
    "'r redis_storage \<Rightarrow> string list \<Rightarrow> resp list \<Rightarrow> 'r \<Rightarrow> 'r \<times> job_snapshot list" where
  "rs_snapshots S seen [] r = (r, [])"
| "rs_snapshots S seen (idv # ids) r =
     (if resp_String idv \<in> set seen then rs_snapshots S seen ids r
      else (case rs_Get S (resp_String idv) r of (r1, got) \<Rightarrow>
            case rs_snapshots S (resp_String idv # seen) ids r1 of (r2, jobs) \<Rightarrow>
              (r2, (case got of Inl _ \<Rightarrow> [] | Inr result \<Rightarrow> [snapshot_of (resp_String idv) result]) @ jobs)))"

definition rs_List :: "'r redis_storage \<Rightarrow> 'r \<Rightarrow> 'r \<times> job_snapshot list" where
  "rs_List S r =
     (case rs_cmd S [''LRANGE'', order_key (rs_prefix S), ''0'', ''199''] r of
        (r1, Inl _) \<Rightarrow> (r1, [])
      | (r1, Inr v) \<Rightarrow>
          (case rs_snapshots S [] (resp_slice v) r1 of (r2, jobs) \<Rightarrow> (r2, newest_first jobs)))"

fun rs_stats_loop :: "'r redis_storage \<Rightarrow> job_snapshot list \<Rightarrow> StorageStats \<Rightarrow> 'r \<Rightarrow> 'r \<times> StorageStats" where
  "rs_stats_loop S [] stats r = (r, stats)"
| "rs_stats_loop S (job # jobs) stats r =
     (case rs_Get S (snap_ID job) r of (r1, got) \<Rightarrow>
        rs_stats_loop S jobs
          (stats\<lparr>ByStatus := gm_put (snap_Status job) (gm_get0 (ByStatus stats) (snap_Status job) + 1)
                                (ByStatus stats),
                 OldestJobAt := (if time_is_zero (OldestJobAt stats)
                                    \<or> time_before (snap_CreatedAt job) (OldestJobAt stats)
                                 then snap_CreatedAt job else OldestJobAt stats),
                 PDFBytes := PDFBytes stats + (case got of Inl _ \<Rightarrow> 0 | Inr result \<Rightarrow> PDFSize result)\<rparr>) r1)"

definition rs_Stats :: "'r redis_storage \<Rightarrow> 'r \<Rightarrow> 'r \<times> StorageStats" where
  "rs_Stats S r =
     (case rs_List S r of (r1, jobs) \<Rightarrow> rs_stats_loop S jobs (empty_stats (int (length jobs))) r1)"

definition rs_store_ops :: "'r redis_storage \<Rightarrow> 'r store_ops" where
  "rs_store_ops S = \<lparr>s_Set = rs_Set S, s_Delete = rs_Delete S, s_Get = rs_Get S, s_Cancel = rs_Cancel S,
     s_ReserveIdempotencyKey = rs_ReserveIdempotencyKey S, s_Stats = rs_Stats S, s_List = rs_List S\<rparr>"

section \<open>Records survive\<close>

text \<open>What a Redis hash can hold of a record: the store does not keep the PDF bytes themselves.\<close>

definition storable :: "job_result \<Rightarrow> bool" where
  "storable r \<longleftrightarrow> PDF r = [] \<and> is_int64 (PDFSize r) \<and> four_digit_year (CreatedAt r)
     \<and> four_digit_year (UpdatedAt r)"

lemma hash_roundtrip:
  assumes "storable r"
  shows "result_of_hash (h ++ map_of (rev (record_fields r))) = r"
proof -
  have "fst (parse_int (itoa (PDFSize r))) = PDFSize r"
    using assms by (simp add: storable_def parse_int_itoa)
  moreover have "time_or_zero (format_time (CreatedAt r)) = CreatedAt r"
    "time_or_zero (format_time (UpdatedAt r)) = UpdatedAt r"
    using assms by (simp_all add: storable_def time_or_zero_def parse_format)
  moreover have "PDF r = []" using assms by (simp add: storable_def)
  ultimately show ?thesis
    by (simp add: result_of_hash_def Let_def record_fields_def field_or_empty_def zero_result_def map_add_def)
qed

lemma record_fields_nonempty [simp]: "record_fields r \<noteq> []"
  by (simp add: record_fields_def)

lemma pair_fields_args: "map_of (pair_fields (map RStr (field_args l)) m) = map_of m ++ map_of (rev l)"
  by (induction l arbitrary: m) (auto simp: field_args_def resp_String_def map_add_def fun_eq_iff split: option.splits)

lemma pair_fields_hash: "distinct (map fst l) \<Longrightarrow> map_of (pair_fields (map RStr (field_args l)) []) = map_of l"
  by (simp add: pair_fields_args map_of_inject_set rev_map [symmetric])

section \<open>The store behind a keyspace\<close>

definition rs_view :: "string \<Rightarrow> keyspace \<Rightarrow> jobs_view" where
  "rs_view p d i =
     (case as_hash (d (job_key p i)) of
        None \<Rightarrow> None
      | Some h \<Rightarrow> if h = Map.empty then None else Some (result_of_hash h))"

definition rs_keys :: "string \<Rightarrow> keyspace \<Rightarrow> keys_view" where
  "rs_keys p d k = (if k = [] then None else Option.bind (as_str (d (idem_key p k))) (\<lambda>w. w))"

definition rs_ids :: "string \<Rightarrow> keyspace \<Rightarrow> string list" where
  "rs_ids p d = (case as_list (d (order_key p)) of None \<Rightarrow> [] | Some xs \<Rightarrow> xs)"

text \<open>Every key of the store holds the type the store's commands on it expect.\<close>

definition rs_typed :: "string \<Rightarrow> keyspace \<Rightarrow> bool" where
  "rs_typed p d \<longleftrightarrow> (\<forall>i. as_hash (d (job_key p i)) \<noteq> None) \<and> as_list (d (order_key p)) \<noteq> None
     \<and> (\<forall>k. as_str (d (idem_key p k)) \<noteq> None)"

definition rs_inv :: "string \<Rightarrow> keyspace \<Rightarrow> bool" where
  "rs_inv p d \<longleftrightarrow> rs_typed p d \<and> distinct (rs_ids p d) \<and> set (rs_ids p d) = dom (rs_view p d)
     \<and> (\<forall>i r. rs_view p d i = Some r \<longrightarrow> storable r \<and> CreatedAt r \<noteq> 0)"

lemma key_names [simp]:
  "job_key p i = job_key p j \<longleftrightarrow> i = j" "idem_key p k = idem_key p l \<longleftrightarrow> k = l"
  "job_key p i \<noteq> order_key p" "order_key p \<noteq> job_key p i"
  "job_key p i \<noteq> idem_key p k" "idem_key p k \<noteq> job_key p i"
  "order_key p \<noteq> idem_key p k" "idem_key p k \<noteq> order_key p"
  by (simp_all add: job_key_def order_key_def idem_key_def)

lemma view_updates [simp]:
  "rs_view p (d(job_key p i \<mapsto> VHash h)) = (rs_view p d)(i := if h = Map.empty then None else Some (result_of_hash h))"
  "rs_view p (d(job_key p i := None)) = (rs_view p d)(i := None)"
  "rs_view p (d(order_key p := x)) = rs_view p d"
  "rs_view p (d(idem_key p k := x)) = rs_view p d"
  by (auto simp: rs_view_def fun_eq_iff)

lemma keys_updates [simp]:
  "rs_keys p (d(job_key p i := x)) = rs_keys p d"
  "rs_keys p (d(order_key p := x)) = rs_keys p d"
  "rs_keys p (d(idem_key p k := None)) = (rs_keys p d)(k := None)"
  "k \<noteq> [] \<Longrightarrow> rs_keys p (d(idem_key p k \<mapsto> VStr y)) = (rs_keys p d)(k \<mapsto> y)"
  by (auto simp: rs_keys_def fun_eq_iff)

lemma ids_updates [simp]:
  "rs_ids p (d(job_key p i := x)) = rs_ids p d"
  "rs_ids p (d(idem_key p k := x)) = rs_ids p d"
  "rs_ids p (d(order_key p := list_value xs)) = xs"
  by (simp_all add: rs_ids_def)

lemma typed_updates [simp]:
  "rs_typed p d \<Longrightarrow> rs_typed p (d(job_key p i \<mapsto> VHash h))"
  "rs_typed p d \<Longrightarrow> rs_typed p (d(job_key p i := None))"
  "rs_typed p d \<Longrightarrow> rs_typed p (d(order_key p := list_value xs))"
  "rs_typed p d \<Longrightarrow> rs_typed p (d(idem_key p k \<mapsto> VStr y))"
  "rs_typed p d \<Longrightarrow> rs_typed p (d(idem_key p k := None))"
  by (auto simp: rs_typed_def)

lemma typedD:
  assumes "rs_typed p d"
  obtains h xs w where "as_hash (d (job_key p i)) = Some h" "as_list (d (order_key p)) = Some xs"
    "rs_ids p d = xs" "as_str (d (idem_key p k)) = Some w"
  using assms by (fastforce simp: rs_typed_def rs_ids_def)

section \<open>Operations on a server that answers\<close>

text \<open>The callback of the server only reads the store.\<close>

definition quiet :: "('r \<Rightarrow> keyspace) \<Rightarrow> 'r redis_storage \<Rightarrow> bool" where
  "quiet kv S \<longleftrightarrow> (\<forall>r. kv (changed S r) = kv r)"

context redis_up
begin

lemma run_hset:
  "as_hash (kv r k) = Some h \<Longrightarrow> fvs \<noteq> [] \<Longrightarrow>
     \<exists>r' v. cmd (''HSET'' # k # field_args fvs) r = (r', Inr v)
       \<and> kv r' = (kv r)(k \<mapsto> VHash (h ++ map_of (rev fvs)))"
  using hset [of r k h fvs] done_by [of "''HSET'' # k # field_args fvs" r]
  by (cases "cmd (''HSET'' # k # field_args fvs) r") (fastforce simp: well_typed_def)

lemma run_hgetall:
  "as_hash (kv r k) = Some h \<Longrightarrow>
     \<exists>r' l. cmd [''HGETALL'', k] r = (r', Inr (RArr (map RStr (field_args l)))) \<and> kv r' = kv r
       \<and> map_of l = h \<and> distinct (map fst l)"
  using hgetall [of r k h] done_by [of "[''HGETALL'', k]" r]
  by (cases "cmd [''HGETALL'', k] r") (fastforce simp: well_typed_def)

lemma run_del: "\<exists>r' v. cmd [''DEL'', k] r = (r', Inr v) \<and> kv r' = (kv r)(k := None)"
  using del [of k r] done_by [of "[''DEL'', k]" r]
  by (cases "cmd [''DEL'', k] r") (fastforce simp: well_typed_def)

lemma run_lpush:
  "as_list (kv r k) = Some xs \<Longrightarrow>
     \<exists>r' v. cmd [''LPUSH'', k, x] r = (r', Inr v) \<and> kv r' = (kv r)(k := list_value (x # xs))"
  using lpush [of r k xs x] done_by [of "[''LPUSH'', k, x]" r]
  by (cases "cmd [''LPUSH'', k, x] r") (fastforce simp: well_typed_def)

lemma run_lrem:
  "as_list (kv r k) = Some xs \<Longrightarrow>
     \<exists>r' v. cmd [''LREM'', k, ''0'', x] r = (r', Inr v) \<and> kv r' = (kv r)(k := list_value (removeAll x xs))"
  using lrem [of r k xs x] done_by [of "[''LREM'', k, ''0'', x]" r]
  by (cases "cmd [''LREM'', k, ''0'', x] r") (fastforce simp: well_typed_def)

lemma run_lrange:
  "as_list (kv r k) = Some xs \<Longrightarrow>
     \<exists>r'. cmd [''LRANGE'', k, ''0'', ''199''] r = (r', Inr (RArr (map RStr (take 200 xs)))) \<and> kv r' = kv r"
  using lrange [of r k xs] done_by [of "[''LRANGE'', k, ''0'', ''199'']" r]
  by (cases "cmd [''LRANGE'', k, ''0'', ''199''] r") (fastforce simp: well_typed_def)

lemma run_set_nx:
  "kv r k = None \<Longrightarrow>
     \<exists>r'. cmd [''SET'', k, x, ''NX''] r = (r', Inr (RStr ''OK'')) \<and> kv r' = (kv r)(k \<mapsto> VStr x)"
  "kv r k \<noteq> None \<Longrightarrow> \<exists>r'. cmd [''SET'', k, x, ''NX''] r = (r', Inr RNil) \<and> kv r' = kv r"
  using set_nx [of k x r] done_by [of "[''SET'', k, x, ''NX'']" r]
  by (cases "cmd [''SET'', k, x, ''NX''] r"; fastforce simp: well_typed_def)+

lemma run_get:
  "as_str (kv r k) = Some w \<Longrightarrow>
     \<exists>r'. cmd [''GET'', k] r = (r', Inr (case w of None \<Rightarrow> RNil | Some x \<Rightarrow> RStr x)) \<and> kv r' = kv r"
  using get [of r k w] done_by [of "[''GET'', k]" r]
  by (cases "cmd [''GET'', k] r") (fastforce simp: well_typed_def)

lemma get_up:
  assumes "rs_cmd S = cmd" "rs_typed (rs_prefix S) (kv r)"
  shows "\<exists>r'. rs_Get S i r = (r', case rs_view (rs_prefix S) (kv r) i of
       None \<Rightarrow> Inl (ErrNew ''job not found'') | Some x \<Rightarrow> Inr x) \<and> kv r' = kv r"
proof -
  obtain h where h: "as_hash (kv r (job_key (rs_prefix S) i)) = Some h" using assms(2) by (rule typedD)
  obtain r' l where l: "cmd [''HGETALL'', job_key (rs_prefix S) i] r = (r', Inr (RArr (map RStr (field_args l))))"
    "kv r' = kv r" "map_of l = h" "distinct (map fst l)"
    using run_hgetall [OF h] by blast
  have "resp_slice (RArr (map RStr (field_args l))) = [] \<longleftrightarrow> h = Map.empty"
    using l(3) by (cases l) (auto simp: resp_slice_def field_args_def)
  then show ?thesis using h l assms(1) pair_fields_hash [OF l(4)]
    by (simp add: rs_Get_def rs_view_def) (simp add: resp_slice_def)
qed

end

lemma hash_put_nonempty [simp]: "h ++ map_of (rev (record_fields r)) \<noteq> Map.empty"
  by (simp add: record_fields_def map_add_def fun_eq_iff) (metis option.distinct(1) option.simps(5))

lemma rs_typed_views:
  "rs_typed p d \<Longrightarrow> as_list (d (order_key p)) = Some (rs_ids p d)"
  by (auto simp: rs_typed_def rs_ids_def)

lemma rs_invD:
  assumes "rs_inv p d"
  shows "rs_typed p d" "distinct (rs_ids p d)" "i \<in> set (rs_ids p d) \<longleftrightarrow> rs_view p d i \<noteq> None"
    "rs_view p d i = Some r \<Longrightarrow> storable r" "rs_view p d i = Some r \<Longrightarrow> CreatedAt r \<noteq> 0"
  using assms by (auto simp: rs_inv_def)

text \<open>A record that \<open>Set\<close> is given, and the clock, as the server's four-digit years allow.\<close>

definition settable :: "time \<Rightarrow> job_result \<Rightarrow> bool" where
  "settable now r \<longleftrightarrow> now \<noteq> 0 \<and> four_digit_year now \<and> PDF r = [] \<and> is_int64 (PDFSize r)
     \<and> four_digit_year (CreatedAt r)"

lemma settable_merge:
  assumes "settable now r" and "\<And>e. old = Some e \<Longrightarrow> storable e"
  shows "storable (merge_result now old r)" "CreatedAt (merge_result now old r) \<noteq> 0"
  using assms merge_result_created_nonzero
  by (auto simp: settable_def storable_def merge_result_def inherit_fields_def inherit_created_def
      split: option.splits)

lemma settable_canceled:
  "storable r \<Longrightarrow> now \<noteq> 0 \<Longrightarrow> four_digit_year now \<Longrightarrow> settable now (mark_canceled r)"
  by (simp add: settable_def storable_def mark_canceled_def)

context redis_up
begin

lemma set_up:
  assumes S: "rs_cmd S = cmd" "quiet kv S" and inv: "rs_inv (rs_prefix S) (kv r)" and x: "settable now x"
  shows "\<exists>r'. rs_Set S now i x r = (r', x, None) \<and> rs_inv (rs_prefix S) (kv r')
     \<and> rs_view (rs_prefix S) (kv r') = spec_set now i x (rs_view (rs_prefix S) (kv r))
     \<and> rs_keys (rs_prefix S) (kv r') = rs_keys (rs_prefix S) (kv r)
     \<and> rs_ids (rs_prefix S) (kv r') = (if rs_view (rs_prefix S) (kv r) i = None then [i] else [])
         @ rs_ids (rs_prefix S) (kv r)"
proof -
  let ?p = "rs_prefix S"
  let ?old = "rs_view ?p (kv r) i" and ?m = "merge_result now (rs_view ?p (kv r) i) x"
  note I = rs_invD [OF inv]
  obtain r1 where r1: "rs_Get S i r = (r1, case ?old of None \<Rightarrow> Inl (ErrNew ''job not found'') | Some x \<Rightarrow> Inr x)"
    "kv r1 = kv r"
    using get_up [OF S(1) I(1)] by blast
  have old: "(case (case ?old of None \<Rightarrow> Inl (ErrNew ''job not found'') | Some x \<Rightarrow> Inr x)
      of Inl _ \<Rightarrow> None | Inr e \<Rightarrow> Some e) = ?old" by (cases ?old) simp_all
  obtain r2 v where r2: "cmd [''LPUSH'', order_key ?p, i] r1 = (r2, Inr v)"
    "kv r2 = (kv r)(order_key ?p := list_value (i # rs_ids ?p (kv r)))"
    using run_lpush [of r1 "order_key ?p" "rs_ids ?p (kv r)" i] rs_typed_views [OF I(1)] r1(2) by auto
  let ?r2 = "if ?old = None then r2 else r1"
  obtain h where h: "as_hash (kv r (job_key ?p i)) = Some h" using I(1) by (rule typedD)
  have h2: "as_hash (kv ?r2 (job_key ?p i)) = Some h" using h r1(2) r2(2) by simp
  obtain r3 w where r3: "cmd (''HSET'' # job_key ?p i # field_args (record_fields ?m)) ?r2 = (r3, Inr w)"
    "kv r3 = (kv ?r2)(job_key ?p i \<mapsto> VHash (h ++ map_of (rev (record_fields ?m))))"
    using run_hset [OF h2] by (metis record_fields_nonempty)
  have run: "rs_Set S now i x r = (changed S r3, x, None)"
    using r1 r2 r3 S(1) unfolding rs_Set_def by (auto simp: old Let_def)
  have kv: "kv (changed S r3) = kv r3" using S(2) by (simp add: quiet_def)
  have m: "storable ?m" "CreatedAt ?m \<noteq> 0" using settable_merge [OF x] I(4) by blast+
  have view: "rs_view ?p (kv r3) = spec_set now i x (rs_view ?p (kv r))"
    "rs_keys ?p (kv r3) = rs_keys ?p (kv r)"
    "rs_ids ?p (kv r3) = (if ?old = None then [i] else []) @ rs_ids ?p (kv r)"
    using r1(2) r2(2) by (simp_all add: r3(2) hash_roundtrip [OF m(1)] spec_set_def)
  moreover have "rs_typed ?p (kv r3)" using r1(2) r2(2) I(1) by (simp add: r3(2))
  moreover have "\<forall>j q. rs_view ?p (kv r3) j = Some q \<longrightarrow> storable q \<and> CreatedAt q \<noteq> 0"
    using m I(4,5) by (auto simp: view split: if_splits)
  moreover have "distinct (rs_ids ?p (kv r3))" "set (rs_ids ?p (kv r3)) = dom (rs_view ?p (kv r3))"
    using I(2,3) by (auto simp: view dom_def)
  ultimately show ?thesis using run kv by (auto simp: rs_inv_def)
qed

lemma delete_up:
  assumes S: "rs_cmd S = cmd" "quiet kv S" and inv: "rs_inv (rs_prefix S) (kv r)"
  shows "\<exists>r'. rs_Delete S i r = (r', None) \<and> rs_inv (rs_prefix S) (kv r')
     \<and> rs_view (rs_prefix S) (kv r') = (rs_view (rs_prefix S) (kv r))(i := None)
     \<and> rs_keys (rs_prefix S) (kv r')
         = spec_delete_key (rs_view (rs_prefix S) (kv r) i) (rs_keys (rs_prefix S) (kv r))
     \<and> rs_ids (rs_prefix S) (kv r') = removeAll i (rs_ids (rs_prefix S) (kv r))"
proof -
  let ?p = "rs_prefix S"
  let ?old = "rs_view ?p (kv r) i"
  note I = rs_invD [OF inv]
  obtain r1 where r1: "rs_Get S i r = (r1, case ?old of None \<Rightarrow> Inl (ErrNew ''job not found'') | Some x \<Rightarrow> Inr x)"
    "kv r1 = kv r"
    using get_up [OF S(1) I(1)] by blast
  obtain r2 v where r2: "cmd [''DEL'', job_key ?p i] r1 = (r2, Inr v)" "kv r2 = (kv r)(job_key ?p i := None)"
    using run_del [of "job_key ?p i" r1] r1(2) by auto
  have "as_list (kv r2 (order_key ?p)) = Some (rs_ids ?p (kv r))"
    using rs_typed_views [OF I(1)] r2(2) by simp
  then obtain r3 w where r3: "cmd [''LREM'', order_key ?p, ''0'', i] r2 = (r3, Inr w)"
    "kv r3 = (kv r)(job_key ?p i := None, order_key ?p := list_value (removeAll i (rs_ids ?p (kv r))))"
    using run_lrem [of r2 "order_key ?p" "rs_ids ?p (kv r)" i] r2(2) by auto
  have ids: "distinct (removeAll i (rs_ids ?p (kv r)))"
    "set (removeAll i (rs_ids ?p (kv r))) = dom ((rs_view ?p (kv r))(i := None))"
    using I(2,3) by (auto simp: distinct_removeAll)
  show ?thesis
  proof (cases "\<exists>q. ?old = Some q \<and> IdempotencyKey q \<noteq> []")
    case True
    then obtain q where q: "?old = Some q" "IdempotencyKey q \<noteq> []" by blast
    obtain r4 u where r4: "cmd [''DEL'', idem_key ?p (IdempotencyKey q)] r3 = (r4, Inr u)"
      "kv r4 = (kv r3)(idem_key ?p (IdempotencyKey q) := None)"
      using run_del by blast
    have "rs_Delete S i r = (changed S r4, None)"
      using r1 r2 r3 r4 q S(1) unfolding rs_Delete_def by (simp add: Let_def)
    moreover have "kv (changed S r4) = kv r4" using S(2) by (simp add: quiet_def)
    moreover have "rs_inv ?p (kv r4)" using ids I by (auto simp: rs_inv_def r3(2) r4(2) split: if_splits)
    ultimately show ?thesis using q by (simp add: spec_delete_key_def r3(2) r4(2))
  next
    case False
    then have "rs_Delete S i r = (changed S r3, None)"
      using r1 r2 r3 S(1) unfolding rs_Delete_def by (auto simp: Let_def split: option.splits)
    moreover have "kv (changed S r3) = kv r3" using S(2) by (simp add: quiet_def)
    moreover have "rs_inv ?p (kv r3)" using ids I by (auto simp: rs_inv_def r3(2) split: if_splits)
    ultimately show ?thesis using False by (auto simp: spec_delete_key_def r3(2) split: option.splits)
  qed
qed

lemma cancel_up:
  assumes S: "rs_cmd S = cmd" "quiet kv S" and inv: "rs_inv (rs_prefix S) (kv r)"
    and now: "now \<noteq> 0" "four_digit_year now"
  shows "\<exists>r' res. rs_Cancel S now i r = (r', res) \<and> rs_inv (rs_prefix S) (kv r')
     \<and> rs_view (rs_prefix S) (kv r') = spec_cancel now i (rs_view (rs_prefix S) (kv r))
     \<and> rs_keys (rs_prefix S) (kv r') = rs_keys (rs_prefix S) (kv r)
     \<and> (res = Inl (ErrNew ''job not found'') \<longleftrightarrow> rs_view (rs_prefix S) (kv r) i = None)
     \<and> (\<forall>q. res = Inr q \<longrightarrow> same_outcome q (the (rs_view (rs_prefix S) (kv r') i)))"
proof -
  let ?p = "rs_prefix S"
  note I = rs_invD [OF inv]
  obtain r1 where r1: "rs_Get S i r = (r1, case rs_view ?p (kv r) i of
      None \<Rightarrow> Inl (ErrNew ''job not found'') | Some x \<Rightarrow> Inr x)" "kv r1 = kv r"
    using get_up [OF S(1) I(1)] by blast
  show ?thesis
  proof (cases "rs_view ?p (kv r) i")
    case None
    then show ?thesis using r1 inv by (simp add: rs_Cancel_def spec_cancel_def)
  next
    case (Some q)
    show ?thesis
    proof (cases "terminal (Status q)")
      case True
      then show ?thesis using r1 Some inv by (simp add: rs_Cancel_def spec_cancel_def terminal_def)
    next
      case False
      have "settable now (mark_canceled q)" using settable_canceled I(4) Some now by blast
      then obtain r2 where "rs_Set S now i (mark_canceled q) r1 = (r2, mark_canceled q, None)"
        "rs_inv ?p (kv r2)" "rs_view ?p (kv r2) = spec_set now i (mark_canceled q) (rs_view ?p (kv r))"
        "rs_keys ?p (kv r2) = rs_keys ?p (kv r)"
        using set_up [OF S, of r1 now "mark_canceled q" i] inv r1(2) by auto
      then show ?thesis using r1 Some False
        by (simp add: rs_Cancel_def spec_cancel_def terminal_def same_outcome_def)
    qed
  qed
qed

lemma reserve_up:
  assumes S: "rs_cmd S = cmd" and inv: "rs_inv (rs_prefix S) (kv r)"
  shows "\<exists>r'. rs_ReserveIdempotencyKey S k i r
       = (r', Inr (snd (spec_reserve k i (rs_keys (rs_prefix S) (kv r)))))
     \<and> rs_inv (rs_prefix S) (kv r')
     \<and> rs_view (rs_prefix S) (kv r') = rs_view (rs_prefix S) (kv r)
     \<and> rs_keys (rs_prefix S) (kv r') = fst (spec_reserve k i (rs_keys (rs_prefix S) (kv r)))"
proof -
  let ?p = "rs_prefix S"
  let ?k = "idem_key ?p k"
  note I = rs_invD [OF inv]
  obtain w where w: "as_str (kv r ?k) = Some w" using I(1) by (rule typedD)
  consider "k = []" | "k \<noteq> []" "kv r ?k = None" | x where "k \<noteq> []" "kv r ?k = Some (VStr x)"
    using w by (cases "kv r ?k" rule: as_str.cases) auto
  then show ?thesis
  proof cases
    case 1
    then show ?thesis using inv by (simp add: rs_ReserveIdempotencyKey_def spec_reserve_def)
  next
    case 2
    obtain r' where r': "cmd [''SET'', ?k, i, ''NX''] r = (r', Inr (RStr ''OK''))" "kv r' = (kv r)(?k \<mapsto> VStr i)"
      using run_set_nx(1) [OF 2(2)] by blast
    have "rs_keys ?p (kv r) k = None" using 2 by (simp add: rs_keys_def)
    moreover have "rs_inv ?p (kv r')" using inv by (simp add: rs_inv_def r'(2))
    ultimately show ?thesis using 2 r' S
      by (simp add: rs_ReserveIdempotencyKey_def spec_reserve_def resp_String_def)
  next
    case (3 x)
    obtain r1 where r1: "cmd [''SET'', ?k, i, ''NX''] r = (r1, Inr RNil)" "kv r1 = kv r"
      using run_set_nx(2) 3 by (metis option.distinct(1))
    obtain r2 where r2: "cmd [''GET'', ?k] r1 = (r2, Inr (RStr x))" "kv r2 = kv r"
      using run_get [of r1 ?k "Some x"] r1(2) 3 by auto
    have "rs_keys ?p (kv r) k = Some x" using 3 by (simp add: rs_keys_def)
    then show ?thesis using 3 r1 r2 S inv
      by (simp add: rs_ReserveIdempotencyKey_def spec_reserve_def resp_String_def)
  qed
qed

end

text \<open>The snapshots of the ids that have a record, in the order of the ids.\<close>

definition snapshots_of :: "jobs_view \<Rightarrow> string list \<Rightarrow> job_snapshot list" where
  "snapshots_of m ids = List.map_filter (\<lambda>i. map_option (snapshot_of i) (m i)) ids"

context redis_up
begin

lemma snapshots_up:
  assumes S: "rs_cmd S = cmd"
  shows "rs_typed (rs_prefix S) (kv r) \<Longrightarrow> distinct ids \<Longrightarrow> set seen \<inter> set ids = {} \<Longrightarrow>
    \<exists>r'. rs_snapshots S seen (map RStr ids) r = (r', snapshots_of (rs_view (rs_prefix S) (kv r)) ids)
       \<and> kv r' = kv r"
proof (induction ids arbitrary: seen r)
  case Nil
  then show ?case by (simp add: snapshots_of_def List.map_filter_def)
next
  case (Cons i ids)
  let ?p = "rs_prefix S"
  obtain r1 where r1: "rs_Get S i r = (r1, case rs_view ?p (kv r) i of
      None \<Rightarrow> Inl (ErrNew ''job not found'') | Some x \<Rightarrow> Inr x)" "kv r1 = kv r"
    using get_up [OF S Cons.prems(1)] by blast
  obtain r2 where r2: "rs_snapshots S (i # seen) (map RStr ids) r1 = (r2, snapshots_of (rs_view ?p (kv r)) ids)"
    "kv r2 = kv r"
    using Cons.IH [of r1 "i # seen"] Cons.prems r1(2) by auto
  have "i \<notin> set seen" using Cons.prems(3) by simp
  then show ?case using r1 r2
    by (cases "rs_view ?p (kv r) i") (simp_all add: resp_String_def snapshots_of_def List.map_filter_def)
qed

lemma list_up:
  assumes S: "rs_cmd S = cmd" and inv: "rs_inv (rs_prefix S) (kv r)"
  shows "\<exists>r'. rs_List S r = (r', newest_first (snapshots_of (rs_view (rs_prefix S) (kv r))
       (take 200 (rs_ids (rs_prefix S) (kv r))))) \<and> kv r' = kv r"
proof -
  let ?p = "rs_prefix S" and ?ids = "take 200 (rs_ids (rs_prefix S) (kv r))"
  note I = rs_invD [OF inv]
  obtain r1 where r1: "cmd [''LRANGE'', order_key ?p, ''0'', ''199''] r = (r1, Inr (RArr (map RStr ?ids)))"
    "kv r1 = kv r"
    using run_lrange [OF rs_typed_views [OF I(1)]] by blast
  have "rs_typed ?p (kv r1)" "distinct ?ids" using I(1,2) r1(2) by (simp_all add: distinct_take)
  then obtain r2 where "rs_snapshots S [] (map RStr ?ids) r1 = (r2, snapshots_of (rs_view ?p (kv r)) ?ids)"
    "kv r2 = kv r"
    using snapshots_up [OF S, of r1 ?ids "[]"] r1(2) by auto
  then show ?thesis using r1(1) S by (simp add: rs_List_def resp_slice_def)
qed

end

lemma stats_loop_total: "Total (snd (rs_stats_loop S jobs st r)) = Total st"
  by (induction S jobs st r rule: rs_stats_loop.induct) (simp_all add: split_beta)

lemma snapshots_of_all:
  "set ids \<subseteq> dom m \<Longrightarrow> snapshots_of m ids = map (\<lambda>i. snapshot_of i (the (m i))) ids"
  unfolding snapshots_of_def by (rule map_filter_total) auto

section \<open>The two stores agree\<close>

fun rs_op :: "'r redis_storage \<Rightarrow> store_op \<Rightarrow> 'r \<Rightarrow> 'r" where
  "rs_op S (SetOp now i x) r = fst (rs_Set S now i x r)"
| "rs_op S (DeleteOp i) r = fst (rs_Delete S i r)"
| "rs_op S (CancelOp now i) r = fst (rs_Cancel S now i r)"
| "rs_op S (ReserveOp k i) r = fst (rs_ReserveIdempotencyKey S k i r)"

fun op_settable :: "store_op \<Rightarrow> bool" where
  "op_settable (SetOp now i x) = settable now x"
| "op_settable (CancelOp now i) = (now \<noteq> 0 \<and> four_digit_year now)"
| "op_settable _ = True"

definition rs_run :: "'r redis_storage \<Rightarrow> store_op list \<Rightarrow> 'r \<Rightarrow> 'r" where
  "rs_run S ops r = fold (rs_op S) ops r"

definition rs_abs :: "string \<Rightarrow> keyspace \<Rightarrow> jobs_view \<times> keys_view" where
  "rs_abs p d = (rs_view p d, rs_keys p d)"

context redis_up
begin

lemma op_up:
  assumes S: "rs_cmd S = cmd" "quiet kv S" and inv: "rs_inv (rs_prefix S) (kv r)" and op: "op_settable op"
  shows "rs_inv (rs_prefix S) (kv (rs_op S op r))"
    "rs_abs (rs_prefix S) (kv (rs_op S op r)) = spec_op op (rs_abs (rs_prefix S) (kv r))"
proof -
  have "rs_inv (rs_prefix S) (kv (rs_op S op r))
    \<and> rs_abs (rs_prefix S) (kv (rs_op S op r)) = spec_op op (rs_abs (rs_prefix S) (kv r))"
  proof (cases op)
    case (SetOp now i x)
    then show ?thesis using set_up [OF S inv, of now x i] op by (auto simp: rs_abs_def)
  next
    case (DeleteOp i)
    then show ?thesis using delete_up [OF S inv, of i] by (auto simp: rs_abs_def)
  next
    case (CancelOp now i)
    then show ?thesis using cancel_up [OF S inv, of now i] op by (auto simp: rs_abs_def)
  next
    case (ReserveOp k i)
    then show ?thesis using reserve_up [OF S(1) inv, of k i] by (auto simp: rs_abs_def)
  qed
  then show "rs_inv (rs_prefix S) (kv (rs_op S op r))"
    "rs_abs (rs_prefix S) (kv (rs_op S op r)) = spec_op op (rs_abs (rs_prefix S) (kv r))" by blast+
qed

lemma run_up:
  assumes S: "rs_cmd S = cmd" "quiet kv S"
  shows "rs_inv (rs_prefix S) (kv r) \<Longrightarrow> \<forall>op \<in> set ops. op_settable op \<Longrightarrow>
    rs_inv (rs_prefix S) (kv (rs_run S ops r))
    \<and> rs_abs (rs_prefix S) (kv (rs_run S ops r)) = fold spec_op ops (rs_abs (rs_prefix S) (kv r))"
proof (induction ops arbitrary: r)
  case Nil
  then show ?case by (simp add: rs_run_def)
next
  case (Cons op ops)
  then show ?case using op_up [OF S Cons.prems(1), of op] Cons.IH [of "rs_op S op r"]
    by (simp add: rs_run_def)
qed

end

text \<open>A namespace nobody has used yet.\<close>

definition unused :: "string \<Rightarrow> keyspace \<Rightarrow> bool" where
  "unused p d \<longleftrightarrow> (\<forall>k. d (p @ k) = None)"

lemma unused_empty:
  assumes "unused p d"
  shows "rs_inv p d" "rs_abs p d = (Map.empty, Map.empty)"
proof -
  have d: "d (job_key p i) = None" "d (order_key p) = None" "d (idem_key p k) = None" for i k
    using assms by (simp_all add: unused_def job_key_def order_key_def idem_key_def)
  then have "rs_view p d = Map.empty" by (simp add: rs_view_def fun_eq_iff)
  moreover have "rs_keys p d = Map.empty" using d by (simp add: rs_keys_def fun_eq_iff)
  ultimately show "rs_inv p d" "rs_abs p d = (Map.empty, Map.empty)"
    using d by (simp_all add: rs_inv_def rs_typed_def rs_ids_def rs_abs_def)
qed

lemma mem_run_abs: "abs_store (mem_run ops s) = fold spec_op ops (abs_store s)"
  by (induction ops arbitrary: s) (simp_all add: mem_run_def mem_op_refines)

text \<open>A server whose records and keys are what a run of operations should leave answers like the memory.\<close>

lemma agree_with_memory:
  assumes up: "redis_up cmd kv" and S: "rs_cmd S = cmd"
    and inv: "rs_inv (rs_prefix S) (kv r)"
    and run: "rs_abs (rs_prefix S) (kv r) = fold spec_op ops (Map.empty, Map.empty)"
  shows "snd (rs_Get S i r) = snd (mem_Get i (mem_run ops NewMemoryStorage))
    \<and> rs_keys (rs_prefix S) (kv r) = ms_keys (mem_run ops NewMemoryStorage)"
proof -
  have "abs_store NewMemoryStorage = (Map.empty, Map.empty)"
    by (simp add: abs_store_def ms_view_def ms_keys_def NewMemoryStorage_def)
  then have eq: "rs_abs (rs_prefix S) (kv r) = abs_store (mem_run ops NewMemoryStorage)"
    using run by (simp add: mem_run_abs)
  then have v: "rs_view (rs_prefix S) (kv r) = map_of (results (mem_run ops NewMemoryStorage))"
    by (simp add: rs_abs_def abs_store_def ms_view_def)
  obtain r' where "rs_Get S i r = (r', case rs_view (rs_prefix S) (kv r) i of
      None \<Rightarrow> Inl (ErrNew ''job not found'') | Some x \<Rightarrow> Inr x)"
    using redis_up.get_up [OF up S rs_invD(1) [OF inv]] by blast
  then show ?thesis using v eq
    by (simp add: mem_Get_def rs_abs_def abs_store_def split: option.splits)
qed

text \<open>The two metadata stores are interchangeable: on a Redis server that answers and a namespace not
  used before, after any run of operations \<open>Get\<close> of any job answers what the in-memory store answers
  after the same run, and the reserved idempotency keys are the same. (Records without PDF bytes
  of their own, times with four-digit years.)\<close>

theorem redis_agrees_with_memory:
  assumes up: "redis_up cmd kv" and S: "rs_cmd S = cmd" "quiet kv S"
    and fresh: "unused (rs_prefix S) (kv r)" and ops: "\<forall>op \<in> set ops. op_settable op"
  shows "snd (rs_Get S i (rs_run S ops r)) = snd (mem_Get i (mem_run ops NewMemoryStorage))
    \<and> rs_keys (rs_prefix S) (kv (rs_run S ops r)) = ms_keys (mem_run ops NewMemoryStorage)"
proof -
  note run = redis_up.run_up [OF up S unused_empty(1) [OF fresh] ops]
  then show ?thesis using unused_empty(2) [OF fresh] by (intro agree_with_memory [OF up S(1)]) simp_all
qed

text \<open>A listing (and with it the total of the statistics) covers the newest 200 submissions only: it holds
  the snapshots of exactly those jobs, sorted newest first, however many jobs are stored.\<close>

theorem redis_list_window:
  assumes up: "redis_up cmd kv" and S: "rs_cmd S = cmd" "quiet kv S"
    and fresh: "unused (rs_prefix S) (kv r0)" and ops: "\<forall>op \<in> set ops. op_settable op"
    and r: "r = rs_run S ops r0" and ids: "ids = rs_ids (rs_prefix S) (kv r)"
  shows "snd (rs_List S r) = newest_first (map (\<lambda>i. snapshot_of i (the (rs_view (rs_prefix S) (kv r) i))) (take 200 ids))
    \<and> distinct ids \<and> set ids = dom (rs_view (rs_prefix S) (kv r))
    \<and> Total (snd (rs_Stats S r)) = int (min 200 (card (dom (rs_view (rs_prefix S) (kv r)))))"
proof -
  have inv: "rs_inv (rs_prefix S) (kv r)"
    using redis_up.run_up [OF up S unused_empty(1) [OF fresh] ops] r by blast
  note I = rs_invD [OF inv]
  have dom: "distinct ids" "set ids = dom (rs_view (rs_prefix S) (kv r))"
    using I(2,3) ids by (auto simp: dom_def)
  obtain r' where l: "rs_List S r = (r', newest_first (snapshots_of (rs_view (rs_prefix S) (kv r)) (take 200 ids)))"
    using redis_up.list_up [OF up S(1) inv] ids by blast
  have "set (take 200 ids) \<subseteq> dom (rs_view (rs_prefix S) (kv r))" using dom set_take_subset by fast
  then have l2: "snapshots_of (rs_view (rs_prefix S) (kv r)) (take 200 ids)
      = map (\<lambda>i. snapshot_of i (the (rs_view (rs_prefix S) (kv r) i))) (take 200 ids)"
    by (rule snapshots_of_all)
  have "card (dom (rs_view (rs_prefix S) (kv r))) = length ids" using dom distinct_card by metis
  moreover have "Total (snd (rs_Stats S r)) = int (min 200 (length ids))"
    unfolding rs_Stats_def l by (simp add: stats_loop_total l2 empty_stats_def newest_first_def min.commute)
  ultimately show ?thesis using l l2 dom by simp
qed

text \<open>A store on the executable server, and some operations on it.\<close>

definition demo_rs :: "redis_state redis_storage" where
  "demo_rs = \<lparr>rs_cmd = redis_exec, rs_prefix = ''p'', rs_onSet = None\<rparr>"

definition demo_ops :: "store_op list" where
  "demo_ops =
     [ReserveOp ''k'' ''a'',
      SetOp 5 ''a'' (zero_result\<lparr>URL := ''http://e'', Status := StatusPending, IdempotencyKey := ''k''\<rparr>),
      SetOp 7 ''b'' (zero_result\<lparr>URL := ''http://f'', Status := StatusPending, PDFSize := 3\<rparr>),
      CancelOp 9 ''b'', DeleteOp ''a'']"

lemma demo_rs_ok:
  "redis_up (rs_cmd demo_rs) redis_db" "quiet redis_db demo_rs" "unused (rs_prefix demo_rs) (redis_db [])"
  "\<forall>op \<in> set demo_ops. op_settable op"
proof -
  show "redis_up (rs_cmd demo_rs) redis_db" using rx.redis_up_axioms by (simp add: demo_rs_def)
  show "quiet redis_db demo_rs" by (simp add: quiet_def demo_rs_def changed_def)
  show "unused (rs_prefix demo_rs) (redis_db [])" by (simp add: unused_def redis_db_def)
  have y: "four_digit_year 5" "four_digit_year 7" "four_digit_year 9" "four_digit_year 0" by code_simp+
  show "\<forall>op \<in> set demo_ops. op_settable op"
    by (simp add: demo_ops_def settable_def zero_result_def y is_int64_def)
qed

theorem redis_agrees_with_memory_witness:
  "map_option Status (case snd (rs_Get demo_rs ''b'' (rs_run demo_rs demo_ops [])) of Inl _ \<Rightarrow> None | Inr x \<Rightarrow> Some x)
     = Some StatusCanceled"
proof -
  have "map_option Status (case snd (mem_Get ''b'' (mem_run demo_ops NewMemoryStorage)) of Inl _ \<Rightarrow> None | Inr x \<Rightarrow> Some x)
     = Some StatusCanceled" by code_simp
  then show ?thesis
    using redis_agrees_with_memory [OF demo_rs_ok(1) refl demo_rs_ok(2,3,4), of "''b''"] by simp
qed

theorem redis_list_window_witness:
  "set (rs_ids (rs_prefix demo_rs) (redis_db (rs_run demo_rs demo_ops [])))
     = dom (rs_view (rs_prefix demo_rs) (redis_db (rs_run demo_rs demo_ops [])))
   \<and> Total (snd (rs_Stats demo_rs (rs_run demo_rs demo_ops [])))
     = int (min 200 (card (dom (rs_view (rs_prefix demo_rs) (redis_db (rs_run demo_rs demo_ops []))))))"
  using redis_list_window [OF demo_rs_ok(1) refl demo_rs_ok(2,3,4) refl refl] by blast

section \<open>When commands fail\<close>

definition store_closed :: "string \<Rightarrow> (keyspace \<Rightarrow> bool) \<Rightarrow> bool" where
  "store_closed p T \<longleftrightarrow> (\<forall>d. T d \<longrightarrow> rs_typed p d
     \<and> (\<forall>i h. T (d(job_key p i \<mapsto> VHash h)) \<and> T (d(job_key p i := None)))
     \<and> (\<forall>xs. T (d(order_key p := list_value xs)))
     \<and> (\<forall>k x. T (d(idem_key p k \<mapsto> VStr x)) \<and> T (d(idem_key p k := None))))"

lemma store_closedD:
  assumes "store_closed p T" "T d"
  shows "rs_typed p d" "T (d(job_key p i \<mapsto> VHash h))" "T (d(job_key p i := None))"
    "T (d(order_key p := list_value xs))" "T (d(idem_key p k \<mapsto> VStr x))" "T (d(idem_key p k := None))"
  using assms unfolding store_closed_def by blast+

lemma store_closed_typed: "store_closed p (rs_typed p)"
  by (simp add: store_closed_def)

context redis
begin

lemma get_frame:
  assumes "rs_cmd S = cmd" "rs_typed (rs_prefix S) (kv r)" "rs_Get S i r = (r', res)"
  shows "kv r' = kv r"
proof -
  obtain h where h: "as_hash (kv r (job_key (rs_prefix S) i)) = Some h" using assms(2) by (rule typedD)
  obtain q w where q: "cmd [''HGETALL'', job_key (rs_prefix S) i] r = (q, w)" by (metis surj_pair)
  have "kv q = kv r" using hgetall [OF h q] by (auto simp: answers_def)
  moreover have "r' = q" using assms(1,3) q by (auto simp: rs_Get_def split: sum.splits if_splits)
  ultimately show ?thesis by simp
qed

text \<open>
  A property of the keyspace that fixes the types of the store's keys and that the store's updates
  keep is kept by every operation, whichever of its commands fail.
\<close>

lemma T_step:
  assumes "answers d new reply d' res" "T d" "T new"
  shows "T d'"
  using assms by (auto simp: answers_def)

lemma T_lpush:
  assumes C: "store_closed p T" and T: "T (kv r)"
  shows "T (kv (fst (cmd [''LPUSH'', order_key p, x] r)))"
proof -
  obtain q w where q: "cmd [''LPUSH'', order_key p, x] r = (q, w)" by (metis surj_pair)
  show ?thesis using T_step [where T = T, OF lpush [OF rs_typed_views [OF store_closedD(1) [OF C T]] q] T]
      store_closedD(4) [OF C T] q by simp
qed

lemma T_lrem:
  assumes C: "store_closed p T" and T: "T (kv r)"
  shows "T (kv (fst (cmd [''LREM'', order_key p, ''0'', x] r)))"
proof -
  obtain q w where q: "cmd [''LREM'', order_key p, ''0'', x] r = (q, w)" by (metis surj_pair)
  show ?thesis using T_step [where T = T, OF lrem [OF rs_typed_views [OF store_closedD(1) [OF C T]] q] T]
      store_closedD(4) [OF C T] q by simp
qed

lemma T_del:
  assumes C: "store_closed p T" and T: "T (kv r)" and k: "k = job_key p i \<or> k = idem_key p i"
  shows "T (kv (fst (cmd [''DEL'', k] r)))"
proof -
  obtain q w where q: "cmd [''DEL'', k] r = (q, w)" by (metis surj_pair)
  have "T ((kv r)(k := None))" using k store_closedD(3,6) [OF C T] by (elim disjE) (simp_all only:)
  then show ?thesis using T_step [where T = T, OF del [OF q] T] q by simp
qed

lemma T_hset:
  assumes C: "store_closed p T" and T: "T (kv r)" and fvs: "fvs \<noteq> []"
  shows "T (kv (fst (cmd (''HSET'' # job_key p i # field_args fvs) r)))"
proof -
  obtain q w where q: "cmd (''HSET'' # job_key p i # field_args fvs) r = (q, w)" by (metis surj_pair)
  obtain h where h: "as_hash (kv r (job_key p i)) = Some h" using store_closedD(1) [OF C T] by (rule typedD)
  show ?thesis using T_step [where T = T, OF hset [OF h fvs q] T] store_closedD(2) [OF C T] q by simp
qed

lemma T_set_nx:
  assumes C: "store_closed p T" and T: "T (kv r)"
  shows "T (kv (fst (cmd [''SET'', idem_key p k, x, ''NX''] r)))"
proof -
  obtain q w where q: "cmd [''SET'', idem_key p k, x, ''NX''] r = (q, w)" by (metis surj_pair)
  have new: "T ((kv r)(idem_key p k \<mapsto> VStr x))" by (rule store_closedD(5) [OF C T])
  show ?thesis
  proof (cases "kv r (idem_key p k) = None")
    case True
    then show ?thesis using T_step [where T = T, OF _ T new] set_nx [OF q] q by auto
  next
    case False
    then show ?thesis using T_step [where T = T, OF _ T T] set_nx [OF q] q by auto
  qed
qed

lemma T_get:
  assumes C: "store_closed p T" and T: "T (kv r)"
  shows "T (kv (fst (cmd [''GET'', idem_key p k] r)))"
proof -
  obtain q w where q: "cmd [''GET'', idem_key p k] r = (q, w)" by (metis surj_pair)
  obtain s where s: "as_str (kv r (idem_key p k)) = Some s" using store_closedD(1) [OF C T] by (rule typedD)
  show ?thesis using T_step [where T = T, OF get [OF s q] T T] q by simp
qed

lemma T_Get:
  assumes C: "store_closed (rs_prefix S) T" and T: "T (kv r)" and S: "rs_cmd S = cmd" and g: "rs_Get S i r = (r', got)"
  shows "T (kv r')"
  using get_frame [OF S store_closedD(1) [OF C T] g] T by simp

lemma T_Set:
  assumes C: "store_closed (rs_prefix S) T" and T: "T (kv r)" and S: "rs_cmd S = cmd" "quiet kv S"
  shows "T (kv (fst (rs_Set S now i x r)))"
proof -
  obtain r1 got where r1: "rs_Get S i r = (r1, got)" by (metis surj_pair)
  define old where "old = (case got of Inl _ \<Rightarrow> None | Inr e \<Rightarrow> Some e)"
  define r2 where "r2 = (if old = None then fst (cmd [''LPUSH'', order_key (rs_prefix S), i] r1) else r1)"
  obtain r3 w where r3: "cmd (''HSET'' # job_key (rs_prefix S) i
      # field_args (record_fields (merge_result now old x))) r2 = (r3, w)" by (metis surj_pair)
  have "T (kv r2)" using T_Get [OF C T S(1) r1] T_lpush [OF C] by (simp add: r2_def)
  then have "T (kv r3)"
    using T_hset [OF C, of r2 "record_fields (merge_result now old x)" i] r3 by simp
  moreover have "rs_Set S now i x r = (case w of Inl e \<Rightarrow> (r3, x, Some e) | Inr _ \<Rightarrow> (changed S r3, x, None))"
    unfolding rs_Set_def r1 prod.case Let_def old_def [symmetric] S(1) r2_def [symmetric] r3 ..
  then have "fst (rs_Set S now i x r) = changed S r3 \<or> fst (rs_Set S now i x r) = r3"
    by (cases w) simp_all
  ultimately show ?thesis using S(2) by (auto simp: quiet_def)
qed

lemma T_Delete:
  assumes C: "store_closed (rs_prefix S) T" and T: "T (kv r)" and S: "rs_cmd S = cmd" "quiet kv S"
  shows "T (kv (fst (rs_Delete S i r)))"
proof -
  obtain r1 got where r1: "rs_Get S i r = (r1, got)" by (metis surj_pair)
  obtain r2 res where r2: "cmd [''DEL'', job_key (rs_prefix S) i] r1 = (r2, res)" by (metis surj_pair)
  define r3 where "r3 = fst (cmd [''LREM'', order_key (rs_prefix S), ''0'', i] r2)"
  have "T (kv r2)" using T_del [OF C T_Get [OF C T S(1) r1], of "job_key (rs_prefix S) i" i] r2 by simp
  then have t3: "T (kv r3)" unfolding r3_def by (rule T_lrem [OF C])
  then have "T (kv (fst (cmd [''DEL'', idem_key (rs_prefix S) k] r3)))" for k
    by (rule T_del [OF C]) blast
  then show ?thesis using r1 r2 t3 S
    by (auto simp: rs_Delete_def Let_def r3_def [symmetric] quiet_def split: sum.splits)
qed

lemma T_op:
  assumes C: "store_closed (rs_prefix S) T" and T: "T (kv r)" and S: "rs_cmd S = cmd" "quiet kv S"
  shows "T (kv (rs_op S op r))"
proof (cases op)
  case (SetOp now i x)
  then show ?thesis using T_Set [OF C T S] by simp
next
  case (DeleteOp i)
  then show ?thesis using T_Delete [OF C T S] by simp
next
  case (CancelOp now i)
  obtain r1 got where r1: "rs_Get S i r = (r1, got)" by (metis surj_pair)
  have t1: "T (kv r1)" by (rule T_Get [OF C T S(1) r1])
  have "T (kv (fst (rs_Set S now i q r1)))" for q by (rule T_Set [OF C t1 S])
  moreover have "rs_op S op r = r1 \<or> (\<exists>q. rs_op S op r = fst (rs_Set S now i q r1))"
    using r1 CancelOp by (auto simp: rs_Cancel_def split: sum.splits option.splits prod.splits)
      (metis fst_conv)+
  ultimately show ?thesis using t1 by auto
next
  case (ReserveOp k i)
  obtain r1 v where r1: "cmd [''SET'', idem_key (rs_prefix S) k, i, ''NX''] r = (r1, v)" by (metis surj_pair)
  have t1: "T (kv r1)" using T_set_nx [OF C T, of k i] r1 by simp
  then have "T (kv (fst (cmd [''GET'', idem_key (rs_prefix S) k] r1)))" by (rule T_get [OF C])
  then show ?thesis using T t1 r1 ReserveOp S(1)
    by (auto simp: rs_ReserveIdempotencyKey_def split: sum.splits prod.splits)
qed

end

text \<open>\<open>Set\<close> takes a failed read for a missing record. If the \<open>HGETALL\<close> fails and the commands after it
  succeed, the record is stored without what the old one carried: the creation time is the time
  of the update, idempotency key, callback URL and request id are only those given, and the id is
  in the submission order a second time.\<close>

theorem redis_set_after_failed_read:
  assumes server: "redis cmd kv" and S: "rs_cmd S = cmd" "quiet kv S"
    and typed: "rs_typed (rs_prefix S) (kv r)" and x: "settable now x"
    and read: "rs_Get S i r = (r1, Inl e)"
    and push: "cmd [''LPUSH'', order_key (rs_prefix S), i] r1 = (r2, Inr v)"
    and set: "rs_Set S now i x r = (r', x', None)"
  shows "rs_view (rs_prefix S) (kv r') = (rs_view (rs_prefix S) (kv r))(i \<mapsto> merge_result now None x)
    \<and> rs_ids (rs_prefix S) (kv r') = i # rs_ids (rs_prefix S) (kv r)"
proof -
  let ?p = "rs_prefix S" and ?m = "merge_result now None x"
  have k1: "kv r1 = kv r" using redis.get_frame [OF server S(1) typed read] .
  have ids: "as_list (kv r1 (order_key ?p)) = Some (rs_ids ?p (kv r))" using rs_typed_views [OF typed] k1 by simp
  have k2: "kv r2 = (kv r)(order_key ?p := list_value (i # rs_ids ?p (kv r)))"
    using redis.lpush [OF server ids push] k1 by (simp add: answers_def)
  obtain r3 w where r3: "cmd (''HSET'' # job_key ?p i # field_args (record_fields ?m)) r2 = (r3, w)"
    by (metis surj_pair)
  have "rs_Set S now i x r = (case w of Inl e \<Rightarrow> (r3, x, Some e) | Inr _ \<Rightarrow> (changed S r3, x, None))"
    using push S(1) r3 unfolding rs_Set_def read by (simp add: Let_def)
  then obtain u where u: "w = Inr u" "r' = changed S r3" using set by (cases w) auto
  obtain h where h: "as_hash (kv r (job_key ?p i)) = Some h" using typed by (rule typedD)
  then have "as_hash (kv r2 (job_key ?p i)) = Some h" using k2 by simp
  then have k3: "kv r3 = (kv r2)(job_key ?p i \<mapsto> VHash (h ++ map_of (rev (record_fields ?m))))"
    using redis.hset [OF server _ record_fields_nonempty r3] u(1) by (simp add: answers_def)
  have "storable ?m" using settable_merge(1) [OF x, of None] by simp
  then show ?thesis using S(2) u(2) by (simp add: quiet_def k3 k2 hash_roundtrip)
qed

theorem redis_set_after_failed_read_witness:
  "\<exists>r r' S. rs_view (rs_prefix S) (flaky_db r) ''a'' \<noteq> None
     \<and> snd (snd (rs_Set S 7 ''a'' (zero_result\<lparr>URL := ''http://e''\<rparr>) r)) = None
     \<and> fst (rs_Set S 7 ''a'' (zero_result\<lparr>URL := ''http://e''\<rparr>) r) = r'
     \<and> rs_ids (rs_prefix S) (flaky_db r') = [''a'', ''a'']"
proof -
  let ?S = "\<lparr>rs_cmd = flaky, rs_prefix = ''p'', rs_onSet = None\<rparr>"
  let ?x = "zero_result\<lparr>URL := ''http://e''\<rparr>"
  let ?db = "rs_op demo_rs (SetOp 5 ''a'' ?x) []"
  let ?r = "([True], ?db)"
  have y: "four_digit_year 5" "four_digit_year 7" "four_digit_year 0" by code_simp+
  have x: "settable 5 ?x" "settable 7 ?x" by (simp_all add: settable_def zero_result_def y is_int64_def)
  have up: "redis_up (rs_cmd demo_rs) redis_db" and q: "quiet redis_db demo_rs"
    and fresh: "unused (rs_prefix demo_rs) (redis_db [])" by (fact demo_rs_ok)+
  obtain s where s: "rs_Set demo_rs 5 ''a'' ?x [] = (s, ?x, None)" "rs_inv ''p'' (redis_db s)"
    "rs_view ''p'' (redis_db s) = spec_set 5 ''a'' ?x (rs_view ''p'' (redis_db []))"
    "rs_ids ''p'' (redis_db s) = (if rs_view ''p'' (redis_db []) ''a'' = None then [''a''] else [])
       @ rs_ids ''p'' (redis_db [])"
    using redis_up.set_up [OF up refl q unused_empty(1) [OF fresh] x(1), of "''a''"] by (auto simp: demo_rs_def)
  have empty: "rs_view ''p'' (redis_db []) = Map.empty" "rs_ids ''p'' (redis_db []) = []"
    by (auto simp: rs_view_def rs_ids_def redis_db_def)
  have db: "?db = s" using s(1) by simp
  have typed: "rs_typed (rs_prefix ?S) (flaky_db ?r)" using s(2) db by (simp add: flaky_db_def rs_inv_def)
  have quiet: "quiet flaky_db ?S" by (simp add: quiet_def changed_def)
  have read: "rs_Get ?S ''a'' ?r = (([], s), Inl (ErrNew ''connection reset''))"
    by (simp only: db) (simp add: rs_Get_def flaky_def)
  obtain s2 v where push: "redis_exec [''LPUSH'', order_key ''p'', ''a''] s = (s2, Inr v)"
    using rx.run_lpush [OF rs_typed_views [OF rs_invD(1) [OF s(2)]]] by blast
  have push': "flaky [''LPUSH'', order_key (rs_prefix ?S), ''a''] ([], s) = (([], s2), Inr v)"
    using push by (simp add: flaky_def)
  have k2: "as_hash (redis_db s2 (job_key ''p'' ''a'')) \<noteq> None"
    using rx.T_lpush [OF store_closed_typed rs_invD(1) [OF s(2)], of "''a''"] push by (simp add: rs_typed_def)
  then obtain h where h: "as_hash (redis_db s2 (job_key ''p'' ''a'')) = Some h" by blast
  obtain s3 w where hset: "redis_exec (''HSET'' # job_key ''p'' ''a'' # field_args (record_fields (merge_result 7 None ?x))) s2
      = (s3, Inr w)"
    using rx.run_hset [OF h record_fields_nonempty] by metis
  have set: "rs_Set ?S 7 ''a'' ?x ?r = (([], s3), ?x, None)"
    using read push' hset unfolding rs_Set_def by (simp add: Let_def flaky_def changed_def)
  have "rs_ids (rs_prefix ?S) (flaky_db ([], s3)) = ''a'' # rs_ids (rs_prefix ?S) (flaky_db ?r)"
    using redis_set_after_failed_read [OF fl.redis_axioms _ quiet typed x(2) read push' set] by simp
  moreover have "rs_ids (rs_prefix ?S) (flaky_db ?r) = [''a'']" "rs_view (rs_prefix ?S) (flaky_db ?r) ''a'' \<noteq> None"
    using s(3,4) empty db by (simp_all add: flaky_db_def)
  ultimately show ?thesis using set
    by (intro exI [of _ ?r] exI [of _ "([], s3)"] exI [of _ ?S]) simp
qed

end
