(* ===== verification/Redis_Queue.thy ===== *)
theory Redis_Queue
  imports Redis_Storage Go_Json "HOL-Library.Multiset"
begin

text \<open>
  The Redis job queue (\<open>internal/queue/redis.go\<close>): jobs as JSON texts in a list, jobs being worked
  on in a sorted set scored by the end of their lease. The JSON codec of a job is the one of the
  standard library, the server the one of \<open>Redis_Server\<close>.
\<close>

section \<open>Jobs as JSON\<close>

definition job_members :: "job \<Rightarrow> (string \<times> string) list" where
  "job_members j =
     [(''ID'', json_string (ID j)), (''URL'', json_string (job_URL j)),
      (''IdempotencyKey'', json_string (job_IdempotencyKey j)),
      (''CallbackURL'', json_string (job_CallbackURL j)),
      (''RequestID'', json_string (job_RequestID j)),
      (''QueueMessageID'', json_string (QueueMessageID j)),
      (''LeaseUntil'', quote # format_time (LeaseUntil j) @ [quote])]"

text \<open>\<open>json.Marshal\<close>; the only error is a time whose year does not have four digits.\<close>

definition encode_job :: "job \<Rightarrow> string result" where
  "encode_job j =
     (if four_digit_year (LeaseUntil j) then Inr (json_object (job_members j))
      else Inl (ErrNew ''Time.MarshalJSON: year outside of range [0,9999]''))"

text \<open>
  \<open>json.Unmarshal\<close> into a \<open>Job\<close>: names match in any letter case, unknown names are skipped, null
  leaves a field alone, a value of another type is an error (whose text is not modelled).
\<close>

definition set_text :: "json \<Rightarrow> (string \<Rightarrow> job) \<Rightarrow> job \<Rightarrow> job option" where
  "set_text v upd j = (case v of JNull \<Rightarrow> Some j | JStr _ s \<Rightarrow> Some (upd s) | _ \<Rightarrow> None)"

definition set_time :: "json \<Rightarrow> (time \<Rightarrow> job) \<Rightarrow> job \<Rightarrow> job option" where
  "set_time v upd j =
     (case v of JNull \<Rightarrow> Some j | JStr lit _ \<Rightarrow> map_option upd (parse_time lit) | _ \<Rightarrow> None)"

definition set_member :: "string \<times> json \<Rightarrow> job \<Rightarrow> job option" where
  "set_member m j =
     (case m of (k, v) \<Rightarrow>
        if equal_fold k ''ID'' then set_text v (\<lambda>s. j\<lparr>ID := s\<rparr>) j
        else if equal_fold k ''URL'' then set_text v (\<lambda>s. j\<lparr>job_URL := s\<rparr>) j
        else if equal_fold k ''IdempotencyKey'' then set_text v (\<lambda>s. j\<lparr>job_IdempotencyKey := s\<rparr>) j
        else if equal_fold k ''CallbackURL'' then set_text v (\<lambda>s. j\<lparr>job_CallbackURL := s\<rparr>) j
        else if equal_fold k ''RequestID'' then set_text v (\<lambda>s. j\<lparr>job_RequestID := s\<rparr>) j
        else if equal_fold k ''QueueMessageID'' then set_text v (\<lambda>s. j\<lparr>QueueMessageID := s\<rparr>) j
        else if equal_fold k ''LeaseUntil'' then set_time v (\<lambda>t. j\<lparr>LeaseUntil := t\<rparr>) j
        else Some j)"

fun set_members :: "(string \<times> json) list \<Rightarrow> job \<Rightarrow> job option" where
  "set_members [] j = Some j"
| "set_members (m # ms) j = (case set_member m j of None \<Rightarrow> None | Some j' \<Rightarrow> set_members ms j')"

definition decode_job :: "string \<Rightarrow> job option" where
  "decode_job s =
     (case json_unmarshal s of
        Some JNull \<Rightarrow> Some zero_job
      | Some (JObj ms) \<Rightarrow> set_members ms zero_job
      | _ \<Rightarrow> None)"

section \<open>State and operations\<close>

record 'r redis_queue =
  rq_cmd :: "string list \<Rightarrow> 'r \<Rightarrow> 'r \<times> resp result"
  queueKey :: string
  processingKey :: string
  rq_capacity :: int
  visibilityTimeout :: duration

definition NewRedisQueue ::
    "'c net \<Rightarrow> string \<Rightarrow> string \<Rightarrow> int \<Rightarrow> duration \<Rightarrow> ('c client redis_queue \<times> 'c client) result" where
  "NewRedisQueue net rawURL prefix cap vis =
     (case NewClient rawURL of
        Inl e \<Rightarrow> Inl e
      | Inr c \<Rightarrow>
          Inr (\<lparr>rq_cmd = client_cmd net, queueKey = default_prefix prefix @ '':queue'',
                processingKey = default_prefix prefix @ '':processing'', rq_capacity = cap,
                visibilityTimeout = (if vis \<le> 0 then 300 * second else vis)\<rparr>, c))"

definition rq_Len :: "'r redis_queue \<Rightarrow> 'r \<Rightarrow> 'r \<times> int result" where
  "rq_Len Q r =
     (case rq_cmd Q [''LLEN'', queueKey Q] r of
        (r1, Inl e) \<Rightarrow> (r1, Inl e)
      | (r1, Inr queued) \<Rightarrow>
          (case rq_cmd Q [''ZCARD'', processingKey Q] r1 of
             (r2, Inl e) \<Rightarrow> (r2, Inl e)
           | (r2, Inr processing) \<Rightarrow> (r2, Inr (to_int64 (resp_Int queued + resp_Int processing)))))"

definition rq_Cap :: "'r redis_queue \<Rightarrow> int" where
  "rq_Cap Q = rq_capacity Q"

definition with_message_id :: "string \<Rightarrow> job \<Rightarrow> job" where
  "with_message_id uuid j = (if QueueMessageID j = [] then j\<lparr>QueueMessageID := uuid\<rparr> else j)"

definition rq_enqueue :: "'r redis_queue \<Rightarrow> string \<Rightarrow> job \<Rightarrow> 'r \<Rightarrow> 'r \<times> go_error option" where
  "rq_enqueue Q uuid job r =
     (case encode_job ((with_message_id uuid job)\<lparr>LeaseUntil := 0\<rparr>) of
        Inl e \<Rightarrow> (r, Some e)
      | Inr data \<Rightarrow>
          (case rq_cmd Q [''LPUSH'', queueKey Q, data] r of
             (r', Inl e) \<Rightarrow> (r', Some e)
           | (r', Inr _) \<Rightarrow> (r', None)))"

definition rq_Push :: "'r redis_queue \<Rightarrow> string \<Rightarrow> job \<Rightarrow> 'r \<Rightarrow> 'r \<times> go_error option" where
  "rq_Push Q uuid job r =
     (if 0 < rq_capacity Q then
        (case rq_Len Q r of
           (r1, Inl e) \<Rightarrow> (r1, Some e)
         | (r1, Inr depth) \<Rightarrow>
             if rq_capacity Q \<le> depth then (r1, Some ErrQueueFull) else rq_enqueue Q uuid job r1)
      else rq_enqueue Q uuid job r)"

text \<open>The loop of \<open>requeueExpired\<close> over the payloads it has read.\<close>

fun requeue_items :: "'r redis_queue \<Rightarrow> resp list \<Rightarrow> 'r \<Rightarrow> 'r \<times> go_error option" where
  "requeue_items Q [] r = (r, None)"
| "requeue_items Q (item # items) r =
     (case decode_job (resp_String item) of
        None \<Rightarrow> requeue_items Q items (fst (rq_cmd Q [''ZREM'', processingKey Q, resp_String item] r))
      | Some job \<Rightarrow>
          (case encode_job (job\<lparr>LeaseUntil := 0\<rparr>) of
             Inl e \<Rightarrow> (r, Some e)
           | Inr data \<Rightarrow>
               (case rq_cmd Q [''ZREM'', processingKey Q, resp_String item] r of
                  (r1, Inl e) \<Rightarrow> (r1, Some e)
                | (r1, Inr _) \<Rightarrow>
                    (case rq_cmd Q [''LPUSH'', queueKey Q, data] r1 of
                       (r2, Inl e) \<Rightarrow> (r2, Some e)
                     | (r2, Inr _) \<Rightarrow> requeue_items Q items r2))))"

definition requeueExpired :: "'r redis_queue \<Rightarrow> time \<Rightarrow> 'r \<Rightarrow> 'r \<times> go_error option" where
  "requeueExpired Q now r =
     (case rq_cmd Q [''ZRANGEBYSCORE'', processingKey Q, ''-inf'', itoa (unix_seconds now),
                     ''LIMIT'', ''0'', ''25''] r of
        (r1, Inl e) \<Rightarrow> (r1, Some (ErrWrap ''read expired processing jobs'' e))
      | (r1, Inr v) \<Rightarrow> requeue_items Q (resp_slice v) r1)"

text \<open>
  What the surroundings give one round of \<open>Pop\<close>: the state of its context, the two readings of the
  clock and a new id.
\<close>

record pop_round =
  pr_ctx :: "go_error option"
  pr_now :: time
  pr_lease :: time
  pr_uuid :: string

definition decode_error :: go_error where
  "decode_error = ErrNew ''invalid job''"

text \<open>Leasing the payload that \<open>BRPOP\<close> returned.\<close>

definition rq_lease :: "'r redis_queue \<Rightarrow> pop_round \<Rightarrow> string \<Rightarrow> 'r \<Rightarrow> 'r \<times> job result" where
  "rq_lease Q p payload r =
     (case decode_job payload of
        None \<Rightarrow> (r, Inl decode_error)
      | Some job \<Rightarrow>
          let job' = (with_message_id (pr_uuid p) job)\<lparr>LeaseUntil := pr_lease p + visibilityTimeout Q\<rparr>
          in (case encode_job job' of
                Inl e \<Rightarrow> (r, Inl e)
              | Inr leased \<Rightarrow>
                  (case rq_cmd Q [''ZADD'', processingKey Q, itoa (unix_seconds (LeaseUntil job')), leased] r of
                     (r1, Inl e) \<Rightarrow> (fst (rq_cmd Q [''LPUSH'', queueKey Q, payload] r1), Inl e)
                   | (r1, Inr _) \<Rightarrow> (r1, Inr (job'\<lparr>QueueMessageID := leased\<rparr>)))))"

text \<open>\<open>Pop\<close> for the given rounds; \<open>None\<close>: after them it is still waiting.\<close>

fun rq_Pop :: "'r redis_queue \<Rightarrow> pop_round list \<Rightarrow> 'r \<Rightarrow> 'r \<times> job result option" where
  "rq_Pop Q [] r = (r, None)"
| "rq_Pop Q (p # ps) r =
     (case pr_ctx p of
        Some e \<Rightarrow> (r, Some (Inl e))
      | None \<Rightarrow>
          (case requeueExpired Q (pr_now p) r of
             (r1, Some e) \<Rightarrow> (r1, Some (Inl e))
           | (r1, None) \<Rightarrow>
               (case rq_cmd Q [''BRPOP'', queueKey Q, ''5''] r1 of
                  (r2, Inl e) \<Rightarrow> (r2, Some (Inl e))
                | (r2, Inr v) \<Rightarrow>
                    if v = RNil \<or> length (resp_slice v) < 2 then rq_Pop Q ps r2
                    else (case rq_lease Q p (resp_String (resp_slice v ! 1)) r2 of
                            (r3, res) \<Rightarrow> (r3, Some res)))))"

definition rq_Ack :: "'r redis_queue \<Rightarrow> job \<Rightarrow> 'r \<Rightarrow> 'r \<times> go_error option" where
  "rq_Ack Q job r =
     (if QueueMessageID job = [] then (r, None)
      else (case rq_cmd Q [''ZREM'', processingKey Q, QueueMessageID job] r of
              (r', Inl e) \<Rightarrow> (r', Some e)
            | (r', Inr _) \<Rightarrow> (r', None)))"

section \<open>Jobs survive\<close>

definition job_text_ok :: "job \<Rightarrow> bool" where
  "job_text_ok j \<longleftrightarrow> utf8_valid (ID j) \<and> utf8_valid (job_URL j) \<and> utf8_valid (job_IdempotencyKey j)
     \<and> utf8_valid (job_CallbackURL j) \<and> utf8_valid (job_RequestID j) \<and> utf8_valid (QueueMessageID j)"

lemma field_names:
  "equal_fold ''ID'' ''ID''" "\<not> equal_fold ''URL'' ''ID''" "equal_fold ''URL'' ''URL''"
  "\<not> equal_fold ''IdempotencyKey'' ''ID''" "\<not> equal_fold ''IdempotencyKey'' ''URL''"
  "equal_fold ''IdempotencyKey'' ''IdempotencyKey''" "\<not> equal_fold ''CallbackURL'' ''ID''"
  "\<not> equal_fold ''CallbackURL'' ''URL''" "\<not> equal_fold ''CallbackURL'' ''IdempotencyKey''"
  "equal_fold ''CallbackURL'' ''CallbackURL''" "\<not> equal_fold ''RequestID'' ''ID''"
  "\<not> equal_fold ''RequestID'' ''URL''" "\<not> equal_fold ''RequestID'' ''IdempotencyKey''"
  "\<not> equal_fold ''RequestID'' ''CallbackURL''" "equal_fold ''RequestID'' ''RequestID''"
  "\<not> equal_fold ''QueueMessageID'' ''ID''" "\<not> equal_fold ''QueueMessageID'' ''URL''"
  "\<not> equal_fold ''QueueMessageID'' ''IdempotencyKey''"
  "\<not> equal_fold ''QueueMessageID'' ''CallbackURL''"
  "\<not> equal_fold ''QueueMessageID'' ''RequestID''"
  "equal_fold ''QueueMessageID'' ''QueueMessageID''" "\<not> equal_fold ''LeaseUntil'' ''ID''"
  "\<not> equal_fold ''LeaseUntil'' ''URL''" "\<not> equal_fold ''LeaseUntil'' ''IdempotencyKey''"
  "\<not> equal_fold ''LeaseUntil'' ''CallbackURL''" "\<not> equal_fold ''LeaseUntil'' ''RequestID''"
  "\<not> equal_fold ''LeaseUntil'' ''QueueMessageID''" "equal_fold ''LeaseUntil'' ''LeaseUntil''"
  by code_simp+

lemma job_roundtrip:
  assumes "job_text_ok j" "encode_job j = Inr s"
  shows "decode_job s = Some j"
proof -
  have y: "four_digit_year (LeaseUntil j)" and s: "s = json_object (job_members j)"
    using assms(2) by (auto simp: encode_job_def split: if_splits)
  let ?m = "\<lambda>k v. (k, json_string v, JStr (json_escape v) v)"
  let ?ms = "[?m ''ID'' (ID j), ?m ''URL'' (job_URL j), ?m ''IdempotencyKey'' (job_IdempotencyKey j),
      ?m ''CallbackURL'' (job_CallbackURL j), ?m ''RequestID'' (job_RequestID j),
      ?m ''QueueMessageID'' (QueueMessageID j),
      (''LeaseUntil'', quote # format_time (LeaseUntil j) @ [quote],
       JStr (format_time (LeaseUntil j)) (format_time (LeaseUntil j)))]"
  have "utf8_valid ''ID''" "utf8_valid ''URL''" "utf8_valid ''IdempotencyKey''" "utf8_valid ''CallbackURL''"
    "utf8_valid ''RequestID''" "utf8_valid ''QueueMessageID''" "utf8_valid ''LeaseUntil''"
    by (rule utf8_valid_ascii, simp)+
  then have "list_all member_ok ?ms"
    using assms(1) json_string_reads format_time_reads by (simp add: member_ok_def job_text_ok_def)
  moreover have "map (\<lambda>(k, vt, v). (k, vt)) ?ms = job_members j" by (simp add: job_members_def)
  ultimately have "json_unmarshal s = Some (JObj (map (\<lambda>(k, vt, v). (k, v)) ?ms))"
    using json_object_read [of ?ms] s by simp
  moreover have "set_members (map (\<lambda>(k, vt, v). (k, v)) ?ms) zero_job = Some j"
    using y by (simp add: set_member_def set_text_def set_time_def parse_format field_names zero_job_def
        del: equal_fold.simps)
  ultimately show ?thesis by (simp add: decode_job_def)
qed

section \<open>The messages behind a keyspace\<close>

definition rq_waiting :: "'r redis_queue \<Rightarrow> keyspace \<Rightarrow> string list" where
  "rq_waiting Q d = (case as_list (d (queueKey Q)) of None \<Rightarrow> [] | Some xs \<Rightarrow> xs)"

definition rq_leased :: "'r redis_queue \<Rightarrow> keyspace \<Rightarrow> string set" where
  "rq_leased Q d = (case as_zset (d (processingKey Q)) of None \<Rightarrow> {} | Some z \<Rightarrow> dom z)"

text \<open>A job without what the queue itself puts into it, and the message a payload carries.\<close>

definition job_core :: "job \<Rightarrow> job" where
  "job_core j = j\<lparr>QueueMessageID := [], LeaseUntil := 0\<rparr>"

definition message_of :: "string \<Rightarrow> string \<times> job" where
  "message_of s = (let j = the (decode_job s) in (QueueMessageID j, job_core j))"

definition rq_messages :: "'r redis_queue \<Rightarrow> keyspace \<Rightarrow> (string \<times> job) set" where
  "rq_messages Q d = message_of ` (set (rq_waiting Q d) \<union> rq_leased Q d)"

definition payload_ok :: "string \<Rightarrow> bool" where
  "payload_ok s \<longleftrightarrow> (\<exists>j. decode_job s = Some j \<and> job_text_ok j \<and> QueueMessageID j \<noteq> [])"

definition rq_typed :: "'r redis_queue \<Rightarrow> keyspace \<Rightarrow> bool" where
  "rq_typed Q d \<longleftrightarrow> queueKey Q \<noteq> processingKey Q \<and> as_list (d (queueKey Q)) \<noteq> None
     \<and> as_zset (d (processingKey Q)) \<noteq> None"

text \<open>Every payload is a job's text, and no message id occurs twice.\<close>

definition rq_inv :: "'r redis_queue \<Rightarrow> keyspace \<Rightarrow> bool" where
  "rq_inv Q d \<longleftrightarrow> rq_typed Q d \<and> (\<forall>s \<in> set (rq_waiting Q d) \<union> rq_leased Q d. payload_ok s)
     \<and> distinct (map (fst \<circ> message_of) (rq_waiting Q d)) \<and> inj_on (fst \<circ> message_of) (rq_leased Q d)
     \<and> (fst \<circ> message_of) ` set (rq_waiting Q d) \<inter> (fst \<circ> message_of) ` rq_leased Q d = {}"

lemma rq_views:
  assumes "rq_typed Q d"
  shows "as_list (d (queueKey Q)) = Some (rq_waiting Q d)"
    "\<exists>z. as_zset (d (processingKey Q)) = Some z \<and> dom z = rq_leased Q d"
  using assms by (auto simp: rq_typed_def rq_waiting_def rq_leased_def)

lemma rq_view_updates:
  assumes "rq_typed Q d"
  shows "rq_waiting Q (d(queueKey Q := list_value xs)) = xs"
    "rq_waiting Q (d(processingKey Q := zset_value z)) = rq_waiting Q d"
    "rq_leased Q (d(queueKey Q := list_value xs)) = rq_leased Q d"
    "rq_leased Q (d(processingKey Q := zset_value z)) = dom z"
    "rq_typed Q (d(queueKey Q := list_value xs))"
    "rq_typed Q (d(processingKey Q := zset_value z))"
  using assms by (auto simp: rq_typed_def rq_waiting_def rq_leased_def)

lemma day_bound:
  fixes n :: int
  assumes "365 * (y - 1) + a - b + c + yd = n" "0 \<le> yd" "yd \<le> 366" "0 \<le> a + 1" "a \<le> 9998"
    "- 1 \<le> b" "b \<le> 9998" "- 1 \<le> c" "c \<le> 9998" "0 \<le> y" "y \<le> 9999"
  shows "- 4000000 \<le> n" and "n \<le> 4000000"
  using assms by presburger+

lemma four_digit_score:
  assumes "four_digit_year t"
  shows "is_score (unix_seconds t)"
proof -
  let ?n = "t div day_ns"
  obtain y yd where y: "year_day ?n = (y, yd)" by (metis surj_pair)
  note Y = year_day_correct [OF y]
  have r: "0 \<le> y" "y \<le> 9999" using assms y
    by (auto simp: four_digit_year_def Let_def date_of_days_def split: prod.splits)
  have yd: "yd \<le> 366" using Y(3) by (simp split: if_splits)
  let ?p = "y - 1"
  have d: "0 \<le> ?p div 4 + 1" "?p div 4 \<le> 9998" "- 1 \<le> ?p div 100" "?p div 100 \<le> 9998"
    "- 1 \<le> ?p div 400" "?p div 400 \<le> 9998"
    using r by (simp_all add: div_le_dividend int_div_less_self zdiv_mono1 div_int_pos_iff)
  have "- 4000000 \<le> ?n" "?n \<le> 4000000"
    using day_bound [OF Y(1)[unfolded days_to_year_def Let_def] Y(2) yd d r] by blast+
  then have "\<bar>?n\<bar> \<le> 4000000" by simp
  then have "\<bar>t\<bar> \<le> 4000001 * day_ns"
    using div_bounds [of day_ns t] by (simp add: day_ns_def)
  then have "\<bar>t div second\<bar> \<le> 400000000000"
    using div_bounds [of second t] by (simp add: day_ns_def)
  then show ?thesis by (simp add: is_score_def unix_seconds_def)
qed

lemma encode_ok: "four_digit_year (LeaseUntil j) \<Longrightarrow> \<exists>s. encode_job j = Inr s"
  by (simp add: encode_job_def)

lemma zero_time_ok [simp]: "four_digit_year 0"
  by code_simp

lemma job_core_update [simp]:
  "job_core (j\<lparr>LeaseUntil := t\<rparr>) = job_core j" "job_core (j\<lparr>QueueMessageID := m\<rparr>) = job_core j"
  "job_text_ok (j\<lparr>LeaseUntil := t\<rparr>) = job_text_ok j"
  by (simp_all add: job_core_def job_text_ok_def)

lemma encoded_payload:
  assumes "job_text_ok j" "QueueMessageID j \<noteq> []" "encode_job j = Inr s"
  shows "payload_ok s" "message_of s = (QueueMessageID j, job_core j)"
  using job_roundtrip [OF assms(1,3)] assms by (auto simp: payload_ok_def message_of_def Let_def)

text \<open>Moving a message from one place to the other under the same id.\<close>

lemma inv_lease_back:
  assumes inv: "rq_inv Q d" and s: "s \<in> rq_leased Q d" and t: "payload_ok t" "message_of t = message_of s"
    and d': "rq_typed Q d'" "rq_waiting Q d' = t # rq_waiting Q d" "rq_leased Q d' = rq_leased Q d - {s}"
  shows "rq_inv Q d'" "rq_messages Q d' = rq_messages Q d"
proof -
  have "(fst \<circ> message_of) t \<notin> (fst \<circ> message_of) ` set (rq_waiting Q d)"
    using inv s t(2) unfolding rq_inv_def by fastforce
  moreover have "(fst \<circ> message_of) t \<notin> (fst \<circ> message_of) ` (rq_leased Q d - {s})"
    using inv s t(2) unfolding rq_inv_def inj_on_def by (auto simp: image_iff)
  moreover have "inj_on (fst \<circ> message_of) (rq_leased Q d - {s})"
    using inv unfolding rq_inv_def by (meson Diff_subset inj_on_subset)
  ultimately show "rq_inv Q d'" using inv t(1) d' unfolding rq_inv_def by (auto simp: image_iff)
  show "rq_messages Q d' = rq_messages Q d" using s t(2) d' by (auto simp: rq_messages_def)
qed

lemma inv_lease_out:
  assumes inv: "rq_inv Q d" and w: "rq_waiting Q d = xs @ [s]" and t: "payload_ok t" "message_of t = message_of s"
    and d': "rq_typed Q d'" "rq_waiting Q d' = xs" "rq_leased Q d' = insert t (rq_leased Q d)"
  shows "rq_inv Q d'" "rq_messages Q d' = rq_messages Q d"
proof -
  have new: "(fst \<circ> message_of) t \<notin> (fst \<circ> message_of) ` rq_leased Q d"
    using inv w t(2) unfolding rq_inv_def by auto
  moreover have "(fst \<circ> message_of) t \<notin> (fst \<circ> message_of) ` set xs"
    using inv w t(2) unfolding rq_inv_def by auto
  moreover have "inj_on (fst \<circ> message_of) (insert t (rq_leased Q d))"
    using inv new unfolding rq_inv_def by (auto simp: inj_on_insert)
  ultimately show "rq_inv Q d'" using inv w t(1) d' unfolding rq_inv_def by auto
  show "rq_messages Q d' = rq_messages Q d" using w t(2) d' by (auto simp: rq_messages_def)
qed

section \<open>Operations on a server that answers\<close>

context redis_up
begin

lemma run_zadd:
  "as_zset (kv r k) = Some z \<Longrightarrow> is_score s \<Longrightarrow>
     \<exists>r' v. cmd [''ZADD'', k, itoa s, m] r = (r', Inr v) \<and> kv r' = (kv r)(k := zset_value (z(m \<mapsto> s)))"
  using zadd [of r k z s m] done_by [of "[''ZADD'', k, itoa s, m]" r]
  by (cases "cmd [''ZADD'', k, itoa s, m] r") (fastforce simp: well_typed_def)

lemma run_zrem:
  "as_zset (kv r k) = Some z \<Longrightarrow>
     \<exists>r' v. cmd [''ZREM'', k, m] r = (r', Inr v) \<and> kv r' = (kv r)(k := zset_value (z(m := None)))"
  using zrem [of r k z m] done_by [of "[''ZREM'', k, m]" r]
  by (cases "cmd [''ZREM'', k, m] r") (fastforce simp: well_typed_def)

lemma run_llen:
  "as_list (kv r k) = Some xs \<Longrightarrow>
     \<exists>r'. cmd [''LLEN'', k] r = (r', Inr (RInt (int (length xs)))) \<and> kv r' = kv r"
  using llen [of r k xs] done_by [of "[''LLEN'', k]" r]
  by (cases "cmd [''LLEN'', k] r") (fastforce simp: well_typed_def)

lemma run_zcard:
  "as_zset (kv r k) = Some z \<Longrightarrow>
     \<exists>r'. cmd [''ZCARD'', k] r = (r', Inr (RInt (int (card (dom z))))) \<and> kv r' = kv r"
  using zcard [of r k z] done_by [of "[''ZCARD'', k]" r]
  by (cases "cmd [''ZCARD'', k] r") (fastforce simp: well_typed_def)

lemma run_brpop:
  "as_list (kv r k) = Some xs \<Longrightarrow>
     \<exists>r'. cmd [''BRPOP'', k, ''5''] r = (r', Inr (if xs = [] then RNil else RArr [RStr k, RStr (last xs)]))
       \<and> kv r' = (if xs = [] then kv r else (kv r)(k := list_value (butlast xs)))"
  using brpop [of r k xs] done_by [of "[''BRPOP'', k, ''5'']" r]
  by (cases "cmd [''BRPOP'', k, ''5''] r") (fastforce simp: well_typed_def)

lemma run_zrange:
  "as_zset (kv r k) = Some z \<Longrightarrow> is_score s \<Longrightarrow>
     \<exists>r' ms. cmd [''ZRANGEBYSCORE'', k, ''-inf'', itoa s, ''LIMIT'', ''0'', ''25''] r
         = (r', Inr (RArr (map RStr ms))) \<and> kv r' = kv r \<and> distinct ms \<and> set ms \<subseteq> dom z"
  using zrange [of r k z s]
    done_by [of "[''ZRANGEBYSCORE'', k, ''-inf'', itoa s, ''LIMIT'', ''0'', ''25'']" r]
  by (cases "cmd [''ZRANGEBYSCORE'', k, ''-inf'', itoa s, ''LIMIT'', ''0'', ''25''] r")
    (fastforce simp: well_typed_def)

lemma len_up:
  assumes Q: "rq_cmd Q = cmd" and t: "rq_typed Q (kv r)"
  shows "\<exists>r'. rq_Len Q r = (r', Inr (to_int64 (int (length (rq_waiting Q (kv r)))
       + int (card (rq_leased Q (kv r)))))) \<and> kv r' = kv r"
proof -
  obtain r1 where r1: "cmd [''LLEN'', queueKey Q] r = (r1, Inr (RInt (int (length (rq_waiting Q (kv r))))))"
    "kv r1 = kv r"
    using run_llen [OF rq_views(1) [OF t]] by blast
  obtain z where z: "as_zset (kv r1 (processingKey Q)) = Some z" "dom z = rq_leased Q (kv r)"
    using rq_views(2) [OF t] r1(2) by auto
  obtain r2 where "cmd [''ZCARD'', processingKey Q] r1 = (r2, Inr (RInt (int (card (rq_leased Q (kv r))))))"
    "kv r2 = kv r"
    using run_zcard [OF z(1)] z(2) r1(2) by auto
  then show ?thesis using r1 Q by (simp add: rq_Len_def resp_Int_def)
qed

lemma requeue_items_up:
  assumes Q: "rq_cmd Q = cmd"
  shows "rq_inv Q (kv r) \<Longrightarrow> distinct ms \<Longrightarrow> set ms \<subseteq> rq_leased Q (kv r) \<Longrightarrow>
    \<exists>r'. requeue_items Q (map RStr ms) r = (r', None) \<and> rq_inv Q (kv r')
       \<and> rq_messages Q (kv r') = rq_messages Q (kv r)"
proof (induction ms arbitrary: r)
  case (Cons m ms)
  have m: "m \<in> rq_leased Q (kv r)" and t: "rq_typed Q (kv r)" using Cons.prems by (simp_all add: rq_inv_def)
  then have "payload_ok m" using Cons.prems(1) by (simp add: rq_inv_def)
  then obtain j where j: "decode_job m = Some j" "job_text_ok j" "QueueMessageID j \<noteq> []"
    by (auto simp: payload_ok_def)
  obtain s where s: "encode_job (j\<lparr>LeaseUntil := 0\<rparr>) = Inr s" using encode_ok [of "j\<lparr>LeaseUntil := 0\<rparr>"] by auto
  have p: "payload_ok s" "message_of s = message_of m"
    using encoded_payload [OF _ _ s] j by (auto simp: message_of_def Let_def)
  obtain z where z: "as_zset (kv r (processingKey Q)) = Some z" "dom z = rq_leased Q (kv r)"
    using rq_views(2) [OF t] by blast
  obtain r1 v where r1: "cmd [''ZREM'', processingKey Q, m] r = (r1, Inr v)"
    "kv r1 = (kv r)(processingKey Q := zset_value (z(m := None)))"
    using run_zrem [OF z(1)] by blast
  have v1: "rq_typed Q (kv r1)" "rq_waiting Q (kv r1) = rq_waiting Q (kv r)"
    "rq_leased Q (kv r1) = rq_leased Q (kv r) - {m}"
    using rq_view_updates [OF t] r1(2) z(2) by auto
  obtain r2 w where r2: "cmd [''LPUSH'', queueKey Q, s] r1 = (r2, Inr w)"
    "kv r2 = (kv r1)(queueKey Q := list_value (s # rq_waiting Q (kv r)))"
    using run_lpush [OF rq_views(1) [OF v1(1)]] v1(2) by fastforce
  have v2: "rq_typed Q (kv r2)" "rq_waiting Q (kv r2) = s # rq_waiting Q (kv r)"
    "rq_leased Q (kv r2) = rq_leased Q (kv r) - {m}"
    using rq_view_updates [OF v1(1)] r2(2) v1 by auto
  note I = inv_lease_back [OF Cons.prems(1) m p v2]
  have "set ms \<subseteq> rq_leased Q (kv r2)" using Cons.prems(2,3) v2(3) by auto
  then obtain r' where "requeue_items Q (map RStr ms) r2 = (r', None)" "rq_inv Q (kv r')"
    "rq_messages Q (kv r') = rq_messages Q (kv r2)"
    using Cons.IH [OF I(1)] Cons.prems(2) by auto
  then show ?case using Q j s r1(1) r2(1) I(2) by (simp add: resp_String_def)
qed simp

lemma requeue_up:
  assumes Q: "rq_cmd Q = cmd" and inv: "rq_inv Q (kv r)" and now: "four_digit_year now"
  shows "\<exists>r'. requeueExpired Q now r = (r', None) \<and> rq_inv Q (kv r')
       \<and> rq_messages Q (kv r') = rq_messages Q (kv r)"
proof -
  have t: "rq_typed Q (kv r)" using inv by (simp add: rq_inv_def)
  obtain z where z: "as_zset (kv r (processingKey Q)) = Some z" "dom z = rq_leased Q (kv r)"
    using rq_views(2) [OF t] by blast
  obtain r1 ms where r1: "cmd [''ZRANGEBYSCORE'', processingKey Q, ''-inf'', itoa (unix_seconds now),
      ''LIMIT'', ''0'', ''25''] r = (r1, Inr (RArr (map RStr ms)))" "kv r1 = kv r" "distinct ms" "set ms \<subseteq> dom z"
    using run_zrange [OF z(1) four_digit_score [OF now]] by blast
  show ?thesis using requeue_items_up [OF Q, of r1 ms] inv r1 z Q
    by (simp add: requeueExpired_def resp_slice_def)
qed

lemma lease_up:
  assumes Q: "rq_cmd Q = cmd" and inv: "rq_inv Q (kv r)" and w: "rq_waiting Q (kv r) = xs @ [s]"
    and r0: "kv r0 = (kv r)(queueKey Q := list_value xs)"
    and p: "four_digit_year (pr_lease p + visibilityTimeout Q)"
  shows "\<exists>r' j. rq_lease Q p s r0 = (r', Inr j) \<and> rq_inv Q (kv r') \<and> rq_messages Q (kv r') = rq_messages Q (kv r)
     \<and> QueueMessageID j \<in> rq_leased Q (kv r') \<and> message_of (QueueMessageID j) = message_of s
     \<and> snd (message_of s) = job_core j"
proof -
  have t: "rq_typed Q (kv r)" using inv by (simp add: rq_inv_def)
  have "payload_ok s" using inv w by (simp add: rq_inv_def)
  then obtain j where j: "decode_job s = Some j" "job_text_ok j" "QueueMessageID j \<noteq> []"
    by (auto simp: payload_ok_def)
  let ?j = "j\<lparr>LeaseUntil := pr_lease p + visibilityTimeout Q\<rparr>"
  obtain l where l: "encode_job ?j = Inr l" using encode_ok [of ?j] p by auto
  have ok: "payload_ok l" "message_of l = message_of s"
    using encoded_payload [OF _ _ l] j by (auto simp: message_of_def Let_def)
  have v0: "rq_typed Q (kv r0)" "rq_waiting Q (kv r0) = xs" "rq_leased Q (kv r0) = rq_leased Q (kv r)"
    using rq_view_updates [OF t] r0 by simp_all
  obtain z where z: "as_zset (kv r0 (processingKey Q)) = Some z" "dom z = rq_leased Q (kv r)"
    using rq_views(2) [OF v0(1)] v0(3) by auto
  obtain r1 v where r1: "cmd [''ZADD'', processingKey Q, itoa (unix_seconds (LeaseUntil ?j)), l] r0 = (r1, Inr v)"
    "kv r1 = (kv r0)(processingKey Q := zset_value (z(l \<mapsto> unix_seconds (LeaseUntil ?j))))"
    using run_zadd [OF z(1) four_digit_score, of "LeaseUntil ?j" l] p by auto
  have v1: "rq_typed Q (kv r1)" "rq_waiting Q (kv r1) = xs" "rq_leased Q (kv r1) = insert l (rq_leased Q (kv r))"
    using rq_view_updates [OF v0(1)] r1(2) z(2) v0 by auto
  note I = inv_lease_out [OF inv w ok v1]
  have "rq_lease Q p s r0 = (r1, Inr (?j\<lparr>QueueMessageID := l\<rparr>))"
    using j l r1(1) Q by (simp add: rq_lease_def with_message_id_def Let_def)
  then show ?thesis using I v1(3) ok j by (auto simp: message_of_def Let_def)
qed

lemma pop_up:
  assumes Q: "rq_cmd Q = cmd"
  shows "rq_inv Q (kv r) \<Longrightarrow>
    \<forall>p \<in> set ps. four_digit_year (pr_now p) \<and> four_digit_year (pr_lease p + visibilityTimeout Q) \<Longrightarrow>
    \<exists>r' res. rq_Pop Q ps r = (r', res) \<and> rq_inv Q (kv r') \<and> rq_messages Q (kv r') = rq_messages Q (kv r)
      \<and> (\<forall>j. res = Some (Inr j) \<longrightarrow> QueueMessageID j \<in> rq_leased Q (kv r')
           \<and> snd (message_of (QueueMessageID j)) = job_core j)
      \<and> (\<forall>e. res = Some (Inl e) \<longrightarrow> (\<exists>p \<in> set ps. pr_ctx p = Some e))"
proof (induction ps arbitrary: r)
  case (Cons p ps)
  show ?case
  proof (cases "pr_ctx p")
    case (Some e)
    then show ?thesis using Cons.prems by simp
  next
    case None
    obtain r1 where r1: "requeueExpired Q (pr_now p) r = (r1, None)" "rq_inv Q (kv r1)"
      "rq_messages Q (kv r1) = rq_messages Q (kv r)"
      using requeue_up [OF Q Cons.prems(1)] Cons.prems(2) by fastforce
    have t: "rq_typed Q (kv r1)" using r1(2) by (simp add: rq_inv_def)
    obtain r2 where r2: "cmd [''BRPOP'', queueKey Q, ''5''] r1 = (r2, Inr (if rq_waiting Q (kv r1) = [] then RNil
        else RArr [RStr (queueKey Q), RStr (last (rq_waiting Q (kv r1)))]))"
      "kv r2 = (if rq_waiting Q (kv r1) = [] then kv r1
        else (kv r1)(queueKey Q := list_value (butlast (rq_waiting Q (kv r1)))))"
      using run_brpop [OF rq_views(1) [OF t]] by blast
    show ?thesis
    proof (cases "rq_waiting Q (kv r1) = []")
      case True
      then obtain r' res where "rq_Pop Q ps r2 = (r', res)" "rq_inv Q (kv r')"
        "rq_messages Q (kv r') = rq_messages Q (kv r)"
        "\<forall>j. res = Some (Inr j) \<longrightarrow> QueueMessageID j \<in> rq_leased Q (kv r')
           \<and> snd (message_of (QueueMessageID j)) = job_core j"
        "\<forall>e. res = Some (Inl e) \<longrightarrow> (\<exists>p \<in> set ps. pr_ctx p = Some e)"
        using Cons.IH [of r2] Cons.prems(2) r1 r2(2) by auto
      then show ?thesis using None r1(1) r2(1) True Q by auto
    next
      case False
      have w: "rq_waiting Q (kv r1) = butlast (rq_waiting Q (kv r1)) @ [last (rq_waiting Q (kv r1))]"
        using False by simp
      have k2: "kv r2 = (kv r1)(queueKey Q := list_value (butlast (rq_waiting Q (kv r1))))" using r2(2) False by simp
      obtain r3 j where r3: "rq_lease Q p (last (rq_waiting Q (kv r1))) r2 = (r3, Inr j)" "rq_inv Q (kv r3)"
        "rq_messages Q (kv r3) = rq_messages Q (kv r)" "QueueMessageID j \<in> rq_leased Q (kv r3)"
        "snd (message_of (QueueMessageID j)) = job_core j"
        using lease_up [OF Q r1(2) w k2, of p] Cons.prems(2) r1(3) by auto
      then show ?thesis using None r1(1) r2(1) False Q by (simp add: resp_slice_def resp_String_def)
    qed
  qed
qed simp

end

section \<open>No message is lost\<close>

datatype rq_op = QPush string job | QPop "pop_round list" | QAck job

fun rq_step :: "'r redis_queue \<Rightarrow> rq_op \<Rightarrow> 'r \<Rightarrow> 'r" where
  "rq_step Q (QPush uuid j) r = fst (rq_Push Q uuid j r)"
| "rq_step Q (QPop ps) r = fst (rq_Pop Q ps r)"
| "rq_step Q (QAck j) r = fst (rq_Ack Q j r)"

text \<open>
  A push of a new job with a fresh message id, a pop whose clocks show four-digit years, any
  acknowledgement.
\<close>

fun rq_op_ok :: "'r redis_queue \<Rightarrow> keyspace \<Rightarrow> rq_op \<Rightarrow> bool" where
  "rq_op_ok Q d (QPush uuid j) =
     (QueueMessageID j = [] \<and> job_text_ok (j\<lparr>QueueMessageID := uuid\<rparr>) \<and> uuid \<noteq> []
      \<and> uuid \<notin> fst ` rq_messages Q d)"
| "rq_op_ok Q d (QPop ps) =
     (\<forall>p \<in> set ps. four_digit_year (pr_now p) \<and> four_digit_year (pr_lease p + visibilityTimeout Q))"
| "rq_op_ok Q d (QAck j) = True"

text \<open>The messages an operation is to leave.\<close>

fun rq_expected :: "'r redis_queue \<Rightarrow> keyspace \<Rightarrow> rq_op \<Rightarrow> 'r \<Rightarrow> (string \<times> job) set" where
  "rq_expected Q d (QPush uuid j) r =
     (if snd (rq_Push Q uuid j r) = None then insert (uuid, job_core j) (rq_messages Q d) else rq_messages Q d)"
| "rq_expected Q d (QPop ps) r = rq_messages Q d"
| "rq_expected Q d (QAck j) r =
     (if QueueMessageID j \<in> rq_leased Q d then rq_messages Q d - {message_of (QueueMessageID j)}
      else rq_messages Q d)"

context redis_up
begin

lemma enqueue_up:
  assumes Q: "rq_cmd Q = cmd" and inv: "rq_inv Q (kv r)" and j: "rq_op_ok Q (kv r) (QPush uuid j)"
  shows "\<exists>r'. rq_enqueue Q uuid j r = (r', None) \<and> rq_inv Q (kv r')
     \<and> rq_messages Q (kv r') = insert (uuid, job_core j) (rq_messages Q (kv r))"
proof -
  have t: "rq_typed Q (kv r)" using inv by (simp add: rq_inv_def)
  let ?j = "j\<lparr>QueueMessageID := uuid, LeaseUntil := 0\<rparr>"
  have wm: "(with_message_id uuid j)\<lparr>LeaseUntil := 0\<rparr> = ?j" using j by (simp add: with_message_id_def)
  obtain s where s: "encode_job ?j = Inr s" using encode_ok [of ?j] by auto
  have p: "payload_ok s" "message_of s = (uuid, job_core j)"
    using encoded_payload [OF _ _ s] j by auto
  obtain r' v where r': "cmd [''LPUSH'', queueKey Q, s] r = (r', Inr v)"
    "kv r' = (kv r)(queueKey Q := list_value (s # rq_waiting Q (kv r)))"
    using run_lpush [OF rq_views(1) [OF t]] by blast
  have v: "rq_typed Q (kv r')" "rq_waiting Q (kv r') = s # rq_waiting Q (kv r)"
    "rq_leased Q (kv r') = rq_leased Q (kv r)"
    using rq_view_updates [OF t] r'(2) by simp_all
  have new: "uuid \<notin> (fst \<circ> message_of) ` set (rq_waiting Q (kv r))"
    "uuid \<notin> (fst \<circ> message_of) ` rq_leased Q (kv r)"
    using j by (auto simp: rq_messages_def)
  then have "rq_inv Q (kv r')" using inv p v unfolding rq_inv_def by (auto simp: image_iff)
  moreover have "rq_messages Q (kv r') = insert (uuid, job_core j) (rq_messages Q (kv r))"
    using v p by (simp add: rq_messages_def)
  ultimately show ?thesis using r'(1) s Q wm by (simp add: rq_enqueue_def)
qed

lemma push_up:
  assumes Q: "rq_cmd Q = cmd" and inv: "rq_inv Q (kv r)" and j: "rq_op_ok Q (kv r) (QPush uuid j)"
  shows "rq_inv Q (kv (fst (rq_Push Q uuid j r)))"
    "rq_messages Q (kv (fst (rq_Push Q uuid j r))) = rq_expected Q (kv r) (QPush uuid j) r"
proof -
  have t: "rq_typed Q (kv r)" using inv by (simp add: rq_inv_def)
  obtain r1 n where r1: "rq_Len Q r = (r1, Inr n)" "kv r1 = kv r" using len_up [OF Q t] by blast
  obtain r2 where r2: "rq_enqueue Q uuid j r1 = (r2, None)" "rq_inv Q (kv r2)"
    "rq_messages Q (kv r2) = insert (uuid, job_core j) (rq_messages Q (kv r))"
    using enqueue_up [OF Q, of r1 uuid j] inv j r1(2) by auto
  obtain r3 where r3: "rq_enqueue Q uuid j r = (r3, None)" "rq_inv Q (kv r3)"
    "rq_messages Q (kv r3) = insert (uuid, job_core j) (rq_messages Q (kv r))"
    using enqueue_up [OF Q inv j] by blast
  show "rq_inv Q (kv (fst (rq_Push Q uuid j r)))"
    "rq_messages Q (kv (fst (rq_Push Q uuid j r))) = rq_expected Q (kv r) (QPush uuid j) r"
    using r1 r2 r3 inv by (simp_all add: rq_Push_def)
qed

lemma ack_up:
  assumes Q: "rq_cmd Q = cmd" and inv: "rq_inv Q (kv r)"
  shows "rq_inv Q (kv (fst (rq_Ack Q j r)))"
    "rq_messages Q (kv (fst (rq_Ack Q j r))) = rq_expected Q (kv r) (QAck j) r"
proof -
  let ?m = "QueueMessageID j"
  have t: "rq_typed Q (kv r)" using inv by (simp add: rq_inv_def)
  have ok: "\<forall>s \<in> set (rq_waiting Q (kv r)) \<union> rq_leased Q (kv r). payload_ok s" using inv by (simp add: rq_inv_def)
  have "rq_inv Q (kv (fst (rq_Ack Q j r)))
    \<and> rq_messages Q (kv (fst (rq_Ack Q j r))) = rq_expected Q (kv r) (QAck j) r"
  proof (cases "?m = []")
    case True
    have "decode_job [] = None" by (simp add: decode_job_def json_unmarshal_def json_decode_def Let_def skip_ws_def)
    then have "\<not> payload_ok []" by (simp add: payload_ok_def)
    then have "[] \<notin> rq_leased Q (kv r)" using ok by blast
    then show ?thesis using True inv by (simp add: rq_Ack_def)
  next
    case False
    obtain z where z: "as_zset (kv r (processingKey Q)) = Some z" "dom z = rq_leased Q (kv r)"
      using rq_views(2) [OF t] by blast
    obtain r' v where r': "cmd [''ZREM'', processingKey Q, ?m] r = (r', Inr v)"
      "kv r' = (kv r)(processingKey Q := zset_value (z(?m := None)))"
      using run_zrem [OF z(1)] by blast
    have v: "rq_typed Q (kv r')" "rq_waiting Q (kv r') = rq_waiting Q (kv r)"
      "rq_leased Q (kv r') = rq_leased Q (kv r) - {?m}"
      using rq_view_updates [OF t] r'(2) z(2) by auto
    have inj: "inj_on (fst \<circ> message_of) (rq_leased Q (kv r) - {?m})"
      using inv unfolding rq_inv_def by (meson Diff_subset inj_on_subset)
    have "rq_inv Q (kv r')" using inv inj v unfolding rq_inv_def by (auto simp: image_iff)
    moreover have "rq_messages Q (kv r') = rq_expected Q (kv r) (QAck j) r"
    proof (cases "?m \<in> rq_leased Q (kv r)")
      case True
      have w: "(fst \<circ> message_of) ` set (rq_waiting Q (kv r)) \<inter> (fst \<circ> message_of) ` rq_leased Q (kv r) = {}"
        and i: "inj_on (fst \<circ> message_of) (rq_leased Q (kv r))" using inv by (simp_all add: rq_inv_def)
      have "message_of s \<noteq> message_of ?m" if "s \<in> set (rq_waiting Q (kv r))" for s
      proof
        assume "message_of s = message_of ?m"
        then have "(fst \<circ> message_of) s = (fst \<circ> message_of) ?m" by simp
        then show False using w that True by (metis disjoint_iff imageI)
      qed
      moreover have "message_of s \<noteq> message_of ?m" if "s \<in> rq_leased Q (kv r)" "s \<noteq> ?m" for s
        using inj_onD [OF i, of s ?m] that True by auto
      ultimately have "message_of ?m \<notin> message_of ` (set (rq_waiting Q (kv r)) \<union> (rq_leased Q (kv r) - {?m}))"
        by fastforce
      moreover have "rq_messages Q (kv r') = message_of ` (set (rq_waiting Q (kv r)) \<union> (rq_leased Q (kv r) - {?m}))"
        "rq_messages Q (kv r) = insert (message_of ?m)
          (message_of ` (set (rq_waiting Q (kv r)) \<union> (rq_leased Q (kv r) - {?m})))"
        using True v(2,3) by (auto simp: rq_messages_def)
      ultimately show ?thesis using True by simp
    next
      case False
      then show ?thesis using v by (simp add: rq_messages_def)
    qed
    ultimately show ?thesis using r'(1) Q False by (simp add: rq_Ack_def)
  qed
  then show "rq_inv Q (kv (fst (rq_Ack Q j r)))"
    "rq_messages Q (kv (fst (rq_Ack Q j r))) = rq_expected Q (kv r) (QAck j) r" by blast+
qed

end

text \<open>C17: On a Redis server that answers, the queue neither loses nor invents a job. Every operation keeps
  each payload a readable job and each message id unique; a push that succeeds adds its job, a pop
  (with the requeueing of expired leases it does first) only moves jobs between waiting and
  leased, and an acknowledgement removes exactly the job whose lease it names. A job that \<open>Pop\<close>
  returns is the leased one.\<close>

theorem redis_queue_keeps_jobs:
  assumes up: "redis_up cmd kv" and Q: "rq_cmd Q = cmd" and inv: "rq_inv Q (kv r)"
    and ok: "rq_op_ok Q (kv r) op"
  shows "rq_inv Q (kv (rq_step Q op r)) \<and> rq_messages Q (kv (rq_step Q op r)) = rq_expected Q (kv r) op r
    \<and> (\<forall>ps j. op = QPop ps \<longrightarrow> snd (rq_Pop Q ps r) = Some (Inr j) \<longrightarrow>
         QueueMessageID j \<in> rq_leased Q (kv (rq_step Q op r))
         \<and> snd (message_of (QueueMessageID j)) = job_core j)"
proof (cases op)
  case (QPush uuid j)
  then show ?thesis using redis_up.push_up [OF up Q inv, of uuid j] ok by simp
next
  case (QPop ps)
  then have "\<forall>p \<in> set ps. four_digit_year (pr_now p) \<and> four_digit_year (pr_lease p + visibilityTimeout Q)"
    using ok by simp
  from redis_up.pop_up [OF up Q inv this] obtain r' res where
    "rq_Pop Q ps r = (r', res)" "rq_inv Q (kv r')" "rq_messages Q (kv r') = rq_messages Q (kv r)"
    "\<forall>j. res = Some (Inr j) \<longrightarrow> QueueMessageID j \<in> rq_leased Q (kv r')
       \<and> snd (message_of (QueueMessageID j)) = job_core j"
    by blast
  then show ?thesis using QPop by simp
next
  case (QAck j)
  then show ?thesis using redis_up.ack_up [OF up Q inv] by simp
qed

section \<open>What goes wrong\<close>

text \<open>C36: Two workers that look for expired leases at the same time both put an expired job back: the
  answer of \<open>ZREM\<close>, which says whether the lease was still there, is not looked at. The job waits
  twice and will be rendered twice.\<close>

theorem redis_requeue_race_duplicates:
  assumes up: "redis_up cmd kv" and Q: "rq_cmd Q = cmd" and inv: "rq_inv Q (kv r)"
    and expired: "m \<in> rq_leased Q (kv r)"
  shows "\<exists>s. rq_waiting Q (kv (fst (requeue_items Q [RStr m] (fst (requeue_items Q [RStr m] r)))))
      = s # s # rq_waiting Q (kv r) \<and> message_of s = message_of m"
proof -
  have t: "rq_typed Q (kv r)" and "payload_ok m" using inv expired by (simp_all add: rq_inv_def)
  then obtain j where j: "decode_job m = Some j" "job_text_ok j" "QueueMessageID j \<noteq> []"
    by (auto simp: payload_ok_def)
  obtain s where s: "encode_job (j\<lparr>LeaseUntil := 0\<rparr>) = Inr s" using encode_ok [of "j\<lparr>LeaseUntil := 0\<rparr>"] by auto
  have p: "message_of s = message_of m"
    using encoded_payload [OF _ _ s] j by (auto simp: message_of_def Let_def)
  have once: "rq_typed Q (kv (fst (requeue_items Q [RStr m] q)))
      \<and> rq_waiting Q (kv (fst (requeue_items Q [RStr m] q))) = s # rq_waiting Q (kv q)"
    if tq: "rq_typed Q (kv q)" for q
  proof -
    obtain z where z: "as_zset (kv q (processingKey Q)) = Some z" using rq_views(2) [OF tq] by blast
    obtain q1 v where q1: "cmd [''ZREM'', processingKey Q, m] q = (q1, Inr v)"
      "kv q1 = (kv q)(processingKey Q := zset_value (z(m := None)))"
      using redis_up.run_zrem [OF up z] by blast
    have v1: "rq_typed Q (kv q1)" "rq_waiting Q (kv q1) = rq_waiting Q (kv q)"
      using rq_view_updates [OF tq] q1(2) by simp_all
    obtain q2 w where q2: "cmd [''LPUSH'', queueKey Q, s] q1 = (q2, Inr w)"
      "kv q2 = (kv q1)(queueKey Q := list_value (s # rq_waiting Q (kv q)))"
      using redis_up.run_lpush [OF up rq_views(1) [OF v1(1)]] v1(2) by fastforce
    then show ?thesis using q1(1) j s Q rq_view_updates [OF v1(1)] by (simp add: resp_String_def)
  qed
  show ?thesis using once [OF t] once [of "fst (requeue_items Q [RStr m] r)"] p by auto
qed

text \<open>A queue on the executable server, with one job in it.\<close>

definition demo_rq :: "(string list \<Rightarrow> 'r \<Rightarrow> 'r \<times> resp result) \<Rightarrow> 'r redis_queue" where
  "demo_rq cmd = \<lparr>rq_cmd = cmd, queueKey = ''p:queue'', processingKey = ''p:processing'',
     rq_capacity = 10, visibilityTimeout = 300 * second\<rparr>"

definition demo_rq_job :: job where
  "demo_rq_job = zero_job\<lparr>ID := ''a'', job_URL := ''http://e''\<rparr>"

definition demo_round :: pop_round where
  "demo_round = \<lparr>pr_ctx = None, pr_now = 5, pr_lease = 6, pr_uuid = ''v''\<rparr>"

lemma demo_rq_empty:
  "rq_inv (demo_rq c) (redis_db [])" "rq_messages (demo_rq c) (redis_db []) = {}"
  by (simp_all add: rq_inv_def rq_typed_def rq_waiting_def rq_leased_def rq_messages_def redis_db_def demo_rq_def)

lemma utf8_demo: "utf8_valid ''a''" "utf8_valid ''http://e''" "utf8_valid ''u''"
  by (rule utf8_valid_ascii, simp)+

lemma demo_rq_push:
  "\<exists>r. rq_Push (demo_rq redis_exec) ''u'' demo_rq_job [] = (r, None) \<and> rq_inv (demo_rq redis_exec) (redis_db r)
     \<and> rq_messages (demo_rq redis_exec) (redis_db r) = {(''u'', demo_rq_job)}
     \<and> (\<exists>s. rq_waiting (demo_rq redis_exec) (redis_db r) = [s]) \<and> rq_leased (demo_rq redis_exec) (redis_db r) = {}"
proof -
  let ?Q = "demo_rq redis_exec"
  have Q: "rq_cmd ?Q = redis_exec" by (simp add: demo_rq_def)
  have ok: "rq_op_ok ?Q (redis_db []) (QPush ''u'' demo_rq_job)"
    using utf8_demo by (simp add: demo_rq_empty demo_rq_job_def zero_job_def job_text_ok_def)
  have core: "job_core demo_rq_job = demo_rq_job" by (simp add: job_core_def demo_rq_job_def zero_job_def)
  have len: "rq_Len ?Q [] = ([], Inr 0)" by code_simp
  obtain s where s: "encode_job (demo_rq_job\<lparr>QueueMessageID := ''u'', LeaseUntil := 0\<rparr>) = Inr s"
    using encode_ok [of "demo_rq_job\<lparr>QueueMessageID := ''u'', LeaseUntil := 0\<rparr>"] by auto
  have "rq_Push ?Q ''u'' demo_rq_job [] = ([(''p:queue'', CList [s])], None)"
    using len s by (simp add: rq_Push_def rq_enqueue_def with_message_id_def demo_rq_def demo_rq_job_def
        zero_job_def redis_exec_def exec_list_def store_list_def)
  moreover have "rq_waiting ?Q (redis_db [(''p:queue'', CList [s])]) = [s]"
    "rq_leased ?Q (redis_db [(''p:queue'', CList [s])]) = {}"
    by (simp_all add: rq_waiting_def rq_leased_def redis_db_def demo_rq_def)
  ultimately show ?thesis
    using rx.push_up [OF Q demo_rq_empty(1) ok] core by (simp add: demo_rq_empty)
qed

text \<open>A job in valid UTF-8 whose lease ends in a year of four digits can be written as JSON, and
  reading the text gives the same job: no field is lost or mangled on the way through the list
  and the sorted set.\<close>

theorem job_json_roundtrip:
  assumes "job_text_ok j" and "four_digit_year (LeaseUntil j)"
  shows "\<exists>s. encode_job j = Inr s \<and> decode_job s = Some j"
  using encode_ok [OF assms(2)] job_roundtrip [OF assms(1)] by blast

theorem job_json_roundtrip_witness:
  "\<exists>s. encode_job demo_rq_job = Inr s \<and> decode_job s = Some demo_rq_job"
  by (rule job_json_roundtrip) (use utf8_demo in \<open>simp_all add: demo_rq_job_def zero_job_def job_text_ok_def\<close>)

theorem redis_queue_keeps_jobs_witness:
  "\<exists>r. rq_messages (demo_rq redis_exec) (redis_db r) = {(''u'', demo_rq_job)}
     \<and> rq_messages (demo_rq redis_exec) (redis_db (rq_step (demo_rq redis_exec) (QPop [demo_round]) r))
        = {(''u'', demo_rq_job)}"
proof -
  let ?Q = "demo_rq redis_exec"
  have Q: "rq_cmd ?Q = redis_exec" by (simp add: demo_rq_def)
  obtain r where r: "rq_inv ?Q (redis_db r)" "rq_messages ?Q (redis_db r) = {(''u'', demo_rq_job)}"
    using demo_rq_push by blast
  have "four_digit_year 5" "four_digit_year (6 + 300 * second)" by code_simp+
  then have "rq_op_ok ?Q (redis_db r) (QPop [demo_round])" by (simp add: demo_round_def demo_rq_def)
  from redis_queue_keeps_jobs [OF rx.redis_up_axioms Q r(1) this] r(2)
  have "rq_messages ?Q (redis_db (rq_step ?Q (QPop [demo_round]) r)) = {(''u'', demo_rq_job)}" by simp
  then show ?thesis using r(2) by blast
qed

text \<open>\<open>Pop\<close> takes the job out of the list before it leases it: when the lease cannot be written and
  putting the payload back fails as well, the job is in neither place and lost, although it was
  accepted. (A process that stops between the two commands has the same effect.)\<close>

theorem redis_pop_can_lose_job:
  "\<exists>Q r r' e. redis (rq_cmd Q) flaky_db \<and> rq_inv Q (flaky_db r) \<and> rq_messages Q (flaky_db r) = {(''u'', demo_rq_job)}
     \<and> rq_Pop Q [demo_round] r = (r', Some (Inl e)) \<and> rq_messages Q (flaky_db r') = {}"
proof -
  let ?E = "demo_rq redis_exec" and ?Q = "demo_rq flaky"
  obtain d s where d: "rq_inv ?E (redis_db d)" "rq_messages ?E (redis_db d) = {(''u'', demo_rq_job)}"
    "rq_waiting ?E (redis_db d) = [s]" "rq_leased ?E (redis_db d) = {}"
    using demo_rq_push by blast
  have t: "rq_typed ?E (redis_db d)" using d(1) by (simp add: rq_inv_def)
  have same: "rq_inv ?Q = rq_inv ?E" "rq_messages ?Q = rq_messages ?E"
    by (simp_all add: fun_eq_iff rq_inv_def rq_typed_def rq_messages_def rq_waiting_def rq_leased_def demo_rq_def)
  have keys: "queueKey ?E = ''p:queue''" "processingKey ?E = ''p:processing''" by (simp_all add: demo_rq_def)
  let ?range = "[''ZRANGEBYSCORE'', ''p:processing'', ''-inf'', itoa (unix_seconds 5), ''LIMIT'', ''0'', ''25'']"
  obtain z where z: "as_zset (redis_db d ''p:processing'') = Some z" "dom z = {}"
    using rq_views(2) [OF t] d(4) keys by auto
  have "four_digit_year 5" by code_simp
  then obtain d1 ms where d1: "redis_exec ?range d = (d1, Inr (RArr (map RStr ms)))" "redis_db d1 = redis_db d"
    "set ms \<subseteq> dom z"
    using rx.run_zrange [OF z(1) four_digit_score] by blast
  have ms: "ms = []" using d1(3) z(2) by simp
  have w: "as_list (redis_db d1 ''p:queue'') = Some [s]" using rq_views(1) [OF t] d(3) d1(2) keys by simp
  obtain d2 where d2: "redis_exec [''BRPOP'', ''p:queue'', ''5''] d1 = (d2, Inr (RArr [RStr ''p:queue'', RStr s]))"
    "redis_db d2 = (redis_db d)(''p:queue'' := None)"
    using rx.run_brpop [OF w] d1(2) by (auto simp: list_value_def)
  have "payload_ok s" using d(1,3) by (simp add: rq_inv_def)
  then obtain j where j: "decode_job s = Some j" "QueueMessageID j \<noteq> []" by (auto simp: payload_ok_def)
  have "four_digit_year (6 + 300 * second)" by code_simp
  then obtain l where l: "encode_job (j\<lparr>LeaseUntil := 6 + 300 * second\<rparr>) = Inr l"
    using encode_ok [of "j\<lparr>LeaseUntil := 6 + 300 * second\<rparr>"] by auto
  let ?r = "([False, False, True, True], d)"
  have c: "rq_cmd ?Q = flaky" "queueKey ?Q = ''p:queue''" "pr_ctx demo_round = None" "pr_now demo_round = 5"
    by (simp_all add: demo_rq_def demo_round_def)
  have req: "requeueExpired ?Q 5 ?r = (([False, True, True], d1), None)"
    using d1(1) ms by (simp add: requeueExpired_def demo_rq_def flaky_def resp_slice_def)
  have pop: "flaky [''BRPOP'', ''p:queue'', ''5''] ([False, True, True], d1)
      = (([True, True], d2), Inr (RArr [RStr ''p:queue'', RStr s]))"
    using d2(1) by (simp add: flaky_def)
  have lease: "rq_lease ?Q demo_round s ([True, True], d2) = (([], d2), Inl (ErrNew ''connection reset''))"
    using j l by (simp add: rq_lease_def with_message_id_def demo_round_def demo_rq_def flaky_def Let_def)
  have "rq_Pop ?Q [demo_round] ?r = (([], d2), Some (Inl (ErrNew ''connection reset'')))"
    using req pop lease c by (simp add: resp_slice_def resp_String_def)
  moreover have "rq_messages ?Q (flaky_db ([], d2)) = {}"
    using z by (simp add: flaky_db_def rq_messages_def rq_waiting_def rq_leased_def demo_rq_def d2(2))
  moreover have "redis (rq_cmd ?Q) flaky_db" using fl.redis_axioms by (simp add: demo_rq_def)
  ultimately show ?thesis using d(1,2) same by (intro exI conjI) (auto simp: flaky_db_def)
qed

theorem redis_requeue_race_duplicates_witness:
  "\<exists>r m s. rq_leased (demo_rq redis_exec) (redis_db r) = {m}
     \<and> rq_waiting (demo_rq redis_exec) (redis_db (fst (requeue_items (demo_rq redis_exec) [RStr m]
          (fst (requeue_items (demo_rq redis_exec) [RStr m] r))))) = [s, s]"
proof -
  let ?Q = "demo_rq redis_exec"
  have Q: "rq_cmd ?Q = redis_exec" by (simp add: demo_rq_def)
  obtain d s where d: "rq_inv ?Q (redis_db d)" "rq_waiting ?Q (redis_db d) = [s]" "rq_leased ?Q (redis_db d) = {}"
    using demo_rq_push by blast
  have t: "rq_typed ?Q (redis_db d)" using d(1) by (simp add: rq_inv_def)
  let ?d0 = "gm_del ''p:queue'' d"
  have d0: "redis_db ?d0 = (redis_db d)(queueKey ?Q := list_value [])"
    by (simp add: demo_rq_def list_value_def)
  have "four_digit_year (pr_lease demo_round + visibilityTimeout ?Q)"
    by (simp add: demo_round_def demo_rq_def) code_simp
  then obtain r j where r: "rq_lease ?Q demo_round s ?d0 = (r, Inr j)" "rq_inv ?Q (redis_db r)"
    "QueueMessageID j \<in> rq_leased ?Q (redis_db r)"
    using rx.lease_up [OF Q d(1) _ d0] d(2) by force
  obtain j0 where j0: "decode_job s = Some j0" using d(1,2) by (auto simp: rq_inv_def payload_ok_def)
  obtain l v where l: "redis_exec [''ZADD'', ''p:processing'',
      itoa (unix_seconds (pr_lease demo_round + visibilityTimeout ?Q)), l] ?d0 = (r, Inr v)"
    using r(1) j0 by (auto simp: rq_lease_def Let_def demo_rq_def split: sum.splits prod.splits)
  obtain z where z: "as_zset (redis_db ?d0 ''p:processing'') = Some z" "dom z = {}"
    using rq_views(2) [OF t] d(3) d0 by (auto simp: demo_rq_def)
  have sc: "is_score (unix_seconds (pr_lease demo_round + visibilityTimeout ?Q))"
    by (simp add: demo_round_def demo_rq_def is_score_def unix_seconds_def)
  have kv: "redis_db r = (redis_db ?d0)(''p:processing'' := zset_value (z(l \<mapsto> unix_seconds (pr_lease demo_round + visibilityTimeout ?Q))))"
    using rx.zadd [OF z(1) sc l] by (simp add: answers_def)
  have leased: "rq_leased ?Q (redis_db r) = {l}" "rq_waiting ?Q (redis_db r) = []"
    using z(2) by (simp_all add: kv rq_leased_def rq_waiting_def demo_rq_def)
  show ?thesis
    using redis_requeue_race_duplicates [OF rx.redis_up_axioms Q r(2), of l] leased by auto
qed

end
