(* ===== verification/Redis_Shared.thy ===== *)
theory Redis_Shared
  imports Redis_Queue
begin

text \<open>
  One Redis server for the store and the queue, as \<open>main\<close> builds them with one key prefix. That
  the keys keep their types and owners needs only the laws of locale \<open>redis\<close>, in which any command
  may fail; the runs of the second part are on a server that answers (locale \<open>redis_up\<close>).
\<close>

section \<open>What the queue's commands keep\<close>

definition queue_closed :: "'r redis_queue \<Rightarrow> (keyspace \<Rightarrow> bool) \<Rightarrow> bool" where
  "queue_closed Q T \<longleftrightarrow> (\<forall>d. T d \<longrightarrow> rq_typed Q d
     \<and> (\<forall>xs. T (d(queueKey Q := list_value xs))) \<and> (\<forall>z. T (d(processingKey Q := zset_value z))))"

lemma queue_closedD:
  assumes "queue_closed Q T" "T d"
  shows "rq_typed Q d" "T (d(queueKey Q := list_value xs))" "T (d(processingKey Q := zset_value z))"
  using assms unfolding queue_closed_def by blast+

context redis
begin

lemma Tq_lpush:
  assumes C: "queue_closed Q T" and T: "T (kv r)"
  shows "T (kv (fst (cmd [''LPUSH'', queueKey Q, x] r)))"
proof -
  obtain q w where q: "cmd [''LPUSH'', queueKey Q, x] r = (q, w)" by (metis surj_pair)
  show ?thesis using T_step [where T = T, OF lpush [OF rq_views(1) [OF queue_closedD(1) [OF C T]] q] T]
      queue_closedD(2) [OF C T] q by simp
qed

lemma Tq_brpop:
  assumes C: "queue_closed Q T" and T: "T (kv r)"
  shows "T (kv (fst (cmd [''BRPOP'', queueKey Q, ''5''] r)))"
proof -
  obtain q w where q: "cmd [''BRPOP'', queueKey Q, ''5''] r = (q, w)" by (metis surj_pair)
  have "T (if rq_waiting Q (kv r) = [] then kv r
      else (kv r)(queueKey Q := list_value (butlast (rq_waiting Q (kv r)))))"
    using queue_closedD(2) [OF C T] T by (simp only: split: if_split) blast
  then show ?thesis
    using T_step [where T = T, OF brpop [OF rq_views(1) [OF queue_closedD(1) [OF C T]] q] T] q by simp
qed

lemma Tq_llen:
  assumes C: "queue_closed Q T" and T: "T (kv r)"
  shows "T (kv (fst (cmd [''LLEN'', queueKey Q] r)))"
proof -
  obtain q w where q: "cmd [''LLEN'', queueKey Q] r = (q, w)" by (metis surj_pair)
  show ?thesis using T_step [where T = T, OF llen [OF rq_views(1) [OF queue_closedD(1) [OF C T]] q] T] T q by simp
qed

lemma Tq_zset:
  assumes C: "queue_closed Q T" and T: "T (kv r)"
  shows "T (kv (fst (cmd [''ZREM'', processingKey Q, m] r)))"
    "T (kv (fst (cmd [''ZCARD'', processingKey Q] r)))"
    "is_score s \<Longrightarrow> T (kv (fst (cmd [''ZADD'', processingKey Q, itoa s, m] r)))"
    "is_score s \<Longrightarrow> T (kv (fst (cmd [''ZRANGEBYSCORE'', processingKey Q, ''-inf'', itoa s,
       ''LIMIT'', ''0'', ''25''] r)))"
proof -
  obtain z where z: "as_zset (kv r (processingKey Q)) = Some z"
    using rq_views(2) [OF queue_closedD(1) [OF C T]] by blast
  obtain q w where q: "cmd [''ZREM'', processingKey Q, m] r = (q, w)" by (metis surj_pair)
  show "T (kv (fst (cmd [''ZREM'', processingKey Q, m] r)))"
    using T_step [where T = T, OF zrem [OF z q] T] queue_closedD(3) [OF C T] q by simp
  obtain q w where q: "cmd [''ZCARD'', processingKey Q] r = (q, w)" by (metis surj_pair)
  show "T (kv (fst (cmd [''ZCARD'', processingKey Q] r)))"
    using T_step [where T = T, OF zcard [OF z q] T] T q by simp
  assume s: "is_score s"
  obtain q w where q: "cmd [''ZADD'', processingKey Q, itoa s, m] r = (q, w)" by (metis surj_pair)
  show "T (kv (fst (cmd [''ZADD'', processingKey Q, itoa s, m] r)))"
    using T_step [where T = T, OF zadd [OF z s q] T] queue_closedD(3) [OF C T] q by simp
  obtain q w where q: "cmd [''ZRANGEBYSCORE'', processingKey Q, ''-inf'', itoa s,
       ''LIMIT'', ''0'', ''25''] r = (q, w)" by (metis surj_pair)
  show "T (kv (fst (cmd [''ZRANGEBYSCORE'', processingKey Q, ''-inf'', itoa s,
       ''LIMIT'', ''0'', ''25''] r)))"
    using T_step [where T = T, OF zrange [OF z s q] T] T q by simp
qed

lemma Tq_enqueue:
  assumes C: "queue_closed Q T" and T: "T (kv r)" and Q: "rq_cmd Q = cmd"
  shows "T (kv (fst (rq_enqueue Q uuid j r)))"
  using Tq_lpush [OF C T] T Q by (auto simp: rq_enqueue_def split: sum.splits prod.splits) (metis fst_conv)+

lemma Tq_Len:
  assumes C: "queue_closed Q T" and T: "T (kv r)" and Q: "rq_cmd Q = cmd"
  shows "T (kv (fst (rq_Len Q r)))"
proof -
  obtain r1 w where r1: "cmd [''LLEN'', queueKey Q] r = (r1, w)" by (metis surj_pair)
  have t1: "T (kv r1)" using Tq_llen [OF C T] r1 by simp
  obtain r2 w2 where r2: "cmd [''ZCARD'', processingKey Q] r1 = (r2, w2)" by (metis surj_pair)
  have "T (kv r2)" using Tq_zset(2) [OF C t1] r2 by simp
  then show ?thesis using r1 r2 t1 Q by (simp add: rq_Len_def split: sum.split)
qed

lemma Tq_Push:
  assumes C: "queue_closed Q T" and T: "T (kv r)" and Q: "rq_cmd Q = cmd"
  shows "T (kv (fst (rq_Push Q uuid j r)))"
proof -
  obtain r1 w where r1: "rq_Len Q r = (r1, w)" by (metis surj_pair)
  have t1: "T (kv r1)" using Tq_Len [OF C T Q] r1 by simp
  show ?thesis using r1 t1 Tq_enqueue [OF C t1 Q] Tq_enqueue [OF C T Q]
    by (simp add: rq_Push_def split: sum.split)
qed

lemma Tq_requeue_items:
  assumes C: "queue_closed Q T" and Q: "rq_cmd Q = cmd"
  shows "T (kv r) \<Longrightarrow> T (kv (fst (requeue_items Q items r)))"
proof (induction items arbitrary: r)
  case (Cons item items)
  obtain r1 w where r1: "cmd [''ZREM'', processingKey Q, resp_String item] r = (r1, w)" by (metis surj_pair)
  have t1: "T (kv r1)" using Tq_zset(1) [OF C Cons.prems] r1 by (metis fst_conv)
  have push: "T (kv (fst (cmd [''LPUSH'', queueKey Q, x] r1)))" for x by (rule Tq_lpush [OF C t1])
  show ?case
  proof (cases "decode_job (resp_String item)")
    case None
    then show ?thesis using r1 Q Cons.IH [OF t1] by simp
  next
    case (Some job)
    show ?thesis
    proof (cases "encode_job (job\<lparr>LeaseUntil := 0\<rparr>)")
      case (Inl e)
      then show ?thesis using Some Cons.prems by simp
    next
      case (Inr data)
      obtain r2 w2 where r2: "cmd [''LPUSH'', queueKey Q, data] r1 = (r2, w2)" by (metis surj_pair)
      have "T (kv r2)" using push [of data] r2 by simp
      then show ?thesis using Some Inr r1 r2 Q t1 Cons.IH [of r2] by (simp split: sum.split)
    qed
  qed
qed simp

lemma Tq_requeue:
  assumes C: "queue_closed Q T" and T: "T (kv r)" and Q: "rq_cmd Q = cmd" and now: "four_digit_year now"
  shows "T (kv (fst (requeueExpired Q now r)))"
proof -
  obtain r1 w where r1: "cmd [''ZRANGEBYSCORE'', processingKey Q, ''-inf'', itoa (unix_seconds now),
      ''LIMIT'', ''0'', ''25''] r = (r1, w)" by (metis surj_pair)
  have t1: "T (kv r1)" using Tq_zset(4) [OF C T four_digit_score [OF now]] r1 by simp
  then show ?thesis using r1 Q Tq_requeue_items [OF C Q t1]
    by (simp add: requeueExpired_def split: sum.split)
qed

lemma Tq_lease:
  assumes C: "queue_closed Q T" and T: "T (kv r)" and Q: "rq_cmd Q = cmd"
  shows "T (kv (fst (rq_lease Q p payload r)))"
proof (cases "decode_job payload")
  case None
  then show ?thesis using T by (simp add: rq_lease_def)
next
  case (Some job)
  let ?j = "(with_message_id (pr_uuid p) job)\<lparr>LeaseUntil := pr_lease p + visibilityTimeout Q\<rparr>"
  show ?thesis
  proof (cases "encode_job ?j")
    case (Inl e)
    then show ?thesis using Some T by (simp add: rq_lease_def Let_def)
  next
    case (Inr leased)
    then have y: "four_digit_year (LeaseUntil ?j)" by (simp add: encode_job_def split: if_splits)
    obtain r1 w where r1: "cmd [''ZADD'', processingKey Q, itoa (unix_seconds (LeaseUntil ?j)), leased] r = (r1, w)"
      by (metis surj_pair)
    have t1: "T (kv r1)" using Tq_zset(3) [OF C T four_digit_score [OF y]] r1 by (metis fst_conv)
    have "T (kv (fst (cmd [''LPUSH'', queueKey Q, payload] r1)))" by (rule Tq_lpush [OF C t1])
    then show ?thesis using Some Inr r1 t1 Q by (simp add: rq_lease_def Let_def split: sum.split)
  qed
qed

lemma Tq_Pop:
  assumes C: "queue_closed Q T" and Q: "rq_cmd Q = cmd"
  shows "T (kv r) \<Longrightarrow> \<forall>p \<in> set ps. four_digit_year (pr_now p) \<Longrightarrow> T (kv (fst (rq_Pop Q ps r)))"
proof (induction ps arbitrary: r)
  case (Cons p ps)
  obtain r1 e1 where r1: "requeueExpired Q (pr_now p) r = (r1, e1)" by (metis surj_pair)
  have t1: "T (kv r1)" using Tq_requeue [OF C Cons.prems(1) Q, of "pr_now p"] Cons.prems(2) r1 by simp
  obtain r2 w where r2: "cmd [''BRPOP'', queueKey Q, ''5''] r1 = (r2, w)" by (metis surj_pair)
  have t2: "T (kv r2)" using Tq_brpop [OF C t1] r2 by simp
  have lease: "T (kv r3)" if "rq_lease Q p s r2 = (r3, res)" for s r3 res
    using Tq_lease [OF C t2 Q, of p s] that by simp
  show ?case using r1 r2 t1 t2 Q Cons.prems Cons.IH [OF t2] lease
    by (simp split: option.split sum.split prod.split)
qed simp

lemma Tq_Ack:
  assumes C: "queue_closed Q T" and T: "T (kv r)" and Q: "rq_cmd Q = cmd"
  shows "T (kv (fst (rq_Ack Q j r)))"
proof -
  obtain r1 w where r1: "cmd [''ZREM'', processingKey Q, QueueMessageID j] r = (r1, w)" by (metis surj_pair)
  have "T (kv r1)" using Tq_zset(1) [OF C T] r1 by (metis fst_conv)
  then show ?thesis using r1 T Q by (simp add: rq_Ack_def split: sum.split)
qed

end

section \<open>Store and queue on one server\<close>

datatype shared_op = StoreStep store_op | QueueStep rq_op

fun shared_step :: "'r redis_storage \<Rightarrow> 'r redis_queue \<Rightarrow> shared_op \<Rightarrow> 'r \<Rightarrow> 'r" where
  "shared_step S Q (StoreStep op) r = rs_op S op r"
| "shared_step S Q (QueueStep op) r = rq_step Q op r"

definition same_prefix :: "'r redis_storage \<Rightarrow> 'r redis_queue \<Rightarrow> bool" where
  "same_prefix S Q \<longleftrightarrow> queueKey Q = rs_prefix S @ '':queue'' \<and> processingKey Q = rs_prefix S @ '':processing''"

fun clock_ok :: "shared_op \<Rightarrow> bool" where
  "clock_ok (QueueStep (QPop ps)) = (\<forall>p \<in> set ps. four_digit_year (pr_now p))"
| "clock_ok _ = True"

lemma key_apart:
  assumes "same_prefix S Q"
  shows "queueKey Q \<noteq> processingKey Q"
    "queueKey Q \<noteq> job_key (rs_prefix S) i" "queueKey Q \<noteq> order_key (rs_prefix S)" "queueKey Q \<noteq> idem_key (rs_prefix S) i"
    "processingKey Q \<noteq> job_key (rs_prefix S) i" "processingKey Q \<noteq> order_key (rs_prefix S)"
    "processingKey Q \<noteq> idem_key (rs_prefix S) i"
  using assms by (simp_all add: same_prefix_def job_key_def order_key_def idem_key_def)

text \<open>What the store sees of a keyspace, and what the queue sees.\<close>

definition store_part :: "string \<Rightarrow> keyspace \<Rightarrow> (string \<Rightarrow> job_result option) \<times> string list \<times> (string \<Rightarrow> string option)" where
  "store_part p d = (rs_view p d, rs_ids p d, rs_keys p d)"

definition queue_part :: "'r redis_queue \<Rightarrow> keyspace \<Rightarrow> string list \<times> string set" where
  "queue_part Q d = (rq_waiting Q d, rq_leased Q d)"

definition typed_keys :: "'r redis_storage \<Rightarrow> 'r redis_queue \<Rightarrow> keyspace \<Rightarrow> bool" where
  "typed_keys S Q d \<longleftrightarrow> rs_typed (rs_prefix S) d \<and> rq_typed Q d"

lemma other_key [simp]:
  assumes "\<And>i. k \<noteq> job_key p i" "k \<noteq> order_key p" "\<And>i. k \<noteq> idem_key p i"
  shows "rs_typed p (d(k := v)) = rs_typed p d" "store_part p (d(k := v)) = store_part p d"
proof -
  have "(d(k := v)) (job_key p i) = d (job_key p i)" "(d(k := v)) (idem_key p i) = d (idem_key p i)"
    "(d(k := v)) (order_key p) = d (order_key p)" for i
    using assms(1) [of i] assms(2) assms(3) [of i] by simp_all
  then show "rs_typed p (d(k := v)) = rs_typed p d" "store_part p (d(k := v)) = store_part p d"
    by (simp_all add: rs_typed_def store_part_def rs_view_def rs_ids_def rs_keys_def fun_eq_iff del: fun_upd_apply)
qed

lemma other_queue_key [simp]:
  assumes "k \<noteq> queueKey Q" "k \<noteq> processingKey Q"
  shows "rq_typed Q (d(k := v)) = rq_typed Q d" "queue_part Q (d(k := v)) = queue_part Q d"
  using assms by (simp_all add: rq_typed_def queue_part_def rq_waiting_def rq_leased_def)

lemma shared_store_closed:
  assumes "same_prefix S Q"
  shows "store_closed (rs_prefix S) (\<lambda>d. typed_keys S Q d \<and> queue_part Q d = W)"
proof -
  note K = key_apart [OF assms]
  show ?thesis unfolding store_closed_def
    by (simp add: typed_keys_def K(2-) [THEN not_sym])
qed

lemma shared_queue_closed:
  assumes "same_prefix S Q"
  shows "queue_closed Q (\<lambda>d. typed_keys S Q d \<and> store_part (rs_prefix S) d = V)"
proof -
  note K = key_apart [OF assms]
  show ?thesis unfolding queue_closed_def
    by (simp add: typed_keys_def K rq_view_updates)
qed

text \<open>C31: With one server and one key prefix for both, as \<open>main\<close> sets them up, every key keeps the type
  its commands expect, and store and queue never touch each other's data: an operation of the
  store leaves the waiting and leased payloads alone, an operation of the queue leaves the
  records, the job order and the idempotency keys alone. No command need succeed for this; any
  of them may fail, before or after it took effect.\<close>

theorem redis_keys_keep_types:
  assumes server: "redis cmd kv" and S: "rs_cmd S = cmd" "quiet kv S" and Q: "rq_cmd Q = cmd"
    and prefix: "same_prefix S Q" and typed: "typed_keys S Q (kv r)" and op: "clock_ok op"
  shows "typed_keys S Q (kv (shared_step S Q op r))
    \<and> (case op of StoreStep _ \<Rightarrow> queue_part Q (kv (shared_step S Q op r)) = queue_part Q (kv r)
       | QueueStep _ \<Rightarrow> store_part (rs_prefix S) (kv (shared_step S Q op r)) = store_part (rs_prefix S) (kv r))"
proof (cases op)
  case (StoreStep s)
  then show ?thesis
    using redis.T_op [OF server shared_store_closed [OF prefix] _ S, of r "queue_part Q (kv r)" s] typed by simp
next
  case (QueueStep q)
  note C = shared_queue_closed [OF prefix, of "store_part (rs_prefix S) (kv r)"]
  have T: "typed_keys S Q (kv r) \<and> store_part (rs_prefix S) (kv r) = store_part (rs_prefix S) (kv r)"
    using typed by simp
  show ?thesis
  proof (cases q)
    case (QPush uuid j)
    then show ?thesis using redis.Tq_Push [OF server C T Q] QueueStep by simp
  next
    case (QPop ps)
    then show ?thesis using redis.Tq_Pop [OF server C Q T] QueueStep op by simp
  next
    case (QAck j)
    then show ?thesis using redis.Tq_Ack [OF server C T Q] QueueStep by simp
  qed
qed

theorem redis_keys_keep_types_witness:
  "typed_keys \<lparr>rs_cmd = flaky, rs_prefix = ''p'', rs_onSet = None\<rparr> (demo_rq flaky)
     (flaky_db (shared_step \<lparr>rs_cmd = flaky, rs_prefix = ''p'', rs_onSet = None\<rparr> (demo_rq flaky)
        (QueueStep (QPop [demo_round])) ([False, True], [])))"
proof -
  let ?S = "\<lparr>rs_cmd = flaky, rs_prefix = ''p'', rs_onSet = None\<rparr>" and ?Q = "demo_rq flaky"
  have q: "quiet flaky_db ?S" by (simp add: quiet_def changed_def)
  have p: "same_prefix ?S ?Q" by (simp add: same_prefix_def demo_rq_def)
  have t: "typed_keys ?S ?Q (flaky_db ([False, True], []))"
    by (simp add: typed_keys_def rs_typed_def rq_typed_def flaky_db_def redis_db_def demo_rq_def)
  have "four_digit_year 5" by code_simp
  then have c: "clock_ok (QueueStep (QPop [demo_round]))" by (simp add: demo_round_def)
  show ?thesis
    using redis_keys_keep_types [OF fl.redis_axioms _ q _ p t c] by (simp add: demo_rq_def)
qed

section \<open>Runs of both on one server\<close>

fun shared_ok :: "'r redis_queue \<Rightarrow> keyspace \<Rightarrow> shared_op \<Rightarrow> bool" where
  "shared_ok Q d (StoreStep op) = op_settable op"
| "shared_ok Q d (QueueStep op) = rq_op_ok Q d op"

definition shared_inv :: "'r redis_storage \<Rightarrow> 'r redis_queue \<Rightarrow> keyspace \<Rightarrow> bool" where
  "shared_inv S Q d \<longleftrightarrow> rs_inv (rs_prefix S) d \<and> rq_inv Q d"

text \<open>What an operation is to make of the records and keys, and of the messages.\<close>

fun store_after :: "shared_op \<Rightarrow> jobs_view \<times> keys_view \<Rightarrow> jobs_view \<times> keys_view" where
  "store_after (StoreStep op) a = spec_op op a"
| "store_after (QueueStep op) a = a"

fun messages_after :: "'r redis_queue \<Rightarrow> keyspace \<Rightarrow> shared_op \<Rightarrow> 'r \<Rightarrow> (string \<times> job) set" where
  "messages_after Q d (StoreStep op) r = rq_messages Q d"
| "messages_after Q d (QueueStep op) r = rq_expected Q d op r"

context redis_up
begin

lemma queue_step_up:
  assumes Q: "rq_cmd Q = cmd" and inv: "rq_inv Q (kv r)" and ok: "rq_op_ok Q (kv r) op"
  shows "rq_inv Q (kv (rq_step Q op r))" "rq_messages Q (kv (rq_step Q op r)) = rq_expected Q (kv r) op r"
proof -
  have "rq_inv Q (kv (rq_step Q op r)) \<and> rq_messages Q (kv (rq_step Q op r)) = rq_expected Q (kv r) op r"
  proof (cases op)
    case (QPush uuid j)
    then show ?thesis using push_up [OF Q inv, of uuid j] ok by simp
  next
    case (QPop ps)
    then show ?thesis using pop_up [OF Q inv, of ps] ok by fastforce
  next
    case (QAck j)
    then show ?thesis using ack_up [OF Q inv] by simp
  qed
  then show "rq_inv Q (kv (rq_step Q op r))" "rq_messages Q (kv (rq_step Q op r)) = rq_expected Q (kv r) op r"
    by blast+
qed

lemma queue_step_frame:
  assumes Q: "rq_cmd Q = cmd" and C: "queue_closed Q T" and T: "T (kv r)" and ok: "rq_op_ok Q (kv r) op"
  shows "T (kv (rq_step Q op r))"
  using Tq_Push [OF C T Q] Tq_Pop [OF C Q T] Tq_Ack [OF C T Q] ok by (cases op) simp_all

lemma shared_step_up:
  assumes S: "rs_cmd S = cmd" "quiet kv S" and Q: "rq_cmd Q = cmd" and prefix: "same_prefix S Q"
    and inv: "shared_inv S Q (kv r)" and ok: "shared_ok Q (kv r) op"
  shows "shared_inv S Q (kv (shared_step S Q op r))
    \<and> rs_abs (rs_prefix S) (kv (shared_step S Q op r)) = store_after op (rs_abs (rs_prefix S) (kv r))
    \<and> rq_messages Q (kv (shared_step S Q op r)) = messages_after Q (kv r) op r"
proof -
  have I: "rs_inv (rs_prefix S) (kv r)" "rq_inv Q (kv r)" using inv by (simp_all add: shared_inv_def)
  then have typed: "typed_keys S Q (kv r)" by (simp add: typed_keys_def rs_inv_def rq_inv_def)
  show ?thesis
  proof (cases op)
    case (StoreStep s)
    have "queue_part Q (kv (rs_op S s r)) = queue_part Q (kv r) \<and> rq_typed Q (kv (rs_op S s r))"
      using T_op [OF shared_store_closed [OF prefix] _ S, of r "queue_part Q (kv r)" s] typed
      by (simp add: typed_keys_def)
    then have "rq_inv Q (kv (rs_op S s r))" "rq_messages Q (kv (rs_op S s r)) = rq_messages Q (kv r)"
      using I(2) by (simp_all add: queue_part_def rq_inv_def rq_messages_def)
    then show ?thesis using op_up [OF S I(1), of s] ok StoreStep by (simp add: shared_inv_def)
  next
    case (QueueStep q)
    have "store_part (rs_prefix S) (kv (rq_step Q q r)) = store_part (rs_prefix S) (kv r)
        \<and> rs_typed (rs_prefix S) (kv (rq_step Q q r))"
      using queue_step_frame [OF Q shared_queue_closed [OF prefix, of "store_part (rs_prefix S) (kv r)"], of r q]
        typed ok QueueStep by (simp add: typed_keys_def)
    then have "rs_inv (rs_prefix S) (kv (rq_step Q q r))"
      "rs_abs (rs_prefix S) (kv (rq_step Q q r)) = rs_abs (rs_prefix S) (kv r)"
      using I(1) by (simp_all add: store_part_def rs_inv_def rs_abs_def)
    then show ?thesis using queue_step_up [OF Q I(2), of q] ok QueueStep by (simp add: shared_inv_def)
  qed
qed

end

text \<open>
  A run: each operation is one a caller may make in the state it meets. \<open>shared_messages\<close> follows the
  answers of the pushes and the leases the acknowledgements meet.
\<close>

definition shared_run :: "'r redis_storage \<Rightarrow> 'r redis_queue \<Rightarrow> shared_op list \<Rightarrow> 'r \<Rightarrow> 'r" where
  "shared_run S Q ops r = fold (shared_step S Q) ops r"

fun shared_run_ok ::
    "'r redis_storage \<Rightarrow> 'r redis_queue \<Rightarrow> ('r \<Rightarrow> keyspace) \<Rightarrow> shared_op list \<Rightarrow> 'r \<Rightarrow> bool" where
  "shared_run_ok S Q kv [] r = True"
| "shared_run_ok S Q kv (op # ops) r = (shared_ok Q (kv r) op \<and> shared_run_ok S Q kv ops (shared_step S Q op r))"

definition store_ops_of :: "shared_op list \<Rightarrow> store_op list" where
  "store_ops_of ops = List.map_filter (\<lambda>op. case op of StoreStep s \<Rightarrow> Some s | QueueStep q \<Rightarrow> None) ops"

lemma store_ops_of_simps [simp]:
  "store_ops_of [] = []" "store_ops_of (StoreStep s # ops) = s # store_ops_of ops"
  "store_ops_of (QueueStep q # ops) = store_ops_of ops"
  by (simp_all add: store_ops_of_def List.map_filter_simps)

lemma shared_run_simps [simp]:
  "shared_run S Q [] r = r" "shared_run S Q (op # ops) r = shared_run S Q ops (shared_step S Q op r)"
  by (simp_all add: shared_run_def)

lemma fold_store_after: "fold store_after ops a = fold spec_op (store_ops_of ops) a"
proof (induction ops arbitrary: a)
  case (Cons op ops)
  then show ?case by (cases op) simp_all
qed simp

context redis_up
begin

lemma shared_run_up:
  assumes S: "rs_cmd S = cmd" "quiet kv S" and Q: "rq_cmd Q = cmd" and prefix: "same_prefix S Q"
  shows "shared_inv S Q (kv r) \<Longrightarrow> shared_run_ok S Q kv ops r \<Longrightarrow>
    shared_inv S Q (kv (shared_run S Q ops r))
    \<and> rs_abs (rs_prefix S) (kv (shared_run S Q ops r)) = fold store_after ops (rs_abs (rs_prefix S) (kv r))"
proof (induction ops arbitrary: r)
  case (Cons op ops)
  then show ?case using shared_step_up [OF S Q prefix Cons.prems(1), of op] by simp
qed simp

lemma record_kept:
  assumes "rs_view (rs_prefix S) (kv r) i \<noteq> None" and "op \<noteq> StoreStep (DeleteOp i)"
    and "rs_abs p d = store_after op (rs_abs (rs_prefix S) (kv r))"
  shows "rs_view p d i \<noteq> None"
proof (cases op)
  case (StoreStep s)
  then show ?thesis using assms
    by (cases s) (auto simp: rs_abs_def spec_cancel_def split: option.splits if_splits prod.splits)
qed (use assms in \<open>simp add: rs_abs_def\<close>)

lemma message_kept:
  assumes "m \<in> rq_messages Q d" and "\<forall>j. op = QueueStep (QAck j) \<longrightarrow> message_of (QueueMessageID j) \<noteq> m"
  shows "m \<in> messages_after Q d op r"
proof (cases op)
  case (QueueStep q)
  then show ?thesis using assms by (cases q) (auto split: if_splits)
qed (use assms in simp)

lemma shared_run_keeps:
  assumes S: "rs_cmd S = cmd" "quiet kv S" and Q: "rq_cmd Q = cmd" and prefix: "same_prefix S Q"
  shows "shared_inv S Q (kv r) \<Longrightarrow> shared_run_ok S Q kv ops r \<Longrightarrow>
    rs_view (rs_prefix S) (kv r) i \<noteq> None \<Longrightarrow> m \<in> rq_messages Q (kv r) \<Longrightarrow>
    StoreStep (DeleteOp i) \<notin> set ops \<Longrightarrow>
    \<forall>j. QueueStep (QAck j) \<in> set ops \<longrightarrow> message_of (QueueMessageID j) \<noteq> m \<Longrightarrow>
    rs_view (rs_prefix S) (kv (shared_run S Q ops r)) i \<noteq> None \<and> m \<in> rq_messages Q (kv (shared_run S Q ops r))"
proof (induction ops arbitrary: r)
  case (Cons op ops)
  have ok: "shared_ok Q (kv r) op" using Cons.prems(2) by simp
  note step = shared_step_up [OF S Q prefix Cons.prems(1) ok]
  have "rs_view (rs_prefix S) (kv (shared_step S Q op r)) i \<noteq> None"
    by (rule record_kept [OF Cons.prems(3), of op]) (use Cons.prems(5) step in auto)
  moreover have "m \<in> rq_messages Q (kv (shared_step S Q op r))"
    using message_kept [OF Cons.prems(4), of op r] Cons.prems(6) step by auto
  ultimately show ?case using Cons.IH [of "shared_step S Q op r"] Cons.prems step by simp
qed simp

end

lemma unused_queue:
  assumes "unused (rs_prefix S) d" and "same_prefix S Q"
  shows "rq_inv Q d" "rq_messages Q d = {}"
proof -
  have "d (queueKey Q) = None" "d (processingKey Q) = None" "queueKey Q \<noteq> processingKey Q"
    using assms by (simp_all add: unused_def same_prefix_def)
  then show "rq_inv Q d" "rq_messages Q d = {}"
    by (simp_all add: rq_inv_def rq_typed_def rq_waiting_def rq_leased_def rq_messages_def)
qed

text \<open>C16: The two metadata stores are interchangeable, also beside the queue: on one Redis server that
  answers, after any interleaving of store and queue operations in a namespace not used before,
  \<open>Get\<close> of any job answers what the in-memory store answers after the store operations alone, and
  the reserved idempotency keys are the same. (Records without PDF bytes of their own, times with
  four-digit years.)\<close>

theorem redis_shared_agrees:
  assumes up: "redis_up cmd kv" and S: "rs_cmd S = cmd" "quiet kv S" and Q: "rq_cmd Q = cmd"
    and prefix: "same_prefix S Q" and fresh: "unused (rs_prefix S) (kv r)" and ok: "shared_run_ok S Q kv ops r"
  shows "snd (rs_Get S i (shared_run S Q ops r)) = snd (mem_Get i (mem_run (store_ops_of ops) NewMemoryStorage))
    \<and> rs_keys (rs_prefix S) (kv (shared_run S Q ops r)) = ms_keys (mem_run (store_ops_of ops) NewMemoryStorage)"
proof -
  have inv: "shared_inv S Q (kv r)"
    using unused_empty(1) [OF fresh] unused_queue(1) [OF fresh prefix] by (simp add: shared_inv_def)
  note run = redis_up.shared_run_up [OF up S Q prefix inv ok]
  then have "rs_abs (rs_prefix S) (kv (shared_run S Q ops r)) = fold spec_op (store_ops_of ops) (Map.empty, Map.empty)"
    by (simp add: fold_store_after unused_empty(2) [OF fresh])
  then show ?thesis using agree_with_memory [OF up S(1)] run by (simp add: shared_inv_def)
qed

text \<open>C18: On one Redis server that answers, a job with a record and a message survives any interleaving of
  store and queue operations, of any number of handlers and workers and with expired leases: as
  long as nobody deletes the record it is there, as long as nobody acknowledges the message it is
  waiting or leased, and the store and the queue stay well formed throughout.\<close>

theorem redis_accepted_job_not_lost:
  assumes up: "redis_up cmd kv" and S: "rs_cmd S = cmd" "quiet kv S" and Q: "rq_cmd Q = cmd"
    and prefix: "same_prefix S Q" and inv: "shared_inv S Q (kv r)" and ok: "shared_run_ok S Q kv ops r"
    and stored: "rs_view (rs_prefix S) (kv r) i \<noteq> None" "m \<in> rq_messages Q (kv r)"
    and kept: "StoreStep (DeleteOp i) \<notin> set ops"
      "\<forall>j. QueueStep (QAck j) \<in> set ops \<longrightarrow> message_of (QueueMessageID j) \<noteq> m"
  shows "rs_view (rs_prefix S) (kv (shared_run S Q ops r)) i \<noteq> None
    \<and> m \<in> rq_messages Q (kv (shared_run S Q ops r)) \<and> shared_inv S Q (kv (shared_run S Q ops r))"
  using redis_up.shared_run_keeps [OF up S Q prefix inv ok stored kept]
    redis_up.shared_run_up [OF up S Q prefix inv ok] by blast

definition demo_shared :: "shared_op list" where
  "demo_shared =
     [QueueStep (QPush ''u'' demo_rq_job), StoreStep (ReserveOp ''k'' ''a''),
      StoreStep (SetOp 5 ''a'' (zero_result\<lparr>URL := ''http://e'', Status := StatusPending, IdempotencyKey := ''k''\<rparr>)),
      StoreStep (CancelOp 9 ''a''), QueueStep (QPop [demo_round])]"

lemma demo_shared_ok:
  "redis_up redis_exec redis_db" "rs_cmd demo_rs = redis_exec" "rq_cmd (demo_rq redis_exec) = redis_exec"
  "same_prefix demo_rs (demo_rq redis_exec)"
  "shared_run_ok demo_rs (demo_rq redis_exec) redis_db demo_shared []"
proof -
  show "redis_up redis_exec redis_db" by (rule rx.redis_up_axioms)
  show "rs_cmd demo_rs = redis_exec" "rq_cmd (demo_rq redis_exec) = redis_exec"
    "same_prefix demo_rs (demo_rq redis_exec)"
    by (simp_all add: demo_rs_def demo_rq_def same_prefix_def)
  have y: "four_digit_year 5" "four_digit_year 9" "four_digit_year 0" "four_digit_year (6 + 300 * second)"
    by code_simp+
  have "rq_op_ok (demo_rq redis_exec) (redis_db []) (QPush ''u'' demo_rq_job)"
    using utf8_demo by (simp add: demo_rq_empty demo_rq_job_def zero_job_def job_text_ok_def)
  moreover have "rq_op_ok (demo_rq redis_exec) d (QPop [demo_round])" for d
    using y by (simp add: demo_round_def demo_rq_def)
  ultimately show "shared_run_ok demo_rs (demo_rq redis_exec) redis_db demo_shared []"
    unfolding demo_shared_def
    by (simp add: settable_def zero_result_def y is_int64_def del: rq_op_ok.simps)
qed

theorem redis_shared_agrees_witness:
  "map_option Status (case snd (rs_Get demo_rs ''a'' (shared_run demo_rs (demo_rq redis_exec) demo_shared [])) of
      Inl _ \<Rightarrow> None | Inr x \<Rightarrow> Some x) = Some StatusCanceled"
proof -
  have "map_option Status (case snd (mem_Get ''a'' (mem_run (store_ops_of demo_shared) NewMemoryStorage)) of
      Inl _ \<Rightarrow> None | Inr x \<Rightarrow> Some x) = Some StatusCanceled" by code_simp
  then show ?thesis
    using redis_shared_agrees [OF demo_shared_ok(1,2) demo_rs_ok(2) demo_shared_ok(3,4) demo_rs_ok(3)
        demo_shared_ok(5), of "''a''"] by simp
qed

theorem redis_accepted_job_not_lost_witness:
  "\<exists>r. rs_view ''p'' (redis_db (shared_run demo_rs (demo_rq redis_exec) (drop 3 demo_shared) r)) ''a'' \<noteq> None
     \<and> (''u'', demo_rq_job) \<in> rq_messages (demo_rq redis_exec)
          (redis_db (shared_run demo_rs (demo_rq redis_exec) (drop 3 demo_shared) r))"
proof -
  let ?Q = "demo_rq redis_exec"
  let ?r1 = "shared_step demo_rs ?Q (QueueStep (QPush ''u'' demo_rq_job)) []"
  let ?set = "StoreStep (SetOp 5 ''a'' (zero_result\<lparr>URL := ''http://e'', Status := StatusPending, IdempotencyKey := ''k''\<rparr>))"
  let ?r2 = "shared_step demo_rs ?Q ?set ?r1"
  have p: "rs_prefix demo_rs = ''p''" by (simp add: demo_rs_def)
  have ok: "shared_ok ?Q (redis_db []) (QueueStep (QPush ''u'' demo_rq_job))" "shared_ok ?Q d ?set"
    "shared_run_ok demo_rs ?Q redis_db (drop 3 demo_shared) r" for d r
    using demo_shared_ok(5) by (simp_all add: demo_shared_def)
  note up = redis_up.shared_step_up [OF demo_shared_ok(1,2) demo_rs_ok(2) demo_shared_ok(3,4)]
  have inv: "shared_inv demo_rs ?Q (redis_db [])"
    using unused_empty(1) [OF demo_rs_ok(3)] by (simp add: shared_inv_def demo_rq_empty)
  note s1 = up [OF inv ok(1)]
  have m1: "rq_messages ?Q (redis_db ?r1) = {(''u'', demo_rq_job)}" using demo_rq_push by auto
  note s2 = up [OF conjunct1 [OF s1] ok(2)]
  have v: "rs_view (rs_prefix demo_rs) (redis_db ?r2) ''a'' \<noteq> None"
    using s2 by (simp add: rs_abs_def del: shared_step.simps)
  have m2: "(''u'', demo_rq_job) \<in> rq_messages ?Q (redis_db ?r2)"
    using s2 m1 by (simp del: shared_step.simps)
  show ?thesis
    using redis_accepted_job_not_lost [OF demo_shared_ok(1,2) demo_rs_ok(2) demo_shared_ok(3,4)
        conjunct1 [OF s2] ok(3) v m2] p
    by (intro exI [of _ ?r2]) (simp add: demo_shared_def del: shared_step.simps shared_run_simps)
qed

end
