(* ===== verification/Hub.thy ===== *)
theory Hub
  imports Go_Strings Go_Crypto Queue_Types "HOL-Library.Sublist"
begin

text \<open>
  The WebSocket hub of the dashboard (\<open>internal/realtime/hub.go\<close>): the opening handshake, the
  framing of text messages, and the hub itself, whose goroutines (one \<open>ServeJobs\<close> per client, and
  whoever calls \<open>BroadcastJobs\<close>) interleave through 8-slot channels.
\<close>

section \<open>The opening handshake\<close>

definition websocketGUID :: string where
  "websocketGUID = ''258EAFA5-E914-47DA-95CA-C5AB0DC85B11''"

definition websocketAcceptKey :: "string \<Rightarrow> string" where
  "websocketAcceptKey key = base64 (sha1 (string_bytes (key @ websocketGUID)))"

definition headerContains :: "string \<Rightarrow> string \<Rightarrow> bool" where
  "headerContains header value =
     list_ex (\<lambda>part. equal_fold (trim_space part) value) (split_on CHR '','' header)"

record ws_request =
  h_Upgrade :: string
  h_Connection :: string
  h_Key :: string

text \<open>
  What the response writer does: \<open>ws_hijack\<close> is \<open>None\<close> when it is no \<open>http.Hijacker\<close>; writing to
  and flushing the hijacked connection may fail.
\<close>

record ws_writer =
  ws_hijack :: "unit result option"
  ws_write :: "go_error option"
  ws_flush :: "go_error option"

definition crlf_text :: string where
  "crlf_text = [CHR 0x0D, CHR 0x0A]"

definition switching_protocols :: "string \<Rightarrow> string" where
  "switching_protocols acceptKey =
     ''HTTP/1.1 101 Switching Protocols'' @ crlf_text @ ''Upgrade: websocket'' @ crlf_text
     @ ''Connection: Upgrade'' @ crlf_text @ ''Sec-WebSocket-Accept: '' @ acceptKey @ crlf_text @ crlf_text"

definition accept :: "ws_writer \<Rightarrow> ws_request \<Rightarrow> string result" where
  "accept w r =
     (if \<not> equal_fold (h_Upgrade r) ''websocket''
      then Inl (ErrNew ''missing websocket upgrade header'')
      else if \<not> headerContains (h_Connection r) ''upgrade''
      then Inl (ErrNew ''missing websocket connection header'')
      else if h_Key r = '''' then Inl (ErrNew ''missing websocket key'')
      else (case ws_hijack w of
              None \<Rightarrow> Inl (ErrNew ''websocket hijacking is not supported'')
            | Some (Inl e) \<Rightarrow> Inl e
            | Some (Inr _) \<Rightarrow>
                (case ws_write w of
                   Some e \<Rightarrow> Inl e
                 | None \<Rightarrow>
                     (case ws_flush w of
                        Some e \<Rightarrow> Inl e
                      | None \<Rightarrow> Inr (switching_protocols (websocketAcceptKey (h_Key r)))))))"

section \<open>Frames\<close>

text \<open>The bytes \<open>writeTextFrame\<close> writes for a payload.\<close>

definition frame_header :: "nat \<Rightarrow> bytes" where
  "frame_header n =
     (if n \<le> 125 then [0x81, word_of_nat n]
      else if n \<le> 65535 then [0x81, 126] @ be_bytes 2 n
      else [0x81, 127] @ be_bytes 8 n)"

definition text_frame :: "bytes \<Rightarrow> bytes" where
  "text_frame payload = frame_header (length payload) @ payload"

text \<open>Three operations of the writer, each of which may fail: header, payload, flush.\<close>

definition writeTextFrame ::
    "(bytes \<Rightarrow> 'c \<Rightarrow> 'c \<times> go_error option) \<Rightarrow> ('c \<Rightarrow> 'c \<times> go_error option) \<Rightarrow> bytes \<Rightarrow> 'c
       \<Rightarrow> 'c \<times> go_error option" where
  "writeTextFrame write flush payload c =
     (case write (frame_header (length payload)) c of
        (c1, Some e) \<Rightarrow> (c1, Some e)
      | (c1, None) \<Rightarrow>
          (case write payload c1 of
             (c2, Some e) \<Rightarrow> (c2, Some e)
           | (c2, None) \<Rightarrow> flush c2))"

text \<open>How RFC 6455 has a client read a server's frame: final text frame, unmasked, minimal length.\<close>

definition parse_frame :: "bytes \<Rightarrow> (bytes \<times> bytes) option" where
  "parse_frame bs =
     (case bs of
        b0 # b1 # rest \<Rightarrow>
          if b0 \<noteq> 0x81 then None
          else
            (let k = (if b1 = 126 then 2 else if b1 = 127 then 8 else 0);
                 n = (if k = 0 then unat b1 else be_nat (take k rest));
                 minimal = (k = 0 \<and> n \<le> 125 \<or> k = 2 \<and> 126 \<le> n \<or> k = 8 \<and> 65536 \<le> n)
             in if length rest < k + n \<or> \<not> minimal then None
                else Some (take n (drop k rest), drop (k + n) rest))
      | _ \<Rightarrow> None)"

lemma frame_sizes:
  "n \<le> 125 \<Longrightarrow> unat (word_of_nat n :: 8 word) = n"
  "n \<le> 125 \<Longrightarrow> (word_of_nat n :: 8 word) \<noteq> 126 \<and> (word_of_nat n :: 8 word) \<noteq> 127"
proof -
  assume n: "n \<le> 125"
  then have "n mod 256 = n" by simp
  then show u: "unat (word_of_nat n :: 8 word) = n" by (simp add: unat_of_nat take_bit_eq_mod)
  have "unat (126 :: 8 word) = 126" "unat (127 :: 8 word) = 127" by simp_all
  then show "(word_of_nat n :: 8 word) \<noteq> 126 \<and> (word_of_nat n :: 8 word) \<noteq> 127"
    using u n by (auto dest: arg_cong [of _ _ unat])
qed

text \<open>Framing. A client that reads by RFC 6455 gets back exactly the payload of every text frame
  the server writes, for every length below 2^64 and on both sides of the two length-field
  boundaries, and the bytes behind the frame stay for the next one.\<close>

theorem text_frame_roundtrip:
  "length payload < 2 ^ 64 \<Longrightarrow> parse_frame (text_frame payload @ rest) = Some (payload, rest)"
proof -
  assume len: "length payload < 2 ^ 64"
  consider "length payload \<le> 125" | "125 < length payload" "length payload \<le> 65535"
    | "65535 < length payload" by linarith
  then show ?thesis
  proof cases
    case 1
    then show ?thesis using frame_sizes [OF 1]
      by (simp add: text_frame_def frame_header_def parse_frame_def Let_def)
  next
    case 2
    then have "be_nat (be_bytes 2 (length payload)) = length payload"
      by (intro be_nat_be_bytes) simp
    then show ?thesis using 2
      by (simp add: text_frame_def frame_header_def parse_frame_def Let_def del: be_bytes.simps)
  next
    case 3
    have "be_nat (be_bytes 8 (length payload)) = length payload"
      using len by (intro be_nat_be_bytes) simp
    then show ?thesis using 3
      by (simp add: text_frame_def frame_header_def parse_frame_def Let_def del: be_bytes.simps)
  qed
qed

theorem text_frame_roundtrip_witness:
  "parse_frame (text_frame (replicate 126 7) @ [1]) = Some (replicate 126 7, [1])"
  by (rule text_frame_roundtrip) simp

section \<open>The hub and its clients\<close>

text \<open>
  Where a client's \<open>ServeJobs\<close> goroutine stands: registered (\<open>add\<close>), holding the encoded initial
  snapshot it is about to send to its own channel, or in its loop. A goroutine that returns is
  removed from the hub. \<open>send\<close> is the buffered channel, \<open>written\<close> what went out on the connection.
  Messages are what the parameter \<open>enc\<close> (\<open>json.Marshal\<close> of a \<open>JobsMessage\<close>) makes of a list of
  snapshots; it may fail.
\<close>

datatype 'm client_phase = Registered | HoldsInitial 'm | Looping

record 'm hub_client =
  phase :: "'m client_phase"
  send :: "'m list"
  written :: "'m list"

type_synonym client_id = nat
type_synonym 'm hub = "(client_id, 'm hub_client) gomap"

abbreviation send_slots :: nat where "send_slots \<equiv> 8"

definition NewHub :: "'m hub" where
  "NewHub = []"

definition hub_add :: "client_id \<Rightarrow> 'm hub \<Rightarrow> 'm hub" where
  "hub_add c h = gm_put c \<lparr>phase = Registered, send = [], written = []\<rparr> h"

definition hub_remove :: "client_id \<Rightarrow> 'm hub \<Rightarrow> 'm hub" where
  "hub_remove c h = gm_del c h"

text \<open>The non-blocking send of the broadcast: a full channel drops the message.\<close>

definition offer :: "'m \<Rightarrow> 'm hub_client \<Rightarrow> 'm hub_client" where
  "offer m cl = (if length (send cl) < send_slots then cl\<lparr>send := send cl @ [m]\<rparr> else cl)"

definition BroadcastJobs ::
    "(job_snapshot list \<Rightarrow> 'm option) \<Rightarrow> job_snapshot list \<Rightarrow> 'm hub \<Rightarrow> 'm hub" where
  "BroadcastJobs enc jobs h =
     (case enc jobs of None \<Rightarrow> h | Some m \<Rightarrow> map (\<lambda>(c, cl). (c, offer m cl)) h)"

text \<open>
  The atomic steps of the goroutines. \<open>hub_step\<close> is \<open>None\<close> when the step cannot happen: above all,
  sending the initial snapshot is a blocking send, before the client's own loop, the only reader of
  the channel, has started.
\<close>

datatype hub_event =
    Join client_id
  | TakeSnapshot client_id "job_snapshot list"
  | SendInitial client_id
  | WriteNext client_id
  | Leave client_id
  | Broadcast "job_snapshot list"

fun hub_step :: "(job_snapshot list \<Rightarrow> 'm option) \<Rightarrow> hub_event \<Rightarrow> 'm hub \<Rightarrow> 'm hub option" where
  "hub_step enc (Join c) h = (if map_of h c = None then Some (hub_add c h) else None)"
| "hub_step enc (TakeSnapshot c jobs) h =
     (case map_of h c of
        Some cl \<Rightarrow>
          if phase cl = Registered
          then Some (gm_put c (cl\<lparr>phase := (case enc jobs of Some m \<Rightarrow> HoldsInitial m | None \<Rightarrow> Looping)\<rparr>) h)
          else None
      | None \<Rightarrow> None)"
| "hub_step enc (SendInitial c) h =
     (case map_of h c of
        Some cl \<Rightarrow>
          (case phase cl of
             HoldsInitial m \<Rightarrow>
               if length (send cl) < send_slots
               then Some (gm_put c (cl\<lparr>phase := Looping, send := send cl @ [m]\<rparr>) h) else None
           | _ \<Rightarrow> None)
      | None \<Rightarrow> None)"
| "hub_step enc (WriteNext c) h =
     (case map_of h c of
        Some cl \<Rightarrow>
          (case send cl of
             m # ms \<Rightarrow>
               if phase cl = Looping
               then Some (gm_put c (cl\<lparr>send := ms, written := written cl @ [m]\<rparr>) h) else None
           | [] \<Rightarrow> None)
      | None \<Rightarrow> None)"
| "hub_step enc (Leave c) h =
     (case map_of h c of
        Some cl \<Rightarrow> if phase cl = Looping then Some (hub_remove c h) else None
      | None \<Rightarrow> None)"
| "hub_step enc (Broadcast jobs) h = Some (BroadcastJobs enc jobs h)"

inductive hub_trace :: "(job_snapshot list \<Rightarrow> 'm option) \<Rightarrow> 'm hub \<Rightarrow> hub_event list \<Rightarrow> 'm hub \<Rightarrow> bool"
  for enc h0 where
  trace_nil: "hub_trace enc h0 [] h0"
| trace_snoc: "hub_trace enc h0 tr h \<Longrightarrow> hub_step enc e h = Some h' \<Longrightarrow> hub_trace enc h0 (tr @ [e]) h'"

text \<open>What a client is offered by one event: broadcasts, and its own initial snapshot.\<close>

fun offered :: "(job_snapshot list \<Rightarrow> 'm option) \<Rightarrow> hub_event \<Rightarrow> 'm list" where
  "offered enc (Broadcast jobs) = (case enc jobs of Some m \<Rightarrow> [m] | None \<Rightarrow> [])"
| "offered enc _ = []"

lemma map_of_broadcast:
  "map_of (BroadcastJobs enc jobs h) c =
     (case enc jobs of None \<Rightarrow> map_of h c | Some m \<Rightarrow> map_option (offer m) (map_of h c))"
proof (cases "enc jobs")
  case (Some m)
  have "map_of (map (\<lambda>(c, cl). (c, offer m cl)) h) c = map_option (offer m) (map_of h c)"
    by (induction h) auto
  then show ?thesis using Some by (simp add: BroadcastJobs_def)
qed (simp add: BroadcastJobs_def)

text \<open>A client that waits to send its initial snapshot into a full channel: no event changes that.\<close>

lemma stuck_step:
  assumes "hub_step enc e h = Some h'" and "map_of h c = Some cl"
    and "phase cl = HoldsInitial m" and "length (send cl) = send_slots"
  shows "map_of h' c = Some cl"
  using assms
  by (cases e)
    (auto simp: hub_add_def hub_remove_def map_of_broadcast offer_def
      split: option.splits if_splits client_phase.splits list.splits)

lemma stuck_forever:
  assumes "hub_trace enc h0 tr h" and "map_of h0 c = Some cl"
    and "phase cl = HoldsInitial m" and "length (send cl) = send_slots"
  shows "map_of h c = Some cl"
  using assms by (induction rule: hub_trace.induct) (auto intro: stuck_step)

definition broadcasts :: "(job_snapshot list \<Rightarrow> 'm option) \<Rightarrow> hub_event list \<Rightarrow> 'm list" where
  "broadcasts enc tr = concat (map (offered enc) tr)"

lemma broadcasts_snoc [simp]: "broadcasts enc (tr @ [e]) = broadcasts enc tr @ offered enc e"
  by (simp add: broadcasts_def)

text \<open>What a client has been sent: broadcasts in order, with its initial snapshot somewhere among
  them once it loops.\<close>

definition received_ok :: "'m list \<Rightarrow> 'm hub_client \<Rightarrow> bool" where
  "received_ok bs cl \<longleftrightarrow> length (send cl) \<le> send_slots
     \<and> (phase cl = Looping \<or> written cl = [])
     \<and> (\<exists>xs i ys. written cl @ send cl = xs @ i @ ys \<and> subseq (xs @ ys) bs \<and> length i \<le> 1
          \<and> (phase cl = Looping \<or> i = []))"

lemma received_okI:
  "written cl @ send cl = xs @ i @ ys \<Longrightarrow> subseq (xs @ ys) bs \<Longrightarrow> length i \<le> 1 \<Longrightarrow>
     phase cl = Looping \<or> i = [] \<Longrightarrow> length (send cl) \<le> send_slots \<Longrightarrow>
     phase cl = Looping \<or> written cl = [] \<Longrightarrow> received_ok bs cl"
  unfolding received_ok_def by blast

lemma received_ok_more: "received_ok bs cl \<Longrightarrow> received_ok (bs @ bs') cl"
  unfolding received_ok_def by (elim conjE exE) (intro conjI exI, assumption+, rule list_emb_prefix)

lemma received_ok_early:
  "received_ok bs cl \<Longrightarrow> phase cl \<noteq> Looping \<Longrightarrow>
     written cl = [] \<and> subseq (send cl) bs \<and> length (send cl) \<le> send_slots"
  unfolding received_ok_def by auto

lemma received_ok_offer: "received_ok bs cl \<Longrightarrow> received_ok (bs @ [m]) (offer m cl)"
proof -
  assume ok: "received_ok bs cl"
  then obtain xs i ys where s: "written cl @ send cl = xs @ i @ ys" "subseq (xs @ ys) bs" "length i \<le> 1"
    "phase cl = Looping \<or> i = []"
    by (auto simp: received_ok_def)
  show ?thesis
  proof (cases "length (send cl) < send_slots")
    case True
    have "written (offer m cl) @ send (offer m cl) = xs @ i @ (ys @ [m])"
      using s(1) True by (simp add: offer_def flip: append_assoc)
    moreover have "subseq (xs @ ys @ [m]) (bs @ [m])"
      using s(2) subseq_append [of "xs @ ys" "[m]" bs] by simp
    ultimately show ?thesis using ok True s(3,4)
      by (intro received_okI [of _ xs i "ys @ [m]"]) (auto simp: offer_def received_ok_def)
  next
    case False
    then show ?thesis using received_ok_more [OF ok] by (simp add: offer_def)
  qed
qed

lemma received_ok_initial:
  assumes "received_ok bs cl" and "phase cl = HoldsInitial m" and "length (send cl) < send_slots"
  shows "received_ok bs (cl\<lparr>phase := Looping, send := send cl @ [m]\<rparr>)"
proof -
  have "written cl = []" "subseq (send cl) bs" using assms(1,2) by (auto simp: received_ok_def)
  then show ?thesis using assms(3) by (intro received_okI [of _ "send cl" "[m]" "[]"]) auto
qed

lemma received_ok_write:
  assumes "received_ok bs cl" and "send cl = m # ms" and "phase cl = Looping"
  shows "received_ok bs (cl\<lparr>send := ms, written := written cl @ [m]\<rparr>)"
proof -
  obtain xs i ys where "written cl @ send cl = xs @ i @ ys" "subseq (xs @ ys) bs" "length i \<le> 1"
    using assms(1) by (auto simp: received_ok_def)
  then show ?thesis using assms
    by (intro received_okI [of _ xs i ys]) (auto simp: received_ok_def)
qed

lemma received_ok_step:
  assumes "\<forall>c cl. map_of h c = Some cl \<longrightarrow> received_ok bs cl" and "hub_step enc e h = Some h'"
    and "map_of h' c = Some cl"
  shows "received_ok (bs @ offered enc e) cl"
proof (cases e)
  case (Broadcast jobs)
  then show ?thesis using assms
    by (auto simp: map_of_broadcast received_ok_offer split: option.splits)
next
  case (SendInitial d)
  then show ?thesis using assms
    by (auto simp: received_ok_initial split: option.splits if_splits client_phase.splits)
next
  case (Join d)
  then have h': "h' = hub_add d h" using assms(2) by (simp split: if_splits)
  have "received_ok bs \<lparr>phase = Registered, send = [], written = []\<rparr>"
    by (rule received_okI [of _ "[]" "[]" "[]"]) simp_all
  then show ?thesis using Join assms(1,3) h' by (auto simp: hub_add_def split: if_splits)
next
  case (TakeSnapshot d jobs)
  then obtain cl0 where cl0: "map_of h d = Some cl0" "phase cl0 = Registered"
    using assms(2) by (auto split: option.splits if_splits)
  then have "received_ok bs cl0" using assms(1) by blast
  then have "received_ok bs (cl0\<lparr>phase := p\<rparr>)" for p
    using received_ok_early [of bs cl0] cl0(2)
    by (intro received_okI [of _ "send cl0" "[]" "[]"]) auto
  then show ?thesis using TakeSnapshot assms cl0
    by (auto split: if_splits)
next
  case (WriteNext d)
  then show ?thesis using assms
    by (auto simp: received_ok_write split: option.splits if_splits list.splits)
next
  case (Leave d)
  then show ?thesis using assms
    by (auto simp: hub_remove_def split: option.splits if_splits)
qed

text \<open>C33: What reaches a dashboard. However the goroutines interleave, the messages written to a
  client and those waiting in its channel are broadcasts in the order they were made, none twice and
  possibly with gaps, with its own initial snapshot among them at most once; and never more than
  eight wait.\<close>

theorem client_receives_in_order:
  assumes "hub_trace enc NewHub tr h" and "map_of h c = Some cl"
  shows "length (send cl) \<le> 8
    \<and> (\<exists>xs i ys. written cl @ send cl = xs @ i @ ys \<and> length i \<le> 1
         \<and> subseq (xs @ ys) (broadcasts enc tr))"
proof -
  have "\<forall>c cl. map_of h c = Some cl \<longrightarrow> received_ok (broadcasts enc tr) cl"
    using assms(1)
  proof (induction rule: hub_trace.induct)
    case trace_nil
    then show ?case by (simp add: NewHub_def)
  next
    case (trace_snoc tr h e h')
    show ?case
      using received_ok_step [OF trace_snoc.IH trace_snoc.hyps(2)] by (simp only: broadcasts_snoc) blast
  qed
  then show ?thesis using assms(2) unfolding received_ok_def by blast
qed


lemma hub_trace_append:
  "hub_trace enc h1 tr2 h2 \<Longrightarrow> hub_trace enc h0 tr1 h1 \<Longrightarrow> hub_trace enc h0 (tr1 @ tr2) h2"
proof (induction rule: hub_trace.induct)
  case trace_nil
  then show ?case by simp
next
  case (trace_snoc tr h e h')
  then have "hub_trace enc h0 ((tr1 @ tr) @ [e]) h'" by (intro hub_trace.trace_snoc) auto
  then show ?case by simp
qed

lemma broadcasts_fill:
  assumes "enc jobs = Some m" and "map_of h c = Some cl" and "length (send cl) + k \<le> send_slots"
  shows "\<exists>h'. hub_trace enc h (replicate k (Broadcast jobs)) h'
    \<and> map_of h' c = Some (cl\<lparr>send := send cl @ replicate k m\<rparr>)"
  using assms(3)
proof (induction k)
  case 0
  then show ?case using assms(2) by (auto intro: hub_trace.trace_nil)
next
  case (Suc k)
  then obtain h' where h': "hub_trace enc h (replicate k (Broadcast jobs)) h'"
    "map_of h' c = Some (cl\<lparr>send := send cl @ replicate k m\<rparr>)" by auto
  let ?h = "BroadcastJobs enc jobs h'"
  have "hub_trace enc h (replicate k (Broadcast jobs) @ [Broadcast jobs]) ?h"
    using h'(1) by (rule hub_trace.trace_snoc) simp
  moreover have "map_of ?h c = Some (cl\<lparr>send := send cl @ replicate (Suc k) m\<rparr>)"
    using h'(2) assms(1) Suc.prems
    by (simp add: map_of_broadcast offer_def replicate_append_same)
  ultimately show ?case by (metis replicate_append_same replicate_Suc)
qed

text \<open>C40: Eight early broadcasts block a dashboard for good. \<open>ServeJobs\<close> registers the client before it
  sends the initial snapshot into the client's own channel, which nobody reads yet; if eight job
  changes are broadcast in between, the send blocks, and no later event, not even the peer's going
  away or the request's end, takes the client out of the hub or writes it anything.\<close>

theorem early_broadcasts_block_client:
  assumes "enc jobs = Some m" and "map_of h c = None"
  shows "\<exists>h1. hub_trace enc h ([Join c, TakeSnapshot c jobs] @ replicate 8 (Broadcast jobs)) h1
    \<and> (\<forall>tr h2. hub_trace enc h1 tr h2 \<longrightarrow>
         (\<exists>cl. map_of h2 c = Some cl \<and> phase cl = HoldsInitial m \<and> written cl = []))"
proof -
  let ?cl = "\<lparr>phase = HoldsInitial m, send = [], written = []\<rparr>"
  let ?ha = "hub_add c h" and ?hb = "gm_put c ?cl (hub_add c h)"
  have "hub_trace enc h ([] @ [Join c]) ?ha"
    by (rule trace_snoc [OF trace_nil]) (use assms(2) in simp)
  then have t: "hub_trace enc h (([] @ [Join c]) @ [TakeSnapshot c jobs]) ?hb"
    by (rule trace_snoc) (use assms(1) in \<open>simp add: hub_add_def\<close>)
  have "map_of ?hb c = Some ?cl" by simp
  then obtain h1 where h1: "hub_trace enc ?hb (replicate 8 (Broadcast jobs)) h1"
    "map_of h1 c = Some (?cl\<lparr>send := replicate 8 m\<rparr>)"
    using broadcasts_fill [where enc = enc and jobs = jobs and m = m and h = ?hb and c = c
        and cl = ?cl and k = 8] assms(1) by auto
  have "hub_trace enc h ([Join c, TakeSnapshot c jobs] @ replicate 8 (Broadcast jobs)) h1"
    using hub_trace_append [OF h1(1) t] by simp
  moreover have "map_of h2 c = map_of h1 c" if "hub_trace enc h1 tr h2" for tr h2
    using stuck_forever [OF that h1(2), of m] h1(2) by simp
  ultimately show ?thesis using h1(2) by auto
qed

definition demo_snapshot :: job_snapshot where
  "demo_snapshot = snapshot_of ''a'' zero_result"

theorem early_broadcasts_block_client_witness:
  "\<exists>h1. hub_trace Some NewHub ([Join 1, TakeSnapshot 1 [demo_snapshot]]
          @ replicate 8 (Broadcast [demo_snapshot])) h1
    \<and> (\<exists>cl. map_of h1 1 = Some cl \<and> written cl = [])"
  using early_broadcasts_block_client [of Some "[demo_snapshot]" "[demo_snapshot]" NewHub 1]
    trace_nil [of Some] by (fastforce simp: NewHub_def)

text \<open>The initial snapshot can arrive after newer news. The snapshot is taken after the client was
  registered but sent later; a change broadcast in between goes first, and the dashboard ends up
  showing the older state, with nothing left in the channel to correct it.\<close>

theorem initial_snapshot_out_of_order:
  assumes "enc old = Some a" and "enc new = Some b"
  shows "\<exists>h. hub_trace enc NewHub
      [Join c, TakeSnapshot c old, Broadcast new, SendInitial c, WriteNext c, WriteNext c] h
    \<and> map_of h c = Some \<lparr>phase = Looping, send = [], written = [b, a]\<rparr>"
proof -
  let ?cl = "\<lambda>p s w. [(c, \<lparr>phase = p, send = s, written = w\<rparr>)]"
  note step = trace_snoc [where enc = enc]
  have "hub_trace enc NewHub ([] @ [Join c]) (?cl Registered [] [])"
    by (rule step [OF trace_nil]) (simp add: NewHub_def hub_add_def)
  then have "hub_trace enc NewHub (([] @ [Join c]) @ [TakeSnapshot c old]) (?cl (HoldsInitial a) [] [])"
    by (rule step) (simp add: assms)
  then have "hub_trace enc NewHub ((([] @ [Join c]) @ [TakeSnapshot c old]) @ [Broadcast new])
      (?cl (HoldsInitial a) [b] [])"
    by (rule step) (simp add: assms BroadcastJobs_def offer_def)
  then have "hub_trace enc NewHub (((([] @ [Join c]) @ [TakeSnapshot c old]) @ [Broadcast new])
      @ [SendInitial c]) (?cl Looping [b, a] [])"
    by (rule step) simp
  then have "hub_trace enc NewHub ((((([] @ [Join c]) @ [TakeSnapshot c old]) @ [Broadcast new])
      @ [SendInitial c]) @ [WriteNext c]) (?cl Looping [a] [b])"
    by (rule step) simp
  then have "hub_trace enc NewHub (((((([] @ [Join c]) @ [TakeSnapshot c old]) @ [Broadcast new])
      @ [SendInitial c]) @ [WriteNext c]) @ [WriteNext c]) (?cl Looping [] [b, a])"
    by (rule step) simp
  then show ?thesis by (intro exI [of _ "?cl Looping [] [b, a]"]) simp
qed

theorem initial_snapshot_out_of_order_witness:
  "\<exists>h. hub_trace Some NewHub
      [Join 1, TakeSnapshot 1 [], Broadcast [demo_snapshot], SendInitial 1, WriteNext 1, WriteNext 1] h
    \<and> map_of h 1 = Some \<lparr>phase = Looping, send = [], written = [[demo_snapshot], []]\<rparr>"
  by (rule initial_snapshot_out_of_order) simp_all

theorem client_receives_in_order_witness:
  "\<exists>cl :: job_snapshot list hub_client. length (send cl) \<le> 8 \<and> phase cl = Registered
    \<and> (\<exists>xs i ys. written cl @ send cl = xs @ i @ ys \<and> length i \<le> 1
         \<and> subseq (xs @ ys) (broadcasts Some [Join 1]))"
proof -
  have "hub_trace Some NewHub ([] @ [Join 1]) (hub_add 1 (NewHub :: job_snapshot list hub))"
    by (rule trace_snoc [OF trace_nil]) (simp add: NewHub_def)
  then have t: "hub_trace Some NewHub [Join 1] (hub_add 1 (NewHub :: job_snapshot list hub))" by simp
  have m: "map_of (hub_add 1 (NewHub :: job_snapshot list hub)) 1
      = Some \<lparr>phase = Registered, send = [], written = []\<rparr>"
    by (simp add: hub_add_def NewHub_def)
  show ?thesis using client_receives_in_order [OF t m]
    by (intro exI [of _ "\<lparr>phase = Registered, send = [], written = []\<rparr>"]) simp
qed


end
