(* ===== verification/Json_Nested.thy ===== *)
theory Json_Nested
  imports Go_Json
begin

text \<open>
  Texts with values inside values: arrays, objects in arrays, numbers. \<open>reads_deep d\<close> says that a text
  is read as a value wherever it stands, if \<open>d\<close> more levels of nesting are allowed.
\<close>

definition ends_value :: "string \<Rightarrow> bool" where
  "ends_value r \<longleftrightarrow> r = [] \<or> hd r \<in> {CHR '','', CHR ''}'', CHR '']''}"

definition reads_deep :: "nat \<Rightarrow> string \<Rightarrow> json \<Rightarrow> bool" where
  "reads_deep d vt v \<longleftrightarrow> (\<forall>fuel depth r. ends_value r \<longrightarrow> d \<le> depth \<longrightarrow> 2 * length (vt @ r) < fuel \<longrightarrow>
     json_value fuel depth (vt @ r) = Some (v, r))"

lemma ends_value_simps [simp]:
  "ends_value []" "ends_value (CHR '','' # r)" "ends_value (CHR ''}'' # r)" "ends_value (CHR '']'' # r)"
  by (simp_all add: ends_value_def)

lemma reads_deepD:
  "reads_deep d vt v \<Longrightarrow> ends_value r \<Longrightarrow> d \<le> depth \<Longrightarrow> 2 * length (vt @ r) < fuel \<Longrightarrow>
     json_value fuel depth (vt @ r) = Some (v, r)"
  unfolding reads_deep_def by blast

lemma reads_deep_more: "reads_deep d vt v \<Longrightarrow> d \<le> e \<Longrightarrow> reads_deep e vt v"
  unfolding reads_deep_def by (meson le_trans)

lemma text_reads_deep:
  assumes "\<And>r. json_unquote (lit @ quote # r) = Some (s, r)"
  shows "reads_deep 0 (quote # lit @ [quote]) (JStr lit s)"
proof -
  have "json_value fuel depth (quote # lit @ quote # r) = Some (JStr lit s, r)" if "0 < fuel" for fuel depth r
  proof -
    obtain f where "fuel = Suc f" using \<open>0 < fuel\<close> by (cases fuel) auto
    then show ?thesis using quoted_reads [of lit r s f depth] assms [of r] by simp
  qed
  then show ?thesis by (simp add: reads_deep_def)
qed

lemma string_reads_deep: "utf8_valid s \<Longrightarrow> reads_deep 0 (json_string s) (JStr (json_escape s) s)"
  unfolding json_string_def by (intro text_reads_deep json_unquote_escape)

lemma null_reads_deep: "reads_deep 0 ''null'' JNull"
proof -
  have "json_value (Suc f) depth (''null'' @ r) = Some (JNull, r)" for f depth r
    by (simp add: json_scalar_def has_prefix_def skip_ws_id is_ws_def)
  then show ?thesis unfolding reads_deep_def by (metis gr0_implies_Suc less_nat_zero_code not_gr_zero)
qed

section \<open>Numbers\<close>

lemma dropWhile_digits: "list_all is_digit ds \<Longrightarrow> ends_value r \<Longrightarrow> dropWhile is_digit (ds @ r) = r"
proof -
  assume ds: "list_all is_digit ds" and r: "ends_value r"
  have "\<not> is_digit (CHR '','')" "\<not> is_digit (CHR ''}'')" "\<not> is_digit (CHR '']'')" by code_simp+
  then have "dropWhile is_digit r = r" using r by (cases r) (auto simp: ends_value_def)
  then show ?thesis using ds by (simp add: dropWhile_append list_all_iff)
qed


lemma itoa_nat_head: "0 < n \<Longrightarrow> hd (itoa_nat n) \<noteq> CHR ''0''"
proof (induction n rule: itoa_nat.induct)
  case (1 n)
  show ?case
  proof (cases "n < 10")
    case True
    then have "itoa_nat n = [digit_char n]" by (subst itoa_nat.simps) simp
    moreover have "digit_val (digit_char n) = n" "digit_val (CHR ''0'') = 0" using True by (simp, code_simp)
    ultimately show ?thesis using 1(2) by (metis list.sel(1) not_less_zero)
  next
    case False
    then have "itoa_nat n = itoa_nat (n div 10) @ [digit_char (n mod 10)]" by (subst itoa_nat.simps) simp
    then show ?thesis using 1(1) False by simp
  qed
qed

lemma num_int_itoa: "ends_value r \<Longrightarrow> num_int (itoa_nat n @ r) = Some r"
proof -
  assume r: "ends_value r"
  obtain c cs where c: "itoa_nat n = c # cs" by (meson itoa_nat_nonempty neq_Nil_conv)
  then have d: "is_digit c" "list_all is_digit cs" using itoa_nat_digits [of _ n] by (auto simp: list_all_iff)
  show ?thesis
  proof (cases "n = 0")
    case True
    then have "itoa_nat n = ''0''" by (subst itoa_nat.simps) (simp add: digit_char_def, code_simp)
    then show ?thesis by (simp add: num_int_def)
  next
    case False
    then have "c \<noteq> CHR ''0''" using itoa_nat_head [of n] c by simp
    then show ?thesis using d c dropWhile_digits [OF d(2) r] by (simp add: num_int_def)
  qed
qed

lemma json_number_itoa: "ends_value r \<Longrightarrow> json_number (itoa n @ r) = Some (JNum (itoa n), r)"
proof -
  assume r: "ends_value r"
  have rest: "num_frac r = Some r" "num_exp r = Some r"
    using r by (auto simp: num_frac_def num_exp_def ends_value_def)
  obtain c cs where c: "itoa_nat (nat \<bar>n\<bar>) = c # cs" by (meson itoa_nat_nonempty neq_Nil_conv)
  then have "c \<noteq> CHR ''-''" using itoa_nat_digits [of c "nat \<bar>n\<bar>"] digit_not_sign by auto
  moreover have "itoa n = (if n < 0 then [CHR ''-''] else []) @ itoa_nat (nat \<bar>n\<bar>)" by (simp add: itoa_def)
  ultimately have "(if itoa n @ r \<noteq> [] \<and> hd (itoa n @ r) = CHR ''-'' then tl (itoa n @ r) else itoa n @ r)
      = itoa_nat (nat \<bar>n\<bar>) @ r" using c by simp
  then have "num_int (if itoa n @ r \<noteq> [] \<and> hd (itoa n @ r) = CHR ''-'' then tl (itoa n @ r) else itoa n @ r) = Some r"
    using num_int_itoa [OF r] by simp
  then show ?thesis unfolding json_number_def by (simp add: rest)
qed

lemma itoa_head: "\<exists>c cs. itoa n = c # cs \<and> (is_digit c \<or> c = CHR ''-'')"
proof -
  obtain c cs where c: "itoa_nat (nat \<bar>n\<bar>) = c # cs" by (meson itoa_nat_nonempty neq_Nil_conv)
  then have "is_digit c" using itoa_nat_digits [of c "nat \<bar>n\<bar>"] by auto
  then show ?thesis using c by (auto simp: itoa_def)
qed

lemma number_reads_deep: "reads_deep 0 (itoa n) (JNum (itoa n))"
proof -
  obtain c cs where c: "itoa n = c # cs" "is_digit c \<or> c = CHR ''-''" using itoa_head by blast
  have no: "c \<noteq> x" if "x \<in> set [quote, CHR ''{'', CHR ''['', CHR ''t'', CHR ''f'', CHR ''n'', CHR '' '', CHR 0x09, CHR 0x0A, CHR 0x0D]" for x
  proof -
    have "list_all (\<lambda>x. \<not> is_digit x \<and> x \<noteq> CHR ''-'') [quote, CHR ''{'', CHR ''['', CHR ''t'', CHR ''f'', CHR ''n'',
        CHR '' '', CHR 0x09, CHR 0x0A, CHR 0x0D]" by code_simp
    then show ?thesis using that c(2) unfolding list_all_iff by metis
  qed
  have "json_value (Suc f) depth (itoa n @ r) = Some (JNum (itoa n), r)" if r: "ends_value r" for f depth r
  proof -
    have "skip_ws (itoa n @ r) = itoa n @ r" using no c by (simp add: skip_ws_id is_ws_def)
    moreover have "json_scalar (itoa n @ r) = Some (JNum (itoa n), r)"
      using json_number_itoa [OF r, of n] no unfolding c(1) by (simp add: json_scalar_def has_prefix_def)
    ultimately show ?thesis using no c by (simp add: Let_def)
  qed
  then show ?thesis unfolding reads_deep_def by (metis gr0_implies_Suc less_nat_zero_code not_gr_zero)
qed

section \<open>Objects and arrays\<close>

definition members_deep :: "nat \<Rightarrow> member list \<Rightarrow> bool" where
  "members_deep d ms \<longleftrightarrow> (\<forall>(k, vt, v) \<in> set ms. utf8_valid k \<and> reads_deep d vt v)"

lemma members_step:
  assumes "utf8_valid k" "reads_deep d vt v" "d \<le> depth" "ends_value t" "2 * length (vt @ t) < fuel"
  shows "json_members (Suc fuel) depth (json_string k @ '':'' @ vt @ t) =
    (if expect (CHR ''}'') t \<noteq> None then Some ([(k, v)], the (expect (CHR ''}'') t))
     else do { r4 \<leftarrow> expect (CHR '','') t; (ms, r5) \<leftarrow> json_members fuel depth r4; Some ((k, v) # ms, r5) })"
  by (subst json_members.simps(2))
    (simp add: json_key_reads [OF assms(1)] expect_here reads_deepD [OF assms(2,4,3,5)]
      del: json_value.simps json_members.simps)

lemma members_read_deep:
  "ms \<noteq> [] \<Longrightarrow> members_deep d ms \<Longrightarrow> d \<le> depth \<Longrightarrow>
     2 * length (join_with '','' (map member_text ms) @ ''}'' @ r) < fuel \<Longrightarrow>
     json_members fuel depth (join_with '','' (map member_text ms) @ ''}'' @ r)
       = Some (map (\<lambda>(k, vt, v). (k, v)) ms, r)"
proof (induction ms arbitrary: fuel)
  case (Cons m ms)
  obtain k vt v where m: "m = (k, vt, v)" by (cases m)
  have ok: "utf8_valid k" "reads_deep d vt v" using Cons.prems(2) m by (auto simp: members_deep_def)
  obtain g where g: "fuel = Suc g" using Cons.prems(4) by (cases fuel) auto
  define t where "t = (if ms = [] then ''}'' @ r else '','' @ join_with '','' (map member_text ms) @ ''}'' @ r)"
  have shape: "join_with '','' (map member_text (m # ms)) @ ''}'' @ r = json_string k @ '':'' @ vt @ t"
    by (cases ms) (simp_all add: m member_text_def t_def)
  have small: "2 * length (vt @ t) < g" using Cons.prems(4) unfolding shape g by (simp add: json_string_def)
  have t: "ends_value t" by (simp add: t_def)
  note step = members_step [OF ok Cons.prems(3) t small]
  show ?case
  proof (cases ms)
    case Nil
    then show ?thesis unfolding shape g step by (simp add: t_def m expect_here)
  next
    case (Cons m' ms')
    then have "json_members g depth (join_with '','' (map member_text ms) @ ''}'' @ r)
        = Some (map (\<lambda>(k, vt, v). (k, v)) ms, r)"
      using Cons.IH Cons.prems(2,3) small by (simp add: members_deep_def t_def)
    then show ?thesis using Cons unfolding shape g step by (simp add: t_def m expect_here expect_other)
  qed
qed simp

lemma object_text: "json_object (map (\<lambda>(k, vt, v). (k, vt)) ms) = ''{'' @ join_with '','' (map member_text ms) @ ''}''"
  by (simp add: json_object_def member_text_def [abs_def] split_def comp_def)

lemma object_reads_deep:
  assumes "ms \<noteq> []" "members_deep d ms"
  shows "reads_deep (Suc d) (json_object (map (\<lambda>(k, vt, v). (k, vt)) ms)) (JObj (map (\<lambda>(k, vt, v). (k, v)) ms))"
  unfolding reads_deep_def object_text
proof (intro allI impI)
  fix fuel depth r
  let ?body = "join_with '','' (map member_text ms) @ ''}'' @ r"
  assume depth: "Suc d \<le> depth"
    and "2 * length ((''{'' @ join_with '','' (map member_text ms) @ ''}'') @ r) < fuel"
  then obtain f where f: "fuel = Suc f" "2 * length ?body < f" by (cases fuel) auto
  obtain m ms' where ms: "ms = m # ms'" using assms(1) by (cases ms) auto
  obtain k vt v where m: "m = (k, vt, v)" by (cases m)
  obtain q where q: "?body = quote # q" using ms m by (cases ms') (simp_all add: member_text_def json_string_def)
  have "json_members f (depth - 1) ?body = Some (map (\<lambda>(k, vt, v). (k, v)) ms, r)"
    by (rule members_read_deep [OF assms _ f(2)]) (use depth in simp)
  moreover have "expect (CHR ''}'') ?body = None" unfolding q by (simp add: expect_other)
  ultimately show "json_value fuel depth ((''{'' @ join_with '','' (map member_text ms) @ ''}'') @ r)
      = Some (JObj (map (\<lambda>(k, vt, v). (k, v)) ms), r)"
    using depth unfolding f(1) by (simp add: skip_ws_id del: json_members.simps)
qed

definition json_array :: "string list \<Rightarrow> string" where
  "json_array vts = ''['' @ join_with '','' vts @ '']''"

lemma elems_step:
  assumes "reads_deep d vt v" "d \<le> depth" "ends_value t" "2 * length (vt @ t) < fuel"
  shows "json_elems (Suc fuel) depth (vt @ t) =
    (if expect (CHR '']'') t \<noteq> None then Some ([v], the (expect (CHR '']'') t))
     else do { r1 \<leftarrow> expect (CHR '','') t; (vs, r2) \<leftarrow> json_elems fuel depth r1; Some (v # vs, r2) })"
  by (subst json_elems.simps(2)) (simp add: reads_deepD [OF assms(1,3,2,4)] del: json_value.simps json_elems.simps)

lemma elems_read_deep:
  "list_all2 (reads_deep d) vts vs \<Longrightarrow> vts \<noteq> [] \<Longrightarrow> d \<le> depth \<Longrightarrow>
     2 * length (join_with '','' vts @ '']'' @ r) < fuel \<Longrightarrow>
     json_elems (Suc fuel) depth (join_with '','' vts @ '']'' @ r) = Some (vs, r)"
proof (induction vts vs arbitrary: fuel rule: list_all2_induct)
  case (Cons vt vts v vs)
  define t where "t = (if vts = [] then '']'' @ r else '','' @ join_with '','' vts @ '']'' @ r)"
  have shape: "join_with '','' (vt # vts) @ '']'' @ r = vt @ t" by (cases vts) (simp_all add: t_def)
  have small: "2 * length (vt @ t) < fuel" using Cons.prems(3) unfolding shape .
  have t: "ends_value t" by (simp add: t_def)
  note step = elems_step [OF Cons.hyps(1) Cons.prems(2) t small]
  show ?case
  proof (cases vts)
    case Nil
    then show ?thesis using Cons.hyps(2) unfolding shape step by (simp add: t_def expect_here)
  next
    case (Cons vt' vts')
    obtain g where g: "fuel = Suc g" "2 * length (join_with '','' vts @ '']'' @ r) < g"
      using small Cons by (cases fuel) (auto simp: t_def)
    have "json_elems fuel depth (join_with '','' vts @ '']'' @ r) = Some (vs, r)"
      unfolding g(1) using Cons.IH [OF _ Cons.prems(2) g(2)] Cons by simp
    then show ?thesis using Cons unfolding shape step by (simp add: t_def expect_here expect_other)
  qed
qed simp

text \<open>No value starts with a closing bracket.\<close>

lemma reads_deep_start:
  assumes "reads_deep d vt v"
  shows "expect (CHR '']'') (vt @ '','' @ r) = None" "expect (CHR '']'') (vt @ '']'' @ r) = None"
proof -
  have "expect (CHR '']'') (vt @ c # r) = None" if "ends_value (c # r)" for c
  proof (rule ccontr)
    assume "expect (CHR '']'') (vt @ c # r) \<noteq> None"
    then have sk: "skip_ws (vt @ c # r) \<noteq> []" "hd (skip_ws (vt @ c # r)) = CHR '']''"
      by (auto simp: expect_def split: if_splits)
    then obtain q where q: "skip_ws (vt @ c # r) = CHR '']'' # q" by (cases "skip_ws (vt @ c # r)") auto
    have "json_scalar (CHR '']'' # q) = None"
      by (simp add: json_scalar_def has_prefix_def json_number_def num_int_def is_digit_def less_eq_char_def)
    then have "json_value (Suc (2 * length (vt @ c # r))) d (vt @ c # r) = None"
      using q by (simp add: Let_def)
    then show False using reads_deepD [OF assms that, of d "Suc (2 * length (vt @ c # r))"] by simp
  qed
  then show "expect (CHR '']'') (vt @ '','' @ r) = None" "expect (CHR '']'') (vt @ '']'' @ r) = None" by simp_all
qed

lemma array_reads_deep:
  assumes "list_all2 (reads_deep d) vts vs"
  shows "reads_deep (Suc d) (json_array vts) (JArr vs)"
  unfolding reads_deep_def
proof (intro allI impI)
  fix fuel depth r
  assume depth: "Suc d \<le> depth" and "2 * length (json_array vts @ r) < fuel"
  then obtain f where f: "fuel = Suc (Suc f)" "2 * length (join_with '','' vts @ '']'' @ r) < f"
    by (cases fuel; cases "fuel - 1") (auto simp: json_array_def)
  show "json_value fuel depth (json_array vts @ r) = Some (JArr vs, r)"
  proof (cases vts)
    case Nil
    then have "vs = []" using assms by simp
    then show ?thesis using Nil depth unfolding f(1) json_array_def by (simp add: skip_ws_id expect_here)
  next
    case (Cons vt vts')
    then obtain v where v: "reads_deep d vt v" using assms by (auto simp: list_all2_Cons1)
    have "expect (CHR '']'') (join_with '','' vts @ '']'' @ r) = None"
      using reads_deep_start [OF v] Cons by (cases vts') simp_all
    moreover have "json_elems (Suc f) (depth - 1) (join_with '','' vts @ '']'' @ r) = Some (vs, r)"
      using Cons depth by (intro elems_read_deep [OF assms _ _ f(2)]) simp_all
    ultimately show ?thesis using depth unfolding f(1) json_array_def
      by (simp add: skip_ws_id del: json_elems.simps)
  qed
qed

lemma deep_decode:
  assumes "reads_deep d vt v" "d \<le> max_nesting"
  shows "json_decode vt = Some (v, [])" "json_unmarshal vt = Some v"
  using reads_deepD [OF assms(1) _ assms(2), of "[]" "Suc (2 * length vt)"]
  by (simp_all add: json_decode_def json_unmarshal_def skip_ws_def)

end
