(* ===== verification/Api_Json.thy ===== *)
theory Api_Json
  imports Api Go_Json Go_Crypto
begin

text \<open>
  The JSON texts of the API (\<open>internal/api/handler.go\<close>): the body of a submission as
  \<open>json.Decoder\<close> reads it into a \<open>SubmitRequest\<close>, and the bodies \<open>json.Encoder\<close> writes.
\<close>

section \<open>Bodies\<close>


definition error_fields :: "string \<Rightarrow> string \<Rightarrow> string \<Rightarrow> (string \<times> string) list" where
  "error_fields errcode message requestID =
     [text_field ''error'' errcode, text_field ''message'' message]
     @ (if requestID = '''' then [] else [text_field ''request_id'' requestID])"

definition submit_fields :: "string \<Rightarrow> string \<Rightarrow> bool \<Rightarrow> (string \<times> string) list" where
  "submit_fields jobID statusURL idempotent =
     [text_field ''job_id'' jobID, text_field ''status_url'' statusURL]
     @ (if idempotent then [(''idempotent'', ''true'')] else [])"

text \<open>A map is written with its keys sorted.\<close>

definition status_fields :: "string \<Rightarrow> string \<Rightarrow> JobStatus \<Rightarrow> string \<Rightarrow> (string \<times> string) list" where
  "status_fields jobID url status err =
     [text_field ''error'' err, text_field ''job_id'' jobID, text_field ''status'' (status_text status),
      text_field ''url'' url]"

text \<open>What \<open>Encode\<close> or \<open>Write\<close> sends; the OpenAPI document is a parameter here.\<close>

fun body_text :: "string \<Rightarrow> response_body \<Rightarrow> string" where
  "body_text openapi (ErrorResponse c m i) = json_object (error_fields c m i) @ [CHR 0x0A]"
| "body_text openapi (SubmitResponse j u b) = json_object (submit_fields j u b) @ [CHR 0x0A]"
| "body_text openapi (JobStatusBody j u s e) = json_object (status_fields j u s e) @ [CHR 0x0A]"
| "body_text openapi (PdfBody bs) = bytes_string bs"
| "body_text openapi (JsonMap kvs) = json_object (map (\<lambda>(k, v). text_field k v) (sort_key fst kvs)) @ [CHR 0x0A]"
| "body_text openapi OpenAPIBody = openapi"

section \<open>Reading a submission\<close>

text \<open>
  \<open>Decode\<close> into a \<open>SubmitRequest\<close>: names match in any letter case, unknown names are skipped, null
  leaves a field alone, any other type is an error. The reader stops after the first value; what
  follows it is not read. The body is cut off at 1 MiB: a value that is complete by then is
  decoded, though a bare \<open>null\<close> would need one more byte to end.
\<close>

definition set_submit_text :: "json \<Rightarrow> (string \<Rightarrow> SubmitRequest) \<Rightarrow> SubmitRequest \<Rightarrow> SubmitRequest option" where
  "set_submit_text v upd q = (case v of JNull \<Rightarrow> Some q | JStr _ s \<Rightarrow> Some (upd s) | _ \<Rightarrow> None)"

definition submit_member :: "string \<times> json \<Rightarrow> SubmitRequest \<Rightarrow> SubmitRequest option" where
  "submit_member m q =
     (case m of (k, v) \<Rightarrow>
        if equal_fold k ''url'' then set_submit_text v (\<lambda>s. q\<lparr>req_URL := s\<rparr>) q
        else if equal_fold k ''idempotency_key'' then set_submit_text v (\<lambda>s. q\<lparr>req_IdempotencyKey := s\<rparr>) q
        else if equal_fold k ''callback_url'' then set_submit_text v (\<lambda>s. q\<lparr>req_CallbackURL := s\<rparr>) q
        else Some q)"

fun submit_members :: "(string \<times> json) list \<Rightarrow> SubmitRequest \<Rightarrow> SubmitRequest option" where
  "submit_members [] q = Some q"
| "submit_members (m # ms) q =
     (case submit_member m q of None \<Rightarrow> None | Some q' \<Rightarrow> submit_members ms q')"

definition empty_submit :: SubmitRequest where
  "empty_submit = \<lparr>req_URL = '''', req_IdempotencyKey = '''', req_CallbackURL = ''''\<rparr>"

definition max_body :: nat where "max_body = 2 ^ 20"

definition decode_submit :: "string \<Rightarrow> SubmitRequest result" where
  "decode_submit data =
     (case json_decode (take max_body data) of
        Some (JObj ms, _) \<Rightarrow>
          (case submit_members ms empty_submit of None \<Rightarrow> Inl (ErrNew ''json'') | Some q \<Rightarrow> Inr q)
      | Some (JNull, r) \<Rightarrow> if r = [] \<and> max_body < length data then Inl (ErrNew ''json'') else Inr empty_submit
      | _ \<Rightarrow> Inl (ErrNew ''json''))"

section \<open>Submissions survive\<close>

lemma submit_names:
  "equal_fold ''url'' ''url''" "\<not> equal_fold ''idempotency_key'' ''url''" "\<not> equal_fold ''callback_url'' ''url''"
  "equal_fold ''idempotency_key'' ''idempotency_key''" "\<not> equal_fold ''callback_url'' ''idempotency_key''"
  "equal_fold ''callback_url'' ''callback_url''"
  "utf8_valid ''url''" "utf8_valid ''idempotency_key''" "utf8_valid ''callback_url''"
  by code_simp+

lemma text_member_ok: "utf8_valid k \<Longrightarrow> utf8_valid s \<Longrightarrow> member_ok (k, json_string s, JStr (json_escape s) s)"
  by (simp add: member_ok_def json_string_reads)

text \<open>Each text field of a submission is read back as it was written; a field left out is empty.\<close>

lemma decode_submit_url:
  assumes "utf8_valid u" and "length (json_object [text_field ''url'' u]) \<le> max_body"
  shows "decode_submit (json_object [text_field ''url'' u])
    = Inr \<lparr>req_URL = u, req_IdempotencyKey = '''', req_CallbackURL = ''''\<rparr>"
proof -
  let ?ms = "[(''url'', json_string u, JStr (json_escape u) u)]"
  have "json_decode (json_object (map (\<lambda>(k, vt, v). (k, vt)) ?ms) @ [])
      = Some (JObj (map (\<lambda>(k, vt, v). (k, v)) ?ms), [])"
    by (rule json_object_decode) (simp_all add: text_member_ok submit_names assms(1) del: equal_fold.simps)
  then show ?thesis using assms(2)
    by (simp add: decode_submit_def text_field_def submit_member_def set_submit_text_def submit_names
        empty_submit_def del: equal_fold.simps)
qed

lemma decode_submit_all:
  assumes "utf8_valid u" "utf8_valid k" "utf8_valid c"
    and "length (json_object [text_field ''url'' u, text_field ''idempotency_key'' k, text_field ''callback_url'' c]) \<le> max_body"
  shows "decode_submit (json_object [text_field ''url'' u, text_field ''idempotency_key'' k, text_field ''callback_url'' c])
    = Inr \<lparr>req_URL = u, req_IdempotencyKey = k, req_CallbackURL = c\<rparr>"
proof -
  let ?ms = "[(''url'', json_string u, JStr (json_escape u) u),
    (''idempotency_key'', json_string k, JStr (json_escape k) k),
    (''callback_url'', json_string c, JStr (json_escape c) c)]"
  have "json_decode (json_object (map (\<lambda>(k, vt, v). (k, vt)) ?ms) @ [])
      = Some (JObj (map (\<lambda>(k, vt, v). (k, v)) ?ms), [])"
    by (rule json_object_decode) (simp_all add: text_member_ok submit_names assms(1-3) del: equal_fold.simps)
  then show ?thesis using assms(4)
    by (simp add: decode_submit_def text_field_def submit_member_def set_submit_text_def submit_names
        empty_submit_def del: equal_fold.simps)
qed

section \<open>Every text is readable JSON\<close>

text \<open>Text that is not UTF-8 is written with replacement characters, so it is read back as some text.\<close>

lemma unquote_replacement: "unquote_step (bslash # ''ufffd'' @ t) = Some (utf8_encode 0xFFFD, t)"
proof -
  have "hex_val (CHR ''f'') = Some 15" "hex_val (CHR ''d'') = Some 13" by code_simp+
  then show ?thesis by (simp add: unquote_step_def unescape_rune_def)
qed

definition escape_piece :: "string \<Rightarrow> string" where
  "escape_piece s =
     (if rune_size s = None then bslash # ''ufffd''
      else let r = take (the (rune_size s)) s
           in if r = [CHR 0xE2, CHR 0x80, CHR 0xA8] then bslash # ''u2028''
              else if r = [CHR 0xE2, CHR 0x80, CHR 0xA9] then bslash # ''u2029'' else r)"

lemma unquote_piece:
  assumes "s \<noteq> []" and "\<not> byte (hd s) < 0x80"
  shows "\<exists>d. \<forall>t. unquote_step (escape_piece s @ t) = Some (d, t) \<and> hd (escape_piece s @ t) \<noteq> quote"
proof (cases "rune_size s")
  case None
  have "unquote_step (escape_piece s @ t) = Some (utf8_encode 0xFFFD, t)" for t
    using None unquote_replacement [of t] by (simp add: escape_piece_def)
  then show ?thesis using None by (auto simp: escape_piece_def)
next
  case (Some n)
  have "unquote_step (escape_piece s @ t) = Some (take n s, t) \<and> hd (escape_piece s @ t) \<noteq> quote" for t
    using unquote_rune [OF Some assms(2), of t] unquote_line_separator [of t] Some
    by (simp add: escape_piece_def Let_def split: if_splits)
  then show ?thesis by blast
qed

lemma json_unquote_any: "\<exists>t. \<forall>r. json_unquote (json_escape s @ quote # r) = Some (t, r)"
proof (induction s rule: json_escape.induct)
  case (1 s)
  have piece: "\<exists>t. \<forall>r. json_unquote (w @ json_escape u @ quote # r) = Some (t, r)"
    if step: "\<And>v. unquote_step (w @ v) = Some (d, v) \<and> hd (w @ v) \<noteq> quote"
      and rest: "\<exists>t. \<forall>r. json_unquote (json_escape u @ quote # r) = Some (t, r)" for w d u
  proof -
    have "json_unquote (w @ json_escape u @ quote # r)
        = map_option (\<lambda>(ds, r'). (d @ ds, r')) (json_unquote (json_escape u @ quote # r))" for r
      using step by (intro json_unquote_step) auto
    then show ?thesis using rest by auto
  qed
  show ?case
  proof (cases "s = []")
    case True
    then show ?thesis by (simp add: json_escape.simps json_unquote_end)
  next
    case nonempty: False
    show ?thesis
    proof (cases "byte (hd s) < 0x80")
      case True
      have "json_escape s = escape_ascii (hd s) @ json_escape (tl s)"
        using True nonempty by (subst json_escape.simps) simp
      moreover have "hd (escape_ascii (hd s) @ v) \<noteq> quote" for v
        using escape_ascii_head [of "hd s"] by auto
      ultimately show ?thesis
        using piece [of "escape_ascii (hd s)" "[hd s]" "tl s"] unquote_escape_ascii [OF True]
          1(1) [OF nonempty True] by simp
    next
      case False
      obtain d where d: "\<And>t. unquote_step (escape_piece s @ t) = Some (d, t) \<and> hd (escape_piece s @ t) \<noteq> quote"
        using unquote_piece [OF nonempty False] by blast
      show ?thesis
      proof (cases "rune_size s")
        case None
        then have "json_escape s = escape_piece s @ json_escape (tl s)"
          using nonempty False by (subst json_escape.simps) (simp add: escape_piece_def)
        then show ?thesis using piece [OF d 1(2) [OF nonempty False None]] by simp
      next
        case (Some n)
        then have "json_escape s = escape_piece s @ json_escape (drop n s)"
          using nonempty False by (subst json_escape.simps) (simp add: escape_piece_def Let_def)
        moreover have "\<exists>t. \<forall>r. json_unquote (json_escape (drop n s) @ quote # r) = Some (t, r)"
          using 1(3) [OF nonempty False] Some by simp
        ultimately show ?thesis using piece [OF d] by simp
      qed
    qed
  qed
qed

lemma text_reads: "\<exists>t. reads_as (json_string s) (JStr (json_escape s) t)"
proof -
  obtain t where "\<And>r. json_unquote (json_escape s @ quote # r) = Some (t, r)"
    using json_unquote_any by blast
  then have "json_value (Suc fuel) depth (quote # json_escape s @ [quote] @ r) = Some (JStr (json_escape s) t, r)"
    for fuel depth r
    by (intro quoted_reads) simp
  then show ?thesis by (auto simp: reads_as_def json_string_def)
qed

end
