(* ===== verification/Go_Mux.thy ===== *)
theory Go_Mux
  imports Go_Url
begin

text \<open>
  The request multiplexer of the standard library (\<open>net/http.ServeMux\<close>, Go 1.22 and later) as far
  as \<open>cmd/server/main.go\<close> uses it: patterns of a method and a path of literal segments, named
  wildcards and a trailing slash, without a host. A request is matched segment by segment, a
  literal before a wildcard before the rest of a tree, with backtracking; a path that is not clean
  is redirected, and a path that only another method serves is answered 405.
\<close>

section \<open>Patterns\<close>

datatype seg = Lit string | Wild string | Rest

definition pattern_seg :: "string \<Rightarrow> seg" where
  "pattern_seg s = (if s = [] then Rest else if hd s = CHR ''{'' then Wild (butlast (tl s)) else Lit s)"

definition parse_pattern :: "string \<Rightarrow> string \<times> seg list" where
  "parse_pattern text =
     (case cut text CHR '' '' of (meth, path, _) \<Rightarrow> (meth, map pattern_seg (split_on CHR ''/'' (tl path))))"

fun wild_names :: "seg list \<Rightarrow> string list" where
  "wild_names [] = []"
| "wild_names (Wild n # ts) = n # wild_names ts"
| "wild_names (_ # ts) = wild_names ts"

section \<open>Paths\<close>

text \<open>\<open>path.Clean\<close> of a rooted path, and \<open>cleanPath\<close>, which keeps a trailing slash.\<close>

fun clean_step :: "string list \<Rightarrow> string \<Rightarrow> string list" where
  "clean_step acc s = (if s = '''' \<or> s = ''.'' then acc else if s = ''..'' then butlast acc else acc @ [s])"

definition path_clean :: "string \<Rightarrow> string" where
  "path_clean p = CHR ''/'' # join_with ''/'' (foldl clean_step [] (split_on CHR ''/'' (tl p)))"

definition clean_path :: "string \<Rightarrow> string" where
  "clean_path p =
     (if p = '''' then ''/''
      else let p' = (if hd p = CHR ''/'' then p else CHR ''/'' # p); np = path_clean p'
           in if last p' = CHR ''/'' \<and> np \<noteq> ''/'' then np @ ''/'' else np)"

text \<open>The segments a path is matched by: decoded one by one, a final slash as a segment of its own.\<close>

definition decode_seg :: "string \<Rightarrow> string" where
  "decode_seg s = (case unescape EncodePathSegment s of None \<Rightarrow> s | Some t \<Rightarrow> t)"

definition path_segs :: "string \<Rightarrow> string list" where
  "path_segs p =
     (let ss = split_on CHR ''/'' (tl p)
      in map decode_seg (butlast ss) @ [if last ss = [] then ''/'' else decode_seg (last ss)])"

section \<open>Matching\<close>

definition after_lit :: "string \<Rightarrow> (seg list \<times> 'h) list \<Rightarrow> (seg list \<times> 'h) list" where
  "after_lit s ps =
     List.map_filter (\<lambda>(ts, h). case ts of Lit t # us \<Rightarrow> if t = s then Some (us, h) else None | _ \<Rightarrow> None) ps"

definition after_wild :: "(seg list \<times> 'h) list \<Rightarrow> (seg list \<times> 'h) list" where
  "after_wild ps = List.map_filter (\<lambda>(ts, h). case ts of Wild _ # us \<Rightarrow> Some (us, h) | _ \<Rightarrow> None) ps"

definition whole :: "seg list \<Rightarrow> (seg list \<times> 'h) list \<Rightarrow> 'h option" where
  "whole ts ps = map_option snd (List.find (\<lambda>(us, h). us = ts) ps)"

fun match_segs :: "(seg list \<times> 'h) list \<Rightarrow> string list \<Rightarrow> ('h \<times> string list) option" where
  "match_segs ps [] = map_option (\<lambda>h. (h, [])) (whole [] ps)"
| "match_segs ps (s # ss) =
     (case match_segs (after_lit s ps) ss of
        Some r \<Rightarrow> Some r
      | None \<Rightarrow>
          (case (if s = ''/'' then None else match_segs (after_wild ps) ss) of
             Some (h, ms) \<Rightarrow> Some (h, s # ms)
           | None \<Rightarrow> map_option (\<lambda>h. (h, [])) (whole [Rest] ps)))"

text \<open>A registered route: its pattern's text and its handler.\<close>

type_synonym 'h mux = "(string \<times> 'h) list"

definition for_method :: "string \<Rightarrow> 'h mux \<Rightarrow> (seg list \<times> string \<times> 'h) list" where
  "for_method meth m =
     List.map_filter (\<lambda>(text, h). case parse_pattern text of (k, ts) \<Rightarrow>
        if k = meth then Some (ts, text, h) else None) m"

definition match_method :: "'h mux \<Rightarrow> string \<Rightarrow> string \<Rightarrow> ((string \<times> 'h) \<times> string list) option" where
  "match_method m meth path =
     (case match_segs (for_method meth m) (path_segs path) of
        Some r \<Rightarrow> Some r
      | None \<Rightarrow> if meth = ''HEAD'' then match_segs (for_method ''GET'' m) (path_segs path) else None)"

definition methods_of :: "'h mux \<Rightarrow> string list" where
  "methods_of m = remdups (map (\<lambda>(text, _). fst (parse_pattern text)) m)"

definition matching_methods :: "'h mux \<Rightarrow> string \<Rightarrow> string list" where
  "matching_methods m path =
     (let hit = (\<lambda>k. match_segs (for_method k m) (path_segs path) \<noteq> None
                  \<or> last path \<noteq> CHR ''/'' \<and> match_segs (for_method k m) (path_segs (path @ ''/'')) \<noteq> None);
          ms = filter hit (methods_of m)
      in sort (remdups (if ''GET'' \<in> set ms then ''HEAD'' # ms else ms)))"

section \<open>Dispatch\<close>

text \<open>
  \<open>Found\<close> carries the pattern and the path values. The redirect of a path to the same path with a
  slash, which needs a pattern below the root that ends in a slash, is left out: the program
  registers none.
\<close>

datatype 'h outcome =
    Found string 'h "(string \<times> string) list"
  | Moved string string
  | MethodNotAllowed "string list"
  | NotFound

definition mux_find :: "'h mux \<Rightarrow> string \<Rightarrow> string \<Rightarrow> 'h outcome" where
  "mux_find m meth escaped =
     (let path = (if meth = ''CONNECT'' then escaped else clean_path escaped);
          r = match_method m meth path
      in if path \<noteq> escaped then Moved path (case r of None \<Rightarrow> '''' | Some ((pat, _), _) \<Rightarrow> pat)
         else (case r of
                 Some ((pat, h), ms) \<Rightarrow> Found pat h (zip (wild_names (snd (parse_pattern pat))) ms)
               | None \<Rightarrow> (let allowed = matching_methods m path
                          in if allowed \<noteq> [] then MethodNotAllowed allowed else NotFound)))"

definition path_value :: "(string \<times> string) list \<Rightarrow> string \<Rightarrow> string" where
  "path_value ms name = (case map_of ms name of None \<Rightarrow> '''' | Some v \<Rightarrow> v)"

end
