(* ===== verification/Go_Format.thy ===== *)
theory Go_Format
  imports Go_Json Go_Float
begin

text \<open>
  Two formatters of the standard library: \<open>strconv.Quote\<close> (the verb \<open>%q\<close>) and the shortest decimal
  text of a \<open>float64\<close> (\<open>strconv.FormatFloat\<close> with format \<open>f\<close> and precision -1). Which runes
  outside ASCII are printable is a table of Unicode and a parameter.
\<close>

section \<open>Quoting\<close>

text \<open>The rune that valid UTF-8 bytes stand for.\<close>

definition decode_rune :: "string \<Rightarrow> nat" where
  "decode_rune s =
     (case map of_char s of
        [a] \<Rightarrow> a
      | [a, b] \<Rightarrow> a mod 32 * 64 + b mod 64
      | [a, b, c] \<Rightarrow> a mod 16 * 4096 + b mod 64 * 64 + c mod 64
      | [a, b, c, d] \<Rightarrow> a mod 8 * 262144 + b mod 64 * 4096 + c mod 64 * 64 + d mod 64
      | _ \<Rightarrow> 0)"

fun hex_text :: "nat \<Rightarrow> nat \<Rightarrow> string" where
  "hex_text 0 n = []"
| "hex_text (Suc w) n = hex_text w (n div 16) @ [hex_digit (n mod 16)]"

definition ascii_print :: "char \<Rightarrow> bool" where
  "ascii_print c \<longleftrightarrow> 0x20 \<le> byte c \<and> byte c < 0x7F"

definition quote_ascii :: "char \<Rightarrow> string" where
  "quote_ascii c =
     (if c = quote \<or> c = bslash then [bslash, c]
      else if ascii_print c then [c]
      else if c = CHR 0x07 then bslash # ''a''
      else if c = CHR 0x08 then bslash # ''b''
      else if c = CHR 0x0C then bslash # ''f''
      else if c = CHR 0x0A then bslash # ''n''
      else if c = CHR 0x0D then bslash # ''r''
      else if c = CHR 0x09 then bslash # ''t''
      else if c = CHR 0x0B then bslash # ''v''
      else bslash # ''x'' @ hex_text 2 (byte c))"

definition quote_rune :: "(nat \<Rightarrow> bool) \<Rightarrow> string \<Rightarrow> string" where
  "quote_rune is_print r =
     (if is_print (decode_rune r) then r
      else if decode_rune r < 0x10000 then bslash # ''u'' @ hex_text 4 (decode_rune r)
      else bslash # ''U'' @ hex_text 8 (decode_rune r))"

function quote_body :: "(nat \<Rightarrow> bool) \<Rightarrow> string \<Rightarrow> string" where
  "quote_body is_print s =
     (if s = [] then []
      else if byte (hd s) < 0x80 then quote_ascii (hd s) @ quote_body is_print (tl s)
      else if rune_size s = None then bslash # ''x'' @ hex_text 2 (byte (hd s)) @ quote_body is_print (tl s)
      else quote_rune is_print (take (the (rune_size s)) s)
             @ quote_body is_print (drop (the (rune_size s)) s))"
  by pat_completeness auto
termination
  by (relation "measure (\<lambda>(_, s). length s)") (auto simp: rune_size_shorter)

declare quote_body.simps [simp del]

definition go_quote :: "(nat \<Rightarrow> bool) \<Rightarrow> string \<Rightarrow> string" where
  "go_quote is_print s = quote # quote_body is_print s @ [quote]"

abbreviation is_ascii :: "string \<Rightarrow> bool" where
  "is_ascii s \<equiv> list_all (\<lambda>c. byte c < 0x80) s"

lemma quote_body_Nil [simp]: "quote_body p [] = []"
  by (simp add: quote_body.simps)

lemma quote_body_Cons [simp]: "byte c < 0x80 \<Longrightarrow> quote_body p (c # s) = quote_ascii c @ quote_body p s"
  by (subst quote_body.simps) simp

lemma quote_body_ascii: "is_ascii s \<Longrightarrow> quote_body p s = concat (map quote_ascii s)"
  by (induction s) auto

section \<open>Decimal texts of floats\<close>

text \<open>
  A finite \<open>float64\<close> has the exact decimal expansion \<open>m0 / 10 ^ k\<close>. The text is the shortest
  decimal that rounds to it: the digits of \<open>m0\<close> are cut off and rounded, as many as possible;
  of two neighbours that both round to the value the nearer one is taken.
\<close>

definition neighbours :: "nat \<Rightarrow> nat \<Rightarrow> nat list" where
  "neighbours t m0 =
     (let a = m0 div 10 ^ t; r = m0 mod 10 ^ t
      in if 2 * r < 10 ^ t \<or> 2 * r = 10 ^ t \<and> even a then [a, a + 1] else [a + 1, a])"

fun shortest :: "rat \<Rightarrow> nat \<Rightarrow> nat \<Rightarrow> nat \<Rightarrow> nat" where
  "shortest v k m0 0 = m0"
| "shortest v k m0 (Suc t) =
     (case filter (\<lambda>m. float_round (of_nat (m * 10 ^ Suc t) / 10 ^ k) = v) (neighbours (Suc t) m0) of
        m # _ \<Rightarrow> m * 10 ^ Suc t
      | [] \<Rightarrow> shortest v k m0 t)"

definition strip_zeros :: "string \<Rightarrow> string" where
  "strip_zeros s = rev (dropWhile (\<lambda>c. c = CHR ''0'') (rev s))"

definition decimal_text :: "nat \<Rightarrow> nat \<Rightarrow> string" where
  "decimal_text m k =
     itoa_nat (m div 10 ^ k)
     @ (if m mod 10 ^ k = 0 then [] else CHR ''.'' # strip_zeros (digits k (m mod 10 ^ k)))"

definition expansion :: "rat \<Rightarrow> nat \<times> nat" where
  "expansion x =
     (case quotient_of x of (p, q) \<Rightarrow>
        let k = nat (bitlen q) in (nat (p * 10 ^ k div q), k))"

definition format_pos :: "rat \<Rightarrow> string" where
  "format_pos x =
     (case expansion x of (m0, k) \<Rightarrow> decimal_text (shortest x k m0 (length (itoa_nat m0))) k)"

definition format_float :: "rat \<Rightarrow> string" where
  "format_float x = (if x < 0 then CHR ''-'' # format_pos (- x) else format_pos x)"

section \<open>The text denotes the float\<close>

text \<open>The number a decimal text denotes.\<close>

definition read_unsigned :: "string \<Rightarrow> rat option" where
  "read_unsigned s =
     (case cut s (CHR ''.'') of (a, f, point) \<Rightarrow>
        if a = [] then None
        else (case (digits_val 0 a, digits_val 0 f) of
                (Some n, Some m) \<Rightarrow> Some (of_nat n + of_nat m / 10 ^ length f)
              | _ \<Rightarrow> None))"

definition read_decimal :: "string \<Rightarrow> rat option" where
  "read_decimal s =
     (if s \<noteq> [] \<and> hd s = CHR ''-'' then map_option uminus (read_unsigned (tl s)) else read_unsigned s)"

lemma digits_val_itoa: "digits_val 0 (itoa_nat n) = Some n"
proof (induction n rule: itoa_nat.induct)
  case (1 n)
  show ?case
  proof (cases "n < 10")
    case True
    then show ?thesis by (subst itoa_nat.simps) simp
  next
    case False
    then show ?thesis using 1 by (subst itoa_nat.simps) (simp add: digits_val_append)
  qed
qed

lemma digits_val_zeros: "digits_val m (replicate j (CHR ''0'')) = Some (m * 10 ^ j)"
proof (induction j arbitrary: m)
  case (Suc j)
  have "is_digit (CHR ''0'')" "digit_val (CHR ''0'') = 0" by code_simp+
  then show ?case using Suc [of "10 * m"] by (simp add: algebra_simps)
qed simp

lemma digit_not_point: "is_digit c \<Longrightarrow> c \<noteq> CHR ''.''"
  by (auto simp: is_digit_def less_eq_char_def)

lemma digits_val_Some: "list_all is_digit s \<Longrightarrow> \<exists>m. digits_val n s = Some m"
  by (induction s arbitrary: n) auto

lemma strip_zeros_val:
  assumes "n < 10 ^ k"
  shows "\<exists>m. digits_val 0 (strip_zeros (digits k n)) = Some m
     \<and> of_nat m / (10::rat) ^ length (strip_zeros (digits k n)) = of_nat n / 10 ^ k"
    "list_all is_digit (strip_zeros (digits k n))"
proof -
  define p where "p = strip_zeros (digits k n)"
  obtain j where j: "digits k n = p @ replicate j (CHR ''0'')"
    using strip_replicate [of "digits k n" "CHR ''0''"] unfolding p_def strip_zeros_def by blast
  have "\<forall>x \<in> set (digits k n). is_digit x" using digits_are_digits by blast
  then have "list_all is_digit p" unfolding j by (simp add: list_all_iff)
  then show dig: "list_all is_digit (strip_zeros (digits k n))" by (simp only: p_def)
  have k: "k = length p + j" using arg_cong [OF j, of length] by simp
  obtain m where m: "digits_val 0 p = Some m" using digits_val_Some dig unfolding p_def by blast
  have "Some n = Some (m * 10 ^ j)"
    using digits_val_digits [OF assms] m unfolding j by (simp add: digits_val_append digits_val_zeros)
  then have "n = m * 10 ^ j" by simp
  then have "of_nat m / (10::rat) ^ length p = of_nat n / 10 ^ k"
    by (simp add: k power_add)
  then show "\<exists>m. digits_val 0 (strip_zeros (digits k n)) = Some m
     \<and> of_nat m / (10::rat) ^ length (strip_zeros (digits k n)) = of_nat n / 10 ^ k"
    using m unfolding p_def by blast
qed

lemma cut_digits:
  assumes "list_all is_digit s"
  shows "cut (s @ CHR ''.'' # r) (CHR ''.'') = (s, r, True)" "cut s (CHR ''.'') = (s, [], False)"
proof -
  have s: "\<forall>x \<in> set s. x \<noteq> CHR ''.''" using assms digit_not_point by (auto simp: list_all_iff)
  then have "takeWhile (\<lambda>x. x \<noteq> CHR ''.'') (s @ CHR ''.'' # r) = s"
    "dropWhile (\<lambda>x. x \<noteq> CHR ''.'') (s @ CHR ''.'' # r) = CHR ''.'' # r"
    by (simp_all add: takeWhile_append2 dropWhile_append2)
  then show "cut (s @ CHR ''.'' # r) (CHR ''.'') = (s, r, True)" by (simp add: cut_def)
  have "takeWhile (\<lambda>x. x \<noteq> CHR ''.'') s = s" "dropWhile (\<lambda>x. x \<noteq> CHR ''.'') s = []"
    using s by (simp_all only: takeWhile_eq_all_conv dropWhile_eq_Nil_conv)
  moreover have "CHR ''.'' \<notin> set s" using s by blast
  ultimately show "cut s (CHR ''.'') = (s, [], False)" by (simp only: cut_def list.sel simp_thms)
qed

lemma read_decimal_text: "read_decimal (decimal_text m k) = Some (of_nat m / 10 ^ k)"
proof -
  let ?a = "m div 10 ^ k" and ?f = "m mod 10 ^ k"
  have a: "list_all is_digit (itoa_nat ?a)" using itoa_nat_digits by (auto simp: list_all_iff)
  obtain c cs where c: "itoa_nat ?a = c # cs" by (meson itoa_nat_nonempty neq_Nil_conv)
  then have "c \<noteq> CHR ''-''" using itoa_nat_digits [of c ?a] digit_not_sign by auto
  then have sign: "read_decimal (itoa_nat ?a @ r) = read_unsigned (itoa_nat ?a @ r)" for r
    using c by (simp add: read_decimal_def)
  have split: "(of_nat m :: rat) / 10 ^ k = of_nat ?a + of_nat ?f / 10 ^ k"
  proof -
    have "(of_nat m :: rat) = of_nat (?a * 10 ^ k + ?f)" by (simp only: div_mult_mod_eq)
    also have "\<dots> = of_nat ?a * 10 ^ k + of_nat ?f" by (simp only: of_nat_add of_nat_mult of_nat_power of_nat_numeral)
    finally show ?thesis by (simp add: add_divide_distrib)
  qed
  show ?thesis
  proof (cases "?f = 0")
    case True
    then show ?thesis using split sign [of "[]"] cut_digits(2) [OF a]
      by (simp add: decimal_text_def read_unsigned_def digits_val_itoa)
  next
    case False
    have "?f < 10 ^ k" by simp
    then obtain d where d: "digits_val 0 (strip_zeros (digits k ?f)) = Some d"
      "of_nat d / (10::rat) ^ length (strip_zeros (digits k ?f)) = of_nat ?f / 10 ^ k"
      using strip_zeros_val by blast
    show ?thesis using False split sign cut_digits(1) [OF a] d
      by (simp add: decimal_text_def read_unsigned_def digits_val_itoa)
  qed
qed

lemma shortest_rounds:
  "float_round (of_nat m0 / 10 ^ k) = v \<Longrightarrow> float_round (of_nat (shortest v k m0 t) / 10 ^ k) = v"
proof (induction t)
  case (Suc t)
  show ?case
  proof (cases "filter (\<lambda>m. float_round (of_nat (m * 10 ^ Suc t) / 10 ^ k) = v) (neighbours (Suc t) m0)")
    case Nil
    then show ?thesis using Suc by simp
  next
    case (Cons m ms)
    then have "m \<in> set (filter (\<lambda>m. float_round (of_nat (m * 10 ^ Suc t) / 10 ^ k) = v) (neighbours (Suc t) m0))"
      by simp
    then have "float_round (of_nat (m * 10 ^ Suc t) / 10 ^ k) = v" by simp
    then show ?thesis using Cons by simp
  qed
qed simp

definition sgn_int :: "rat \<Rightarrow> int" where
  "sgn_int x = (if x < 0 then - 1 else if x = 0 then 0 else 1)"

lemma pow2_fraction: "\<exists>j. x = of_int N / pow2 k \<longrightarrow> (\<exists>M. x = of_int M / 2 ^ j)"
proof (cases "0 \<le> k")
  case True
  then show ?thesis by (intro exI [of _ "nat k"]) (auto simp: pow2_def)
next
  case False
  then have "x = of_int N / pow2 k \<Longrightarrow> x = of_int (N * 2 ^ nat (- k)) / 2 ^ 0" by (simp add: pow2_def)
  then show ?thesis by blast
qed

lemma float_is_dyadic:
  assumes "float_round x = x"
  shows "\<exists>M j. x = of_int M / 2 ^ j"
proof (cases "x = 0")
  case True
  then show ?thesis by (intro exI [of _ 0]) simp
next
  case False
  have "sgn x = of_int (sgn_int x)" by (simp add: sgn_int_def sgn_if)
  then have "float_round x = of_int (sgn_int x * round_half_even (\<bar>x\<bar> * pow2 (float_scale \<bar>x\<bar>)))
      / pow2 (float_scale \<bar>x\<bar>)"
    using False by (simp only: float_round_def Let_def if_False of_int_mult)
  then have "x = of_int (sgn_int x * round_half_even (\<bar>x\<bar> * pow2 (float_scale \<bar>x\<bar>))) / pow2 (float_scale \<bar>x\<bar>)"
    using assms by simp
  then show ?thesis using pow2_fraction by blast
qed

lemma power_two_divisor: "(q :: int) dvd 2 ^ j \<Longrightarrow> 0 < q \<Longrightarrow> \<exists>i. q = 2 ^ i"
proof (induction j arbitrary: q)
  case 0
  then have "q = 1" by (simp add: zdvd1_eq)
  then show ?case by (intro exI [of _ 0]) simp
next
  case (Suc j)
  show ?case
  proof (cases "even q")
    case True
    then obtain r where r: "q = 2 * r" by blast
    then have "r dvd 2 ^ j" "0 < r" using Suc.prems by simp_all
    then obtain i where "r = 2 ^ i" using Suc.IH by blast
    then show ?thesis using r by (intro exI [of _ "Suc i"]) simp
  next
    case False
    then have "coprime q 2" by simp
    then have "q dvd 2 ^ j" using Suc.prems(1) by (simp add: coprime_dvd_mult_right_iff)
    then show ?thesis using Suc.IH Suc.prems(2) by blast
  qed
qed

text \<open>A non-negative float is \<open>m0 / 10 ^ k\<close> exactly.\<close>

lemma expansion_exact:
  assumes "float_round x = x" "0 \<le> x" "expansion x = (m0, k)"
  shows "of_nat m0 / 10 ^ k = x"
proof -
  obtain p q where pq: "quotient_of x = (p, q)" by (metis surj_pair)
  have q: "0 < q" and x: "x = of_int p / of_int q" and cop: "coprime p q"
    using quotient_of_denom_pos [OF pq] quotient_of_div [OF pq] quotient_of_coprime [OF pq] by auto
  have p: "0 \<le> p" using assms(2) x q by (simp add: zero_le_divide_iff)
  obtain M j where M: "x = of_int M / 2 ^ j" using float_is_dyadic [OF assms(1)] by blast
  have "(of_int (p * 2 ^ j) :: rat) = of_int (M * q)" using x M q by (simp add: field_simps)
  then have "p * 2 ^ j = M * q" by (simp only: of_int_eq_iff)
  then have "q dvd p * 2 ^ j" by simp
  then have "q dvd 2 ^ j" using cop by (simp add: coprime_commute coprime_dvd_mult_right_iff)
  then obtain i where i: "q = 2 ^ i" using power_two_divisor q by blast
  have m: "m0 = nat (p * 10 ^ k div q)" and k: "k = nat (bitlen q)"
    using assms(3) pq by (auto simp: expansion_def Let_def)
  have "q < 2 ^ nat (bitlen q)" using bitlen_bounds [of q] q by simp
  then have "i \<le> k" using i k by (metis less_imp_le power_less_imp_less_exp one_less_numeral_iff semiring_norm(76))
  then have "q dvd 10 ^ k" using i by (metis dvd_trans le_imp_power_dvd dvd_power_same even_numeral)
  then have "q * (p * 10 ^ k div q) = p * 10 ^ k" by simp
  moreover have "0 \<le> p * 10 ^ k div q" using p q by (simp add: div_int_pos_iff)
  ultimately have "of_int q * (of_nat m0 :: rat) = of_int p * 10 ^ k"
    using m by (simp add: of_nat_nat flip: of_int_mult) (metis of_int_mult of_int_numeral of_int_power)
  then show ?thesis unfolding x using q by (simp add: frac_eq_eq mult.commute)
qed

lemma format_pos_reads:
  assumes "float_round x = x" "0 \<le> x"
  shows "\<exists>d. read_decimal (format_pos x) = Some d \<and> float_round d = x"
proof -
  obtain m0 k where e: "expansion x = (m0, k)" by (metis surj_pair)
  have "of_nat m0 / 10 ^ k = x" by (rule expansion_exact [OF assms e])
  then have "float_round (of_nat (shortest x k m0 (length (itoa_nat m0))) / 10 ^ k) = x"
    using assms(1) by (intro shortest_rounds) simp
  then show ?thesis using e by (simp add: format_pos_def read_decimal_text)
qed

lemma float_round_minus: "float_round (- x) = - float_round x"
  by (simp add: float_round_def Let_def)

lemma read_minus: "read_decimal (CHR ''-'' # s) = map_option uminus (read_unsigned s)"
  by (simp add: read_decimal_def)

lemma format_float_reads:
  assumes "float_round x = x"
  shows "\<exists>d. read_decimal (format_float x) = Some d \<and> float_round d = x"
proof (cases "x < 0")
  case False
  then show ?thesis using format_pos_reads [OF assms] by (simp add: format_float_def)
next
  case True
  obtain m0 k where e: "expansion (- x) = (m0, k)" by (metis surj_pair)
  obtain d where d: "read_decimal (format_pos (- x)) = Some d" "float_round d = - x"
    using format_pos_reads [of "- x"] assms True by (auto simp: float_round_minus)
  have "hd (format_pos (- x)) \<noteq> CHR ''-''"
    using itoa_nat_digits digit_not_sign
    by (simp add: format_pos_def e decimal_text_def hd_append) (metis itoa_nat_nonempty hd_in_set)
  then have "read_unsigned (format_pos (- x)) = Some d" using d(1) by (auto simp: read_decimal_def split: if_splits)
  then show ?thesis using True d(2) by (intro exI [of _ "- d"]) (simp add: format_float_def read_minus float_round_minus)
qed

text \<open>Its characters.\<close>

lemma format_float_chars:
  assumes "c \<in> set (format_float x)"
  shows "is_digit c \<or> c = CHR ''.'' \<or> c = CHR ''-''"
proof -
  have strip: "set (strip_zeros s) \<subseteq> set s" for s
    using set_dropWhileD [of _ _ "rev s"] by (auto simp: strip_zeros_def)
  have "is_digit c \<or> c = CHR ''.''" if "c \<in> set (decimal_text m k)" for m k
    using that strip [of "digits k (m mod 10 ^ k)"] itoa_nat_digits digits_are_digits
    by (auto simp: decimal_text_def split: if_splits)
  then show ?thesis using assms by (auto simp: format_float_def format_pos_def split: if_splits prod.splits)
qed

end
