(* ===== verification/Prometheus.thy ===== *)
theory Prometheus
  imports Metrics Go_Format
begin

text \<open>
  A scrape of the metrics (\<open>WritePrometheus\<close> in \<open>internal/observability/metrics.go\<close>): the items it
  writes, their text, and the text read back as the exposition format of Prometheus defines it.
\<close>

section \<open>What a scrape writes\<close>

text \<open>One call of \<open>writeHelp\<close> or one line with a sample: name, labels, value.\<close>

type_synonym sample = "string \<times> (string \<times> string) list \<times> string"

datatype item = Help string string string | Sample sample

abbreviation newline :: char where "newline \<equiv> CHR 0x0A"

definition replace_all :: "char \<Rightarrow> string \<Rightarrow> string \<Rightarrow> string" where
  "replace_all c new s = concat (map (\<lambda>x. if x = c then new else [x]) s)"

definition escapeHelp :: "string \<Rightarrow> string" where
  "escapeHelp help = replace_all newline (bslash # ''n'') (replace_all bslash [bslash, bslash] help)"

definition writeHelp :: "string \<Rightarrow> string \<Rightarrow> string \<Rightarrow> string" where
  "writeHelp name help metricType =
     ''# HELP '' @ name @ '' '' @ escapeHelp help @ [newline]
     @ ''# TYPE '' @ name @ '' '' @ metricType @ [newline]"

definition label_text :: "(nat \<Rightarrow> bool) \<Rightarrow> string \<times> string \<Rightarrow> string" where
  "label_text is_print l = fst l @ CHR ''='' # go_quote is_print (snd l)"

definition sample_text :: "(nat \<Rightarrow> bool) \<Rightarrow> sample \<Rightarrow> string" where
  "sample_text is_print s =
     (case s of (name, labels, value) \<Rightarrow>
        name
        @ (if labels = [] then []
           else CHR ''{'' # join_with '','' (map (label_text is_print) labels) @ ''}'')
        @ '' '' @ value)"

fun item_text :: "(nat \<Rightarrow> bool) \<Rightarrow> item \<Rightarrow> string" where
  "item_text is_print (Help name help ty) = writeHelp name help ty"
| "item_text is_print (Sample s) = sample_text is_print s @ [newline]"

definition counter_text :: "counter \<Rightarrow> string" where
  "counter_text c = itoa_nat (unat c)"

text \<open>
  The lines of one histogram. The buckets are read by index: too short a slice, or none, would
  panic (\<open>None\<close>).
\<close>

definition histogram ::
    "string \<Rightarrow> rat list \<Rightarrow> (string \<times> string) list \<Rightarrow> counter list option \<Rightarrow> counter \<Rightarrow> rat \<Rightarrow> item list option" where
  "histogram name bounds labels buckets cnt tot =
     (let bs = (case buckets of None \<Rightarrow> [] | Some bs \<Rightarrow> bs)
      in if length bs < length bounds then None
         else Some (map2 (\<lambda>upper c. Sample (name @ ''_bucket'', labels @ [(''le'', format_float upper)], counter_text c))
                      bounds bs
                    @ [Sample (name @ ''_bucket'', labels @ [(''le'', ''+Inf'')], counter_text cnt),
                       Sample (name @ ''_sum'', labels, format_float tot),
                       Sample (name @ ''_count'', labels, counter_text cnt)]))"

definition http_labels :: "httpLabel \<Rightarrow> (string \<times> string) list" where
  "http_labels l = [(''method'', lbl_method l), (''path'', lbl_path l), (''code'', lbl_code l)]"

definition render_items :: "metrics \<Rightarrow> item list list option" where
  "render_items m =
     those (map (\<lambda>st. histogram ''chromaflow_pdf_render_duration_seconds'' renderBucketBounds [(''status'', st)]
                         (map_of (renderBuckets m) st) (gm_get0 (renderCount m) st) (gm_get0 (renderSum m) st))
                (sorted_keys (renderCount m)))"

definition http_items :: "metrics \<Rightarrow> item list list option" where
  "http_items m =
     those (map (\<lambda>l. histogram ''chromaflow_http_request_duration_seconds'' httpBucketBounds (http_labels l)
                         (map_of (httpBuckets m) l) (gm_get0 (httpCount m) l) (gm_get0 (httpSum m) l))
                (sorted_keys (httpCount m)))"

definition queue_items :: "(int \<times> int) option \<Rightarrow> item list" where
  "queue_items stats =
     (case stats of
        None \<Rightarrow> []
      | Some (depth, cap) \<Rightarrow>
          [Help ''chromaflow_queue_depth'' ''Current queue depth.'' ''gauge'',
           Sample (''chromaflow_queue_depth'', [], itoa depth),
           Help ''chromaflow_queue_capacity'' ''Configured queue capacity.'' ''gauge'',
           Sample (''chromaflow_queue_capacity'', [], itoa cap)])"

definition storage_items :: "StorageStats option \<Rightarrow> item list" where
  "storage_items stats =
     (case stats of
        None \<Rightarrow> []
      | Some st \<Rightarrow>
          [Help ''chromaflow_jobs_in_storage'' ''Current jobs tracked by status.'' ''gauge'']
          @ map (\<lambda>s. Sample (''chromaflow_jobs_in_storage'', [(''status'', status_text s)],
                             itoa (gm_get0 (ByStatus st) s)))
              (sorted_keys (ByStatus st))
          @ [Help ''chromaflow_storage_jobs_total'' ''Current total jobs tracked.'' ''gauge'',
             Sample (''chromaflow_storage_jobs_total'', [], itoa (Total st)),
             Help ''chromaflow_storage_pdf_bytes'' ''Current completed PDF bytes tracked in storage metadata.'' ''gauge'',
             Sample (''chromaflow_storage_pdf_bytes'', [], itoa (PDFBytes st))]
          @ (if time_is_zero (OldestJobAt st) then []
             else [Help ''chromaflow_storage_oldest_job_timestamp_seconds''
                     ''Unix timestamp for oldest job tracked in memory.'' ''gauge'',
                   Sample (''chromaflow_storage_oldest_job_timestamp_seconds'', [],
                           itoa (unix_seconds (OldestJobAt st)))]))"

definition counter_samples :: "string \<Rightarrow> string \<Rightarrow> (string, counter) gomap \<Rightarrow> item list" where
  "counter_samples name label m =
     map (\<lambda>k. Sample (name, [(label, k)], counter_text (gm_get0 m k))) (sorted_keys m)"

definition scrape :: "metrics \<Rightarrow> (int \<times> int) option \<Rightarrow> StorageStats option \<Rightarrow> item list option" where
  "scrape m queueStats storageStats =
     (case (render_items m, http_items m) of
        (Some renders, Some https) \<Rightarrow> Some (
          [Help ''chromaflow_jobs_submitted_total'' ''Total PDF jobs accepted by ChromaFlow.'' ''counter'',
           Sample (''chromaflow_jobs_submitted_total'', [], counter_text (jobsSubmitted m)),
           Help ''chromaflow_jobs_rejected_total'' ''Total PDF jobs rejected before enqueueing.'' ''counter'']
          @ counter_samples ''chromaflow_jobs_rejected_total'' ''reason'' (jobsRejected m)
          @ [Help ''chromaflow_jobs_finished_total'' ''Total PDF render jobs finished by terminal status.'' ''counter'']
          @ counter_samples ''chromaflow_jobs_finished_total'' ''status'' (jobsFinished m)
          @ [Help ''chromaflow_pdf_render_duration_seconds'' ''PDF render duration by terminal status.'' ''histogram'']
          @ concat renders
          @ [Help ''chromaflow_pdf_bytes_total'' ''Total completed PDF bytes generated.'' ''counter'',
             Sample (''chromaflow_pdf_bytes_total'', [], counter_text (pdfBytes m)),
             Help ''chromaflow_active_workers'' ''Currently running worker goroutines.'' ''gauge'',
             Sample (''chromaflow_active_workers'', [], itoa (sint (activeWorkers m)))]
          @ queue_items queueStats @ storage_items storageStats
          @ [Help ''chromaflow_http_requests_total'' ''Total HTTP requests by method, route, and status code.'' ''counter'']
          @ map (\<lambda>l. Sample (''chromaflow_http_requests_total'', http_labels l,
                             counter_text (gm_get0 (httpRequests m) l)))
              (sorted_keys (httpRequests m))
          @ [Help ''chromaflow_http_request_duration_seconds''
               ''HTTP request duration by method, route, and status code.'' ''histogram'']
          @ concat https)
      | _ \<Rightarrow> None)"

definition WritePrometheus ::
    "(nat \<Rightarrow> bool) \<Rightarrow> metrics \<Rightarrow> (int \<times> int) option \<Rightarrow> StorageStats option \<Rightarrow> string option" where
  "WritePrometheus is_print m queueStats storageStats =
     map_option (\<lambda>items. concat (map (item_text is_print) items)) (scrape m queueStats storageStats)"

section \<open>A scrape never panics\<close>

datatype metric_op =
    Submitted | Rejected string | Started | Stopped
  | Render string duration int | HTTP string string string duration

fun metric_step :: "metric_op \<Rightarrow> metrics \<Rightarrow> metrics" where
  "metric_step Submitted m = JobSubmitted m"
| "metric_step (Rejected reason) m = JobRejected reason m"
| "metric_step Started m = WorkerStarted m"
| "metric_step Stopped m = WorkerStopped m"
| "metric_step (Render st d n) m = RenderFinished st d n m"
| "metric_step (HTTP meth path c d) m = RecordHTTP meth path c d m"

definition has_buckets :: "rat list \<Rightarrow> ('k, counter) gomap \<Rightarrow> ('k, counter list) gomap \<Rightarrow> bool" where
  "has_buckets bounds counts buckets \<longleftrightarrow>
     (\<forall>k \<in> set (gm_keys counts). \<exists>bs. map_of buckets k = Some bs)
     \<and> (\<forall>k bs. map_of buckets k = Some bs \<longrightarrow> length bs = length bounds)"

definition metrics_wf :: "metrics \<Rightarrow> bool" where
  "metrics_wf m \<longleftrightarrow> has_buckets renderBucketBounds (renderCount m) (renderBuckets m)
     \<and> has_buckets httpBucketBounds (httpCount m) (httpBuckets m)"

lemma has_buckets_observe:
  "has_buckets bounds counts buckets \<Longrightarrow> has_buckets bounds (bump k counts) (observe_buckets bounds v k buckets)"
  by (auto simp: has_buckets_def bump_def observe_buckets_def Let_def gm_put_keys split: option.splits)

lemma metric_step_wf [wf_intros]: "metrics_wf m \<Longrightarrow> metrics_wf (metric_step op m)"
  by (cases op) (auto simp: metrics_wf_def has_buckets_observe JobSubmitted_def JobRejected_def
      WorkerStarted_def WorkerStopped_def RenderFinished_def RecordHTTP_def Let_def)

lemma metrics_run_wf: "metrics_wf m \<Longrightarrow> metrics_wf (fold metric_step ops m)"
  by (induction ops arbitrary: m) (auto intro: wf_intros)

lemma those_total: "(\<And>x. x \<in> set xs \<Longrightarrow> \<exists>y. f x = Some y) \<Longrightarrow> \<exists>ys. those (map f xs) = Some ys"
  by (induction xs) fastforce+

lemma histogram_total:
  "has_buckets bounds counts buckets \<Longrightarrow> k \<in> set (sorted_keys counts) \<Longrightarrow>
     \<exists>ys. histogram name bounds labels (map_of buckets k) cnt tot = Some ys"
  by (fastforce simp: has_buckets_def histogram_def sorted_keys_def Let_def)

lemma scrape_total:
  assumes "metrics_wf m"
  shows "\<exists>items. scrape m q s = Some items"
proof -
  have w: "has_buckets renderBucketBounds (renderCount m) (renderBuckets m)"
    "has_buckets httpBucketBounds (httpCount m) (httpBuckets m)" using assms by (simp_all add: metrics_wf_def)
  have "\<exists>rs. render_items m = Some rs"
    unfolding render_items_def by (rule those_total, rule histogram_total [OF w(1)])
  moreover have "\<exists>hs. http_items m = Some hs"
    unfolding http_items_def by (rule those_total, rule histogram_total [OF w(2)])
  ultimately show ?thesis by (auto simp: scrape_def)
qed

text \<open>Whatever has been counted since the start, a scrape is written in full: every index into a
  bucket slice is in range, for every status and label that has a count.\<close>

theorem scrape_never_panics:
  "\<exists>text. WritePrometheus is_print (fold metric_step ops NewMetrics) queueStats storageStats = Some text"
proof -
  have "metrics_wf NewMetrics" by (simp add: metrics_wf_def has_buckets_def NewMetrics_def)
  then show ?thesis using scrape_total [OF metrics_run_wf] by (fastforce simp: WritePrometheus_def)
qed

section \<open>Reading a scrape\<close>

text \<open>
  The text exposition format: lines that start with \<open>#\<close> are comments; a sample is a name, labels in
  braces and a value; a label value is quoted, and only backslash, quote and \<open>n\<close> may follow a
  backslash in it.
\<close>

fun read_label_value :: "string \<Rightarrow> (string \<times> string) option" where
  "read_label_value [] = None"
| "read_label_value (c # s) =
     (if c = quote then Some ([], s)
      else if c = bslash then
        (case s of
           [] \<Rightarrow> None
         | d # r \<Rightarrow>
             if d = quote \<or> d = bslash then map_option (\<lambda>(v, t). (d # v, t)) (read_label_value r)
             else if d = CHR ''n'' then map_option (\<lambda>(v, t). (newline # v, t)) (read_label_value r)
             else None)
      else map_option (\<lambda>(v, t). (c # v, t)) (read_label_value s))"

definition read_label :: "string \<Rightarrow> ((string \<times> string) \<times> string) option" where
  "read_label s =
     (case cut s (CHR ''='') of (k, r, found) \<Rightarrow>
        if found \<and> r \<noteq> [] \<and> hd r = quote
        then map_option (\<lambda>(v, t). ((k, v), t)) (read_label_value (tl r))
        else None)"

lemma read_label_value_shorter: "read_label_value s = Some (v, t) \<Longrightarrow> length t < length s"
proof (induction s arbitrary: v rule: read_label_value.induct)
  case (2 c s)
  consider "c = quote" | "c = bslash" "c \<noteq> quote" | "c \<noteq> bslash" "c \<noteq> quote" by blast
  then show ?case
  proof cases
    case 2
    then obtain d r where s: "s = d # r" and d: "d = quote \<or> d = bslash \<or> d = CHR ''n''"
      using "2.prems" by (cases s) (auto split: if_splits)
    have "\<exists>w. read_label_value r = Some (w, t)" using 2 "2.prems" s d by (auto split: if_splits)
    then obtain w where w: "read_label_value r = Some (w, t)" ..
    have "length t < length r"
      using "2.IH"(1) [OF 2(2,1) s _ w] "2.IH"(2) [OF 2(2,1) s _ _ w] d by blast
    then show ?thesis using s by simp
  next
    case 3
    then obtain w where "read_label_value s = Some (w, t)" using "2.prems" by auto
    then show ?thesis using "2.IH"(3) [OF 3(2,1)] by fastforce
  qed (use "2.prems" in auto)
qed simp

lemma length_cut: "cut s c = (a, b, f) \<Longrightarrow> length b \<le> length s"
  using length_dropWhile_le [of "\<lambda>x. x \<noteq> c" s] by (auto simp: cut_def)

lemma read_label_shorter: "read_label s = Some (l, t) \<Longrightarrow> length t < length s"
proof -
  assume a: "read_label s = Some (l, t)"
  obtain k r f where c: "cut s (CHR ''='') = (k, r, f)" by (metis prod_cases3)
  obtain v where "read_label_value (tl r) = Some (v, t)" "r \<noteq> []"
    using a c by (auto simp: read_label_def split: if_splits)
  then show ?thesis using read_label_value_shorter [of "tl r" v t] length_cut [OF c] by simp
qed

function read_labels :: "string \<Rightarrow> ((string \<times> string) list \<times> string) option" where
  "read_labels s =
     (case read_label s of
        None \<Rightarrow> None
      | Some (l, t) \<Rightarrow>
          if t \<noteq> [] \<and> hd t = CHR '','' then map_option (\<lambda>(ls, u). (l # ls, u)) (read_labels (tl t))
          else if t \<noteq> [] \<and> hd t = CHR ''}'' then Some ([l], tl t)
          else None)"
  by pat_completeness auto
termination
  by (relation "measure length") (auto dest!: read_label_shorter)

declare read_labels.simps [simp del]

definition read_sample :: "string \<Rightarrow> sample option" where
  "read_sample line =
     (let name = takeWhile (\<lambda>c. c \<noteq> CHR ''{'' \<and> c \<noteq> CHR '' '') line;
          rest = dropWhile (\<lambda>c. c \<noteq> CHR ''{'' \<and> c \<noteq> CHR '' '') line
      in case rest of
           [] \<Rightarrow> None
         | c # r \<Rightarrow>
             if c = CHR '' '' then Some (name, [], r)
             else (case read_labels r of
                     Some (ls, d # v) \<Rightarrow> if d = CHR '' '' then Some (name, ls, v) else None
                   | _ \<Rightarrow> None))"

definition read_exposition :: "string \<Rightarrow> sample list option" where
  "read_exposition text =
     those (map read_sample (filter (\<lambda>l. l \<noteq> [] \<and> hd l \<noteq> CHR ''#'') (split_on newline text)))"

section \<open>A readable scrape is read back\<close>

definition readable :: "string \<Rightarrow> bool" where
  "readable s \<longleftrightarrow> list_all (\<lambda>c. ascii_print c \<or> c = newline) s"

definition plain_name :: "string \<Rightarrow> bool" where
  "plain_name s \<longleftrightarrow> list_all (\<lambda>c. c \<noteq> CHR ''{'' \<and> c \<noteq> CHR '' '' \<and> c \<noteq> CHR ''='' \<and> c \<noteq> newline) s
     \<and> s \<noteq> [] \<and> hd s \<noteq> CHR ''#''"

definition sample_ok :: "sample \<Rightarrow> bool" where
  "sample_ok s \<longleftrightarrow> (case s of (name, labels, value) \<Rightarrow>
     plain_name name \<and> list_all (\<lambda>(k, v). plain_name k \<and> readable v) labels \<and> newline \<notin> set value)"

lemma readable_byte: "ascii_print c \<or> c = newline \<Longrightarrow> byte c < 0x80"
  by (auto simp: ascii_print_def)

lemma read_quoted_char:
  assumes "ascii_print c \<or> c = newline"
  shows "read_label_value (quote_ascii c @ s) = map_option (\<lambda>(v, t). (c # v, t)) (read_label_value s)"
proof (cases "c = newline")
  case True
  have "quote_ascii newline = [bslash, CHR ''n'']" by code_simp
  then show ?thesis using True by simp
next
  case False
  then show ?thesis using assms by (simp add: quote_ascii_def)
qed

lemma read_quoted: "readable s \<Longrightarrow> read_label_value (quote_body p s @ quote # t) = Some (s, t)"
proof (induction s)
  case (Cons c s)
  then have c: "ascii_print c \<or> c = newline" and s: "readable s" by (auto simp: readable_def)
  have "quote_body p (c # s) = quote_ascii c @ quote_body p s" using readable_byte [OF c] by simp
  then show ?case using read_quoted_char [OF c] Cons.IH [OF s] by simp
qed simp

lemma cut_plain: "plain_name k \<Longrightarrow> cut (k @ CHR ''='' # r) (CHR ''='') = (k, r, True)"
proof -
  assume "plain_name k"
  then have "\<forall>x \<in> set k. x \<noteq> CHR ''=''" by (auto simp: plain_name_def list_all_iff)
  then have "takeWhile (\<lambda>x. x \<noteq> CHR ''='') (k @ CHR ''='' # r) = k"
    "dropWhile (\<lambda>x. x \<noteq> CHR ''='') (k @ CHR ''='' # r) = CHR ''='' # r"
    by (simp_all add: takeWhile_append2 dropWhile_append2)
  then show ?thesis by (simp add: cut_def)
qed

lemma read_label_text:
  "plain_name k \<Longrightarrow> readable v \<Longrightarrow> read_label (label_text p (k, v) @ t) = Some ((k, v), t)"
  using cut_plain [of k] read_quoted [of v p t] by (simp add: read_label_def label_text_def go_quote_def)

lemma read_labels_text:
  "ls \<noteq> [] \<Longrightarrow> list_all (\<lambda>(k, v). plain_name k \<and> readable v) ls \<Longrightarrow>
     read_labels (join_with '','' (map (label_text p) ls) @ CHR ''}'' # t) = Some (ls, t)"
proof (induction ls)
  case (Cons l ls)
  obtain k v where l: "l = (k, v)" by (cases l)
  have kv: "plain_name k" "readable v" using Cons.prems(2) l by auto
  show ?case
  proof (cases ls)
    case Nil
    then show ?thesis using read_label_text [OF kv] l by (subst read_labels.simps) simp
  next
    case (Cons l' ls')
    then show ?thesis using Cons.IH Cons.prems(2) read_label_text [OF kv] l
      by (subst read_labels.simps) simp
  qed
qed simp

lemma read_sample_text: "sample_ok s \<Longrightarrow> read_sample (sample_text p s) = Some s"
proof -
  assume ok: "sample_ok s"
  obtain name labels v where s: "s = (name, labels, v)" by (metis prod_cases3)
  have name: "\<forall>c \<in> set name. c \<noteq> CHR ''{'' \<and> c \<noteq> CHR '' ''"
    and ls: "list_all (\<lambda>(k, v). plain_name k \<and> readable v) labels"
    using ok s by (auto simp: sample_ok_def plain_name_def list_all_iff)
  have word: "takeWhile (\<lambda>c. c \<noteq> CHR ''{'' \<and> c \<noteq> CHR '' '') (name @ c # r) = name"
    "dropWhile (\<lambda>c. c \<noteq> CHR ''{'' \<and> c \<noteq> CHR '' '') (name @ c # r) = c # r"
    if "c = CHR ''{'' \<or> c = CHR '' ''" for c r
    using name that by (auto simp: takeWhile_append2 dropWhile_append2)
  show ?thesis
  proof (cases "labels = []")
    case True
    then show ?thesis using s word [of "CHR '' ''" v] by (simp add: sample_text_def read_sample_def Let_def)
  next
    case False
    then show ?thesis
      using s word [of "CHR ''{''"] read_labels_text [OF False ls, of p "CHR '' '' # v"]
      by (simp add: sample_text_def read_sample_def Let_def)
  qed
qed

section \<open>The lines of a scrape\<close>

fun item_lines :: "(nat \<Rightarrow> bool) \<Rightarrow> item \<Rightarrow> string list" where
  "item_lines p (Help name help ty) =
     [''# HELP '' @ name @ '' '' @ escapeHelp help, ''# TYPE '' @ name @ '' '' @ ty]"
| "item_lines p (Sample s) = [sample_text p s]"

fun samples_of :: "item list \<Rightarrow> sample list" where
  "samples_of [] = []"
| "samples_of (Help n h t # items) = samples_of items"
| "samples_of (Sample s # items) = s # samples_of items"

lemma samples_of_append [simp]: "samples_of (xs @ ys) = samples_of xs @ samples_of ys"
  by (induction xs rule: samples_of.induct) auto

lemma set_samples_of: "set (samples_of items) = {s. Sample s \<in> set items}"
  by (induction items rule: samples_of.induct) auto

lemma text_of_lines:
  "concat (map (item_text p) items) = concat (map (\<lambda>l. l @ [newline]) (concat (map (item_lines p) items)))"
proof (induction items)
  case (Cons x items)
  then show ?case by (cases x) (simp_all add: writeHelp_def)
qed simp

lemma split_on_line: "c \<notin> set l \<Longrightarrow> split_on c (l @ c # r) = l # split_on c r"
  by (induction l) auto

lemma split_on_lines:
  "list_all (\<lambda>l. c \<notin> set l) ls \<Longrightarrow> split_on c (concat (map (\<lambda>l. l @ [c]) ls)) = ls @ [[]]"
  by (induction ls) (simp_all add: split_on_line)

text \<open>Names, keys and values are plain; the label values are what the program counted.\<close>

fun item_shape :: "item \<Rightarrow> bool" where
  "item_shape (Help name help ty) = (newline \<notin> set name \<and> newline \<notin> set ty)"
| "item_shape (Sample (name, labels, value)) =
     (plain_name name \<and> list_all (\<lambda>l. plain_name (fst l)) labels \<and> newline \<notin> set value)"

lemma escapeHelp_line: "newline \<notin> set (escapeHelp help)"
  by (auto simp: escapeHelp_def replace_all_def split: if_splits)

lemma hex_text_line: "newline \<notin> set (hex_text w n)"
proof (induction w arbitrary: n)
  case (Suc w)
  have "\<forall>d \<in> set [0..<16]. hex_digit d \<noteq> newline" by code_simp
  then have "hex_digit (n mod 16) \<noteq> newline" by simp
  then show ?case using Suc by auto
qed simp

lemma follows_high:
  "follows rs s \<Longrightarrow> \<forall>(lo, hi) \<in> set rs. 0x80 \<le> lo \<Longrightarrow> \<forall>c \<in> set (take (length rs) s). 0x80 \<le> byte c"
  by (induction rs s rule: follows.induct) auto

lemma rune_tail_high: "rune_tail x = Some rs \<Longrightarrow> \<forall>(lo, hi) \<in> set rs. 0x80 \<le> lo"
  by (auto simp: rune_tail_def split: if_splits)

lemma rune_high:
  assumes "rune_size s = Some n" "0x80 \<le> byte (hd s)"
  shows "\<forall>c \<in> set (take n s). 0x80 \<le> byte c"
proof -
  obtain a r where s: "s = a # r" using rune_size_nonempty [OF assms(1)] by (cases s) auto
  then obtain rs where rs: "rune_tail (byte a) = Some rs" "follows rs r" "n = Suc (length rs)"
    using assms(1) by (auto split: option.splits if_splits)
  then show ?thesis using follows_high [OF rs(2) rune_tail_high [OF rs(1)]] s assms(2) by simp
qed

lemma quote_ascii_line: "newline \<notin> set (quote_ascii c)"
  using hex_text_line by (auto simp: quote_ascii_def ascii_print_def simp del: hex_text.simps)

lemma quote_body_line: "newline \<notin> set (quote_body p s)"
proof (induction s rule: length_induct)
  case (1 s)
  show ?case
  proof (cases "s = []")
    case False
    then have tl: "newline \<notin> set (quote_body p (tl s))" using 1 by simp
    have raw: "newline \<notin> set r" if "\<forall>c \<in> set r. 0x80 \<le> byte c" for r using that by auto
    consider "byte (hd s) < 0x80" | "rune_size s = None" "\<not> byte (hd s) < 0x80"
      | n where "rune_size s = Some n" "\<not> byte (hd s) < 0x80" by (cases "rune_size s") auto
    then show ?thesis
    proof cases
      case 1
      then show ?thesis using False tl quote_ascii_line by (subst quote_body.simps) simp
    next
      case 2
      then show ?thesis using False tl hex_text_line by (subst quote_body.simps) (simp del: hex_text.simps)
    next
      case (3 n)
      have "newline \<notin> set (quote_body p (drop n s))" using 1 False rune_size_pos [OF 3(1)] by simp
      moreover have "newline \<notin> set (quote_rune p (take n s))"
        using raw [OF rune_high [OF 3(1)]] 3(2) hex_text_line
        by (simp add: quote_rune_def del: hex_text.simps)
      ultimately show ?thesis using False 3 by (subst quote_body.simps) simp
    qed
  qed simp
qed

lemma join_line: "newline \<notin> set sep \<Longrightarrow> \<forall>x \<in> set xs. newline \<notin> set x \<Longrightarrow> newline \<notin> set (join_with sep xs)"
  by (induction sep xs rule: join_with.induct) auto

lemma plain_name_line: "plain_name s \<Longrightarrow> newline \<notin> set s"
  by (auto simp: plain_name_def list_all_iff)

lemma item_lines_line: "item_shape x \<Longrightarrow> list_all (\<lambda>l. newline \<notin> set l) (item_lines p x)"
proof (cases x)
  case (Sample s)
  moreover obtain name labels v where "s = (name, labels, v)" by (metis prod_cases3)
  moreover assume "item_shape x"
  ultimately have n: "newline \<notin> set name" "newline \<notin> set v"
    and l: "\<forall>l \<in> set labels. newline \<notin> set (label_text p l)" and s: "s = (name, labels, v)"
    using quote_body_line plain_name_line by (auto simp: label_text_def go_quote_def list_all_iff)
  then have "newline \<notin> set (join_with '','' (map (label_text p) labels))" by (intro join_line) auto
  then show ?thesis using n Sample s by (auto simp: sample_text_def)
qed (auto simp: escapeHelp_line)

lemma comment_lines:
  "item_shape x \<Longrightarrow> filter (\<lambda>l. l \<noteq> [] \<and> hd l \<noteq> CHR ''#'') (item_lines p x) = map (sample_text p) (samples_of [x])"
proof (cases x)
  case (Sample s)
  moreover obtain name labels v where "s = (name, labels, v)" by (metis prod_cases3)
  moreover assume "item_shape x"
  ultimately show ?thesis by (auto simp: sample_text_def plain_name_def)
qed simp

lemma samples_of_Cons: "samples_of (x # items) = samples_of [x] @ samples_of items"
  by (cases x) simp_all

lemma read_items:
  assumes "list_all item_shape items"
  shows "read_exposition (concat (map (item_text p) items))
    = those (map read_sample (map (sample_text p) (samples_of items)))"
proof -
  let ?ls = "concat (map (item_lines p) items)"
  have "list_all (\<lambda>l. newline \<notin> set l) ?ls"
    using assms item_lines_line by (induction items) auto
  then have split: "split_on newline (concat (map (item_text p) items)) = ?ls @ [[]]"
    by (simp only: text_of_lines split_on_lines)
  have "filter (\<lambda>l. l \<noteq> [] \<and> hd l \<noteq> CHR ''#'') ?ls = map (sample_text p) (samples_of items)"
    using assms
  proof (induction items)
    case (Cons x items)
    then show ?case using comment_lines [of x p] samples_of_Cons [of x items] by simp
  qed simp
  then show ?thesis unfolding read_exposition_def split by simp
qed

lemma those_read: "list_all sample_ok ss \<Longrightarrow> those (map read_sample (map (sample_text p) ss)) = Some ss"
  by (induction ss) (simp_all add: read_sample_text)

lemma those_None: "x \<in> set xs \<Longrightarrow> f x = None \<Longrightarrow> those (map f xs) = None"
  by (induction xs) (auto split: option.splits)

section \<open>Every line of a scrape is plain\<close>

fun item_ok :: "(string \<Rightarrow> bool) \<Rightarrow> item \<Rightarrow> bool" where
  "item_ok R (Help name help ty) = (newline \<notin> set name \<and> newline \<notin> set ty)"
| "item_ok R (Sample (name, labels, value)) =
     (plain_name name \<and> list_all (\<lambda>l. plain_name (fst l) \<and> R (snd l)) labels \<and> newline \<notin> set value)"

definition label_values :: "metrics \<Rightarrow> StorageStats option \<Rightarrow> string set" where
  "label_values m stats =
     set (gm_keys (jobsRejected m)) \<union> set (gm_keys (jobsFinished m)) \<union> set (gm_keys (renderCount m))
     \<union> (\<Union>l \<in> set (gm_keys (httpRequests m)) \<union> set (gm_keys (httpCount m)).
          {lbl_method l, lbl_path l, lbl_code l})
     \<union> (case stats of None \<Rightarrow> {} | Some st \<Rightarrow> status_text ` set (gm_keys (ByStatus st)))"

lemma number_lines:
  "newline \<notin> set (counter_text c)" "newline \<notin> set (itoa i)" "newline \<notin> set (format_float x)"
proof -
  have nl: "\<not> is_digit newline" by code_simp
  then have n: "newline \<notin> set (itoa_nat n)" for n using itoa_nat_digits by blast
  show "newline \<notin> set (counter_text c)" "newline \<notin> set (itoa i)" using n by (simp_all add: counter_text_def itoa_def)
  show "newline \<notin> set (format_float x)" using format_float_chars [of newline x] nl by auto
qed

lemma plain_names [simp]:
  "plain_name ''chromaflow_jobs_submitted_total''" "plain_name ''chromaflow_jobs_rejected_total''"
  "plain_name ''chromaflow_jobs_finished_total''" "plain_name ''chromaflow_pdf_bytes_total''"
  "plain_name ''chromaflow_active_workers''" "plain_name ''chromaflow_queue_depth''"
  "plain_name ''chromaflow_queue_capacity''" "plain_name ''chromaflow_jobs_in_storage''"
  "plain_name ''chromaflow_storage_jobs_total''" "plain_name ''chromaflow_storage_pdf_bytes''"
  "plain_name ''chromaflow_storage_oldest_job_timestamp_seconds''"
  "plain_name ''chromaflow_http_requests_total''"
  "plain_name ''chromaflow_pdf_render_duration_seconds''" "plain_name ''chromaflow_http_request_duration_seconds''"
  "plain_name ''status''" "plain_name ''reason''" "plain_name ''le''" "plain_name ''method''"
  "plain_name ''path''" "plain_name ''code''"
  by code_simp+

lemma plain_suffix: "plain_name n \<Longrightarrow> plain_name (n @ ''_bucket'') \<and> plain_name (n @ ''_sum'') \<and> plain_name (n @ ''_count'')"
  by (auto simp: plain_name_def)

definition closed_labels :: "(string \<Rightarrow> bool) \<Rightarrow> bool" where
  "closed_labels R \<longleftrightarrow> R ''+Inf'' \<and> (\<forall>x. R (format_float x))"

lemma histogram_ok:
  assumes h: "histogram name bounds labels buckets cnt tot = Some items" and R: "closed_labels R"
    and n: "plain_name name" and l: "list_all (\<lambda>l. plain_name (fst l) \<and> R (snd l)) labels"
  shows "list_all (item_ok R) items"
proof -
  let ?b = "\<lambda>upper c. Sample (name @ ''_bucket'', labels @ [(''le'', format_float upper)], counter_text c)"
  have "item_ok R (?b upper c)" for upper c
    using R l plain_suffix [OF n] number_lines by (simp add: closed_labels_def)
  then have "\<forall>x \<in> set (map2 ?b bounds bs). item_ok R x" for bs by auto
  then show ?thesis using h R l plain_suffix [OF n] number_lines
    by (auto simp: histogram_def Let_def closed_labels_def list_all_iff split: if_splits)
qed

lemma those_all:
  assumes "those (map f xs) = Some yss" "\<And>x ys. x \<in> set xs \<Longrightarrow> f x = Some ys \<Longrightarrow> list_all P ys"
  shows "list_all P (concat yss)"
  using assms
proof (induction xs arbitrary: yss)
  case (Cons x xs)
  obtain y ys where y: "f x = Some y" "those (map f xs) = Some ys" "yss = y # ys"
    using Cons.prems(1) by (auto split: option.splits)
  have "list_all P (concat ys)" using Cons.IH [OF y(2)] Cons.prems(2) by (meson list.set_intros(2))
  moreover have "list_all P y" using Cons.prems(2) [of x y] y(1) by simp
  ultimately show ?case using y(3) by simp
qed simp

lemma counter_samples_ok:
  "plain_name name \<Longrightarrow> plain_name label \<Longrightarrow> \<forall>k \<in> set (gm_keys m). R k \<Longrightarrow>
     list_all (item_ok R) (counter_samples name label m)"
  using number_lines by (auto simp: counter_samples_def sorted_keys_def list_all_iff)

lemma queue_items_ok: "list_all (item_ok R) (queue_items q)"
  using number_lines by (cases q) (auto simp: queue_items_def)

lemma storage_items_ok:
  "\<forall>v \<in> label_values m ss. R v \<Longrightarrow> list_all (item_ok R) (storage_items ss)"
proof (cases ss)
  case (Some st)
  assume "\<forall>v \<in> label_values m ss. R v"
  then have "\<forall>s \<in> set (sorted_keys (ByStatus st)). R (status_text s)"
    using Some by (auto simp: label_values_def sorted_keys_def)
  then show ?thesis using Some number_lines by (simp add: storage_items_def list_all_iff)
qed (simp add: storage_items_def)

lemma scrape_ok:
  assumes s: "scrape m q ss = Some items" and R: "closed_labels R" and v: "\<forall>v \<in> label_values m ss. R v"
  shows "list_all (item_ok R) items"
proof -
  obtain rs hs where r: "render_items m = Some rs" and h: "http_items m = Some hs"
    using s by (auto simp: scrape_def split: option.splits)
  have http: "list_all (\<lambda>l. plain_name (fst l) \<and> R (snd l)) (http_labels l)"
    if "l \<in> set (gm_keys (httpRequests m)) \<union> set (gm_keys (httpCount m))" for l
  proof -
    have "{lbl_method l, lbl_path l, lbl_code l} \<subseteq> label_values m ss"
      unfolding label_values_def using that by blast
    then show ?thesis using v by (simp add: http_labels_def)
  qed
  have keys: "\<forall>k \<in> set (gm_keys (jobsRejected m)). R k" "\<forall>k \<in> set (gm_keys (jobsFinished m)). R k"
    "\<forall>k \<in> set (gm_keys (renderCount m)). R k"
    using v by (auto simp: label_values_def)
  have renders: "list_all (item_ok R) (concat rs)"
    using r unfolding render_items_def
    by (rule those_all) (rule histogram_ok [OF _ R], assumption, use keys(3) in \<open>auto simp: sorted_keys_def\<close>)
  have https: "list_all (item_ok R) (concat hs)"
    using h unfolding http_items_def
    by (rule those_all) (rule histogram_ok [OF _ R], assumption, use http in \<open>simp_all add: sorted_keys_def\<close>)
  have reqs: "list_all (item_ok R) (map (\<lambda>l. Sample (''chromaflow_http_requests_total'', http_labels l,
      counter_text (gm_get0 (httpRequests m) l))) (sorted_keys (httpRequests m)))"
    using http number_lines by (auto simp: list_all_iff sorted_keys_def)
  show ?thesis using s r h renders https reqs queue_items_ok [of R q] storage_items_ok [OF v]
      counter_samples_ok keys number_lines by (auto simp: scrape_def)
qed

section \<open>Reading back and failing to\<close>

lemma item_ok_shape: "item_ok R x \<Longrightarrow> item_shape x"
  by (cases x) (auto simp: list_all_iff)

lemma item_ok_sample: "item_ok readable (Sample s) \<Longrightarrow> sample_ok s"
  by (cases s) (auto simp: sample_ok_def list_all_iff)

lemma readable_ascii_digit: "is_digit c \<or> c = CHR ''.'' \<or> c = CHR ''-'' \<Longrightarrow> ascii_print c"
  by (auto simp: is_digit_def less_eq_char_def ascii_print_def)

lemma closed_readable: "closed_labels readable"
proof -
  have "readable ''+Inf''" by code_simp
  moreover have "readable (format_float x)" for x
    using format_float_chars readable_ascii_digit by (auto simp: readable_def list_all_iff)
  ultimately show ?thesis by (simp add: closed_labels_def)
qed

text \<open>C32: As long as every label value counted so far is printable ASCII (line feeds allowed), a scrape
  reads back, under the rules of the text exposition format, as exactly the samples that were
  written: every name, every label and every value, in order.\<close>

theorem scrape_reads_back:
  assumes "scrape m queueStats storageStats = Some items"
    and "\<forall>v \<in> label_values m storageStats. readable v"
  shows "\<exists>text. WritePrometheus is_print m queueStats storageStats = Some text
    \<and> read_exposition text = Some (samples_of items)"
proof -
  have ok: "list_all (item_ok readable) items" by (rule scrape_ok [OF assms(1) closed_readable assms(2)])
  then have "list_all item_shape items" using item_ok_shape by (auto simp: list_all_iff)
  moreover have "list_all sample_ok (samples_of items)"
    using ok item_ok_sample by (auto simp: list_all_iff set_samples_of)
  ultimately show ?thesis using assms(1) read_items those_read by (simp add: WritePrometheus_def)
qed

lemma unreadable_char:
  assumes "byte c < 0x80" "\<not> ascii_print c" "c \<noteq> newline"
  shows "\<exists>d s. quote_ascii c = bslash # d # s \<and> d \<noteq> quote \<and> d \<noteq> bslash \<and> d \<noteq> CHR ''n''"
proof -
  have "c \<noteq> quote" "c \<noteq> bslash" using assms(2) by (auto simp: ascii_print_def)
  then show ?thesis using assms by (simp add: quote_ascii_def)
qed

lemma unreadable_value:
  "is_ascii s \<Longrightarrow> \<not> readable s \<Longrightarrow> read_label_value (quote_body p s @ r) = None"
proof (induction s)
  case (Cons c s)
  then have c: "byte c < 0x80" and s: "is_ascii s" by simp_all
  show ?case
  proof (cases "ascii_print c \<or> c = newline")
    case True
    then have "\<not> readable s" using Cons.prems(2) by (auto simp: readable_def)
    then show ?thesis using Cons.IH [OF s] c read_quoted_char [OF True] by simp
  next
    case False
    then obtain d t where "quote_ascii c = bslash # d # t" "d \<noteq> quote" "d \<noteq> bslash" "d \<noteq> CHR ''n''"
      using unreadable_char [OF c] by blast
    then show ?thesis using c by simp
  qed
qed (simp add: readable_def)

lemma unreadable_path_line:
  assumes "readable (lbl_method l)" "is_ascii (lbl_path l)" "\<not> readable (lbl_path l)"
  shows "read_sample (sample_text p (''chromaflow_http_requests_total'', http_labels l, v)) = None"
proof -
  let ?m = "label_text p (''method'', lbl_method l)" and ?q = "label_text p (''path'', lbl_path l)"
  have m: "read_label (?m @ r) = Some ((''method'', lbl_method l), r)" for r
    using read_label_text [OF plain_names(18) assms(1)] by simp
  have q: "read_label (?q @ r) = None" for r
    using cut_plain [OF plain_names(19)] unreadable_value [OF assms(2,3), of p]
    by (simp add: read_label_def label_text_def go_quote_def)
  have "read_labels (join_with '','' (map (label_text p) (http_labels l)) @ CHR ''}'' # t) = None" for t
    by (subst read_labels.simps) (simp add: http_labels_def m, subst read_labels.simps, simp add: q)
  then show ?thesis by (simp add: sample_text_def read_sample_def Let_def http_labels_def)
qed

text \<open>One request whose path contains an ASCII control character other than a line feed makes every
  later scrape unreadable: \<open>%q\<close> writes such a character as an escape that the exposition format
  does not have.\<close>

theorem control_character_breaks_scrape:
  assumes "HttpLabel meth path c \<in> set (gm_keys (httpRequests m))"
    and "readable meth" "is_ascii path" "\<not> readable path"
    and "WritePrometheus is_print m queueStats storageStats = Some text"
  shows "read_exposition text = None"
proof -
  let ?l = "HttpLabel meth path c"
  let ?s = "(''chromaflow_http_requests_total'', http_labels ?l, counter_text (gm_get0 (httpRequests m) ?l))"
  obtain items where items: "scrape m queueStats storageStats = Some items"
    "text = concat (map (item_text is_print) items)"
    using assms(5) by (auto simp: WritePrometheus_def)
  have "list_all (item_ok (\<lambda>_. True)) items" by (rule scrape_ok [OF items(1)]) (simp_all add: closed_labels_def)
  then have shape: "list_all item_shape items" using item_ok_shape by (auto simp: list_all_iff)
  have "?l \<in> set (sorted_keys (httpRequests m))" using assms(1) by (simp add: sorted_keys_def)
  then have "Sample ?s \<in> set items" using items(1) by (auto simp: scrape_def split: option.splits)
  then have "?s \<in> set (samples_of items)" by (simp add: set_samples_of)
  moreover have "read_sample (sample_text is_print ?s) = None"
    using unreadable_path_line [of ?l] assms(2-4) by simp
  ultimately have "those (map read_sample (map (sample_text is_print) (samples_of items))) = None"
    unfolding map_map by (intro those_None [of ?s]) simp_all
  then show ?thesis using read_items [OF shape] items(2) by simp
qed

section \<open>Witnesses\<close>

lemma NewMetrics_wf: "metrics_wf NewMetrics"
  by (simp add: metrics_wf_def has_buckets_def NewMetrics_def)

theorem scrape_reads_back_witness:
  "\<exists>items text. scrape (JobSubmitted NewMetrics) (Some (3, 100)) None = Some items
     \<and> WritePrometheus (\<lambda>_. False) (JobSubmitted NewMetrics) (Some (3, 100)) None = Some text
     \<and> read_exposition text = Some (samples_of items)
     \<and> (''chromaflow_jobs_submitted_total'', [], ''1'') \<in> set (samples_of items)"
proof -
  have "metrics_wf (JobSubmitted NewMetrics)" using metric_step_wf [OF NewMetrics_wf, of Submitted] by simp
  then obtain items where i: "scrape (JobSubmitted NewMetrics) (Some (3, 100)) None = Some items"
    using scrape_total by blast
  have "label_values (JobSubmitted NewMetrics) None = {}"
    by (simp add: label_values_def JobSubmitted_def NewMetrics_def)
  then obtain w where t: "WritePrometheus (\<lambda>_. False) (JobSubmitted NewMetrics) (Some (3, 100)) None = Some w"
    "read_exposition w = Some (samples_of items)"
    using scrape_reads_back [OF i] by blast
  have "counter_text 1 = ''1''" by code_simp
  then have "(''chromaflow_jobs_submitted_total'', [], ''1'') \<in> set (samples_of items)"
    using i by (auto simp: scrape_def JobSubmitted_def NewMetrics_def split: option.splits)
  then show ?thesis using i t by blast
qed

theorem control_character_breaks_scrape_witness:
  "\<exists>text. WritePrometheus (\<lambda>_. False)
       (RecordHTTP ''GET'' (''/'' @ [CHR 0x09]) ''200'' second NewMetrics) None None = Some text
     \<and> read_exposition text = None"
proof -
  let ?path = "''/'' @ [CHR 0x09]"
  let ?m = "RecordHTTP ''GET'' ?path ''200'' second NewMetrics"
  have "metrics_wf ?m" using metric_step_wf [OF NewMetrics_wf, of "HTTP ''GET'' ?path ''200'' second"] by simp
  then obtain w where t: "WritePrometheus (\<lambda>_. False) ?m None None = Some w"
    using scrape_total [of ?m None None] by (auto simp: WritePrometheus_def)
  have "HttpLabel ''GET'' ?path ''200'' \<in> set (gm_keys (httpRequests ?m))"
    by (simp add: RecordHTTP_def Let_def NewMetrics_def bump_def)
  moreover have "readable ''GET''" "is_ascii ?path" "\<not> readable ?path" by code_simp+
  ultimately show ?thesis using control_character_breaks_scrape t by blast
qed

text \<open>A float is written as a decimal that rounds to the same float: no sum of seconds and no bucket
  bound changes its value on the way through the text.\<close>

theorem float_text_exact:
  assumes "float_round x = x"
  shows "\<exists>d. read_decimal (format_float x) = Some d \<and> float_round d = x"
  by (rule format_float_reads [OF assms])

theorem float_text_exact_witness:
  "\<exists>d. read_decimal (format_float (5 / 2)) = Some d \<and> float_round d = 5 / 2"
  by (rule float_text_exact) code_simp

end
