(* ===== verification/Http_Stack.thy ===== *)
theory Http_Stack
  imports Api_Json Go_Mux Prometheus Hub
begin

text \<open>
  From the wire to the handlers: what a handler does to its response writer, the two middlewares
  (\<open>observability.RequestMiddleware\<close> in \<open>request.go\<close>, \<open>Metrics.Middleware\<close> with its status
  recorder in \<open>metrics.go\<close>), the routes of \<open>cmd/server/main.go\<close> and the handlers behind them. A
  handler is a function of the request it is given a pointer to and of the server's state; it
  returns the calls it made on the writer, the request as it left it, and the new state. \<open>None\<close> is
  a panic.
\<close>

section \<open>Requests and response writers\<close>

text \<open>
  \<open>hr_uri\<close> is the request target as received; header names are canonical and carry their first
  value. The multiplexer sets the pattern and the path values, a middleware the context's id.
\<close>

record request =
  hr_method :: string
  hr_uri :: string
  hr_header :: "(string, string) gomap"
  hr_text :: string
  hr_pattern :: string
  hr_values :: "(string \<times> string) list"
  hr_ctx_id :: "string option"

definition header_get :: "request \<Rightarrow> string \<Rightarrow> string" where
  "header_get r k = (case map_of (hr_header r) k of None \<Rightarrow> '''' | Some v \<Rightarrow> v)"

definition request_url :: "request \<Rightarrow> url" where
  "request_url r = (case ParseRequestURI (hr_uri r) of None \<Rightarrow> empty_url | Some u \<Rightarrow> u)"

definition target_raw_path :: "string \<Rightarrow> string" where
  "target_raw_path uri =
     (case get_scheme uri [] uri of
        None \<Rightarrow> ''''
      | Some (sch, rest) \<Rightarrow>
          let p = fst (split_query rest)
          in if sch \<noteq> '''' \<and> has_prefix p ''//'' then dropWhile (\<lambda>c. c \<noteq> CHR ''/'') (drop 2 p) else p)"

definition escaped_path :: "request \<Rightarrow> string" where
  "escaped_path r = EscapedPath (target_raw_path (hr_uri r)) (Path (request_url r))"

text \<open>
  The calls on a response writer. The status on the wire is the one of the first \<open>WriteHeader\<close>, or
  200 when the body starts without one; headers set later are not sent. A hijacked connection
  carries only what its new owner writes on it, status line and headers included: for the WebSocket
  the 101 greeting, or nothing when writing it failed. The headers set on the writer are not sent
  then, and later calls on the writer have no effect. Without an answer the status is 0.
\<close>

datatype call = SetHeader string string | WriteHeader int | WriteBody string | Hijacked string

fun crlf_lines :: "string \<Rightarrow> string list" where
  "crlf_lines [] = [[]]"
| "crlf_lines [c] = [[c]]"
| "crlf_lines (c # d # s) =
     (if c = CHR 0x0D \<and> d = CHR 0x0A then [] # crlf_lines s
      else (case crlf_lines (d # s) of [] \<Rightarrow> [[c]] | l # ls \<Rightarrow> (c # l) # ls))"

text \<open>The header lines behind a status line, up to the empty line, and the status in that line.\<close>

definition raw_headers :: "string \<Rightarrow> (string, string) gomap" where
  "raw_headers t =
     map (\<lambda>l. case cut l (CHR '':'') of (k, v, _) \<Rightarrow> (k, dropWhile (\<lambda>c. c = CHR '' '') v))
       (takeWhile (\<lambda>l. l \<noteq> []) (tl (crlf_lines t)))"

definition raw_status :: "string \<Rightarrow> int" where
  "raw_status t =
     foldl (\<lambda>n c. 10 * n + (of_char c - 48)) 0 (takeWhile is_digit (drop 9 (hd (crlf_lines t))))"

fun sent_status :: "call list \<Rightarrow> int" where
  "sent_status [] = 200"
| "sent_status (WriteHeader c # cs) = c"
| "sent_status (WriteBody b # cs) = 200"
| "sent_status (Hijacked t # cs) = raw_status t"
| "sent_status (SetHeader k v # cs) = sent_status cs"

fun sent_headers :: "(string, string) gomap \<Rightarrow> call list \<Rightarrow> (string, string) gomap" where
  "sent_headers hs (SetHeader k v # cs) = sent_headers (gm_put k v hs) cs"
| "sent_headers hs (Hijacked t # cs) = raw_headers t"
| "sent_headers hs _ = hs"

fun sent_body :: "call list \<Rightarrow> string" where
  "sent_body [] = ''''"
| "sent_body (WriteBody b # cs) = b @ sent_body cs"
| "sent_body (Hijacked t # cs) = t"
| "sent_body (_ # cs) = sent_body cs"

text \<open>\<open>statusResponseWriter\<close>: the code starts at 200 and every \<open>WriteHeader\<close> overwrites it.\<close>

fun recorded_code :: "int \<Rightarrow> call list \<Rightarrow> int" where
  "recorded_code c [] = c"
| "recorded_code c (WriteHeader d # cs) = recorded_code d cs"
| "recorded_code c (_ # cs) = recorded_code c cs"

type_synonym 'a handler = "request \<Rightarrow> 'a \<Rightarrow> (call list \<times> request \<times> 'a) option"

section \<open>Middlewares\<close>

text \<open>
  \<open>r.WithContext\<close> is a copy: what the inner handlers set on the request they get is not seen by the
  caller of this middleware.
\<close>

definition request_id :: "string \<Rightarrow> request \<Rightarrow> string" where
  "request_id fresh r = (if header_get r ''X-Request-Id'' = '''' then fresh else header_get r ''X-Request-Id'')"

definition RequestMiddleware :: "string \<Rightarrow> 'a handler \<Rightarrow> 'a handler" where
  "RequestMiddleware fresh inner r a =
     (let requestID = request_id fresh r
      in case inner (r\<lparr>hr_ctx_id := Some requestID\<rparr>) a of
           None \<Rightarrow> None
         | Some (cs, _, a') \<Rightarrow> Some (SetHeader ''X-Request-Id'' requestID # cs, r, a'))"

definition RequestIDFromContext :: "request \<Rightarrow> string" where
  "RequestIDFromContext r = (case hr_ctx_id r of None \<Rightarrow> '''' | Some i \<Rightarrow> i)"

definition http_path :: "request \<Rightarrow> string" where
  "http_path r = (if hr_pattern r = '''' then Path (request_url r) else hr_pattern r)"

definition MetricsMiddleware ::
    "duration \<Rightarrow> ('s, 'q, 'b) api handler \<Rightarrow> ('s, 'q, 'b) api handler" where
  "MetricsMiddleware elapsed inner r a =
     (case inner r a of
        None \<Rightarrow> None
      | Some (cs, r', a') \<Rightarrow>
          Some (cs, r', a'\<lparr>a_metrics := map_option
            (RecordHTTP (hr_method r') (http_path r') (itoa (recorded_code 200 cs)) elapsed) (a_metrics a')\<rparr>))"

section \<open>The standard library's own answers\<close>

definition http_error :: "string \<Rightarrow> int \<Rightarrow> call list" where
  "http_error msg c =
     [SetHeader ''Content-Type'' ''text/plain; charset=utf-8'',
      SetHeader ''X-Content-Type-Options'' ''nosniff'', WriteHeader c, WriteBody (msg @ [CHR 0x0A])]"

definition html_escape :: "string \<Rightarrow> string" where
  "html_escape s = concat (map (\<lambda>c.
     if c = CHR ''&'' then ''&amp;'' else if c = CHR ''<'' then ''&lt;'' else if c = CHR ''>'' then ''&gt;''
     else if c = CHR 0x22 then ''&#34;'' else if c = CHR 0x27 then ''&#39;'' else [c]) s)"

definition redirect :: "request \<Rightarrow> string \<Rightarrow> call list" where
  "redirect r path =
     (let q = RawQuery (request_url r);
          target = escape EncodePath path @ (if q = '''' then '''' else CHR ''?'' # q)
      in [SetHeader ''Location'' target]
         @ (if hr_method r = ''GET'' \<or> hr_method r = ''HEAD''
            then [SetHeader ''Content-Type'' ''text/html; charset=utf-8''] else [])
         @ [WriteHeader 301]
         @ (if hr_method r = ''GET''
            then [WriteBody (''<a href='' @ [quote] @ html_escape target @ [quote]
                             @ ''>Moved Permanently</a>.'' @ [CHR 0x0A, CHR 0x0A])]
            else []))"

section \<open>Routes\<close>

datatype route = RDashboard | RSubmit | RGet | RCancel | RJobsWebSocket | RHealth | RReady | RSpec | RMetricsPage | RVersion

definition routes :: "route mux" where
  "routes =
     [(''GET /'', RDashboard), (''POST /pdf'', RSubmit), (''GET /pdf/{id}'', RGet),
      (''DELETE /pdf/{id}'', RCancel), (''POST /pdf/{id}/cancel'', RCancel),
      (''GET /ws/jobs'', RJobsWebSocket), (''GET /healthz'', RHealth), (''GET /readyz'', RReady),
      (''GET /openapi.yaml'', RSpec), (''GET /metrics'', RMetricsPage), (''GET /version'', RVersion)]"

text \<open>
  What one request depends on besides the server's state: the interfaces, the options, new ids,
  clock readings, what the connection does, and the page template's output with whether it failed.
\<close>

record ('s, 'q, 'b) env =
  e_store :: "'s store_ops"
  e_queue :: "'q queue_ops"
  e_blobs :: "'b blob_ops"
  e_options :: HandlerOptions
  e_version :: string
  e_openapi :: string
  e_print :: "nat \<Rightarrow> bool"
  e_job_id :: string
  e_request_id :: string
  e_now :: time
  e_set_now :: time
  e_elapsed :: duration
  e_page :: "string \<times> bool"
  e_writer :: ws_writer

definition api_request :: "request \<Rightarrow> http_request" where
  "api_request r =
     \<lparr>decoded_body = decode_submit (hr_text r), idempotency_header = header_get r ''Idempotency-Key'',
      path_id = path_value (hr_values r) ''id'', ctx_request_id = RequestIDFromContext r\<rparr>"

text \<open>An answer of the API as calls; an explicit \<open>WriteHeader(200)\<close> is the same as none.\<close>

definition answer_calls :: "string \<Rightarrow> http_response \<Rightarrow> call list" where
  "answer_calls openapi resp =
     map (\<lambda>(k, v). SetHeader k v) (headers resp)
     @ (if code resp = 200 then [] else [WriteHeader (code resp)])
     @ [WriteBody (body_text openapi (body resp))]"

text \<open>The template's output goes out as it is rendered; a failure after that answers a second time.\<close>

definition dashboard_calls :: "request \<Rightarrow> string \<times> bool \<Rightarrow> call list" where
  "dashboard_calls r page =
     SetHeader ''Content-Type'' ''text/html; charset=utf-8''
     # (if fst page = '''' then [] else [WriteBody (fst page)])
     @ (if snd page
        then answer_calls '''' (writeError (api_request r) [] 500 ''dashboard_render_failed''
               ''Failed to render dashboard'')
        else [])"

definition websocket_request :: "request \<Rightarrow> ws_request" where
  "websocket_request r =
     \<lparr>h_Upgrade = header_get r ''Upgrade'', h_Connection = header_get r ''Connection'',
      h_Key = header_get r ''Sec-Websocket-Key''\<rparr>"

definition hijack_taken :: "ws_writer \<Rightarrow> request \<Rightarrow> bool" where
  "hijack_taken w r =
     (case accept (w\<lparr>ws_write := None, ws_flush := None\<rparr>) (websocket_request r) of
        Inl _ \<Rightarrow> False | Inr _ \<Rightarrow> True)"

definition websocket_calls :: "ws_writer \<Rightarrow> request \<Rightarrow> call list" where
  "websocket_calls w r =
     (case accept w (websocket_request r) of
        Inl e \<Rightarrow> (if hijack_taken w r then [Hijacked ''''] else []) @ http_error (error_text e) 400
      | Inr greeting \<Rightarrow> [Hijacked greeting])"
text \<open>The closures \<open>SetQueueStats\<close> and \<open>SetStorageStats\<close> install.\<close>

definition queue_stats :: "'q queue_ops \<Rightarrow> 'q \<Rightarrow> 'q \<times> int \<times> int" where
  "queue_stats Q q =
     (case q_Len Q q of
        (q', Inl _) \<Rightarrow> (q', 0, q_Cap Q q')
      | (q', Inr depth) \<Rightarrow> (q', depth, q_Cap Q q'))"

definition metrics_page ::
    "('s, 'q, 'b) env \<Rightarrow> ('s, 'q, 'b) api \<Rightarrow> (call list \<times> ('s, 'q, 'b) api) option" where
  "metrics_page E a =
     (case (queue_stats (e_queue E) (a_queue a), s_Stats (e_store E) (a_store a)) of
        ((q', qs), (s', st)) \<Rightarrow>
          (case WritePrometheus (e_print E) (case a_metrics a of None \<Rightarrow> NewMetrics | Some m \<Rightarrow> m)
                  (Some qs) (Some st) of
             None \<Rightarrow> None
           | Some out \<Rightarrow>
               Some ([SetHeader ''Content-Type'' ''text/plain; version=0.0.4; charset=utf-8'', WriteBody out],
                     a\<lparr>a_queue := q', a_store := s'\<rparr>)))"

definition version_calls :: "('s, 'q, 'b) env \<Rightarrow> call list" where
  "version_calls E =
     [SetHeader ''Content-Type'' ''application/json'',
      WriteBody (''{'' @ [quote] @ ''version'' @ [quote] @ '':'' @ go_quote (e_print E) (e_version E) @ ''}''
                 @ [CHR 0x0A])]"

definition run_route ::
    "('s, 'q, 'b) env \<Rightarrow> route \<Rightarrow> request \<Rightarrow> ('s, 'q, 'b) api \<Rightarrow> (call list \<times> ('s, 'q, 'b) api) option" where
  "run_route E rt r a =
     (let answer = (\<lambda>(a', resp). Some (answer_calls (e_openapi E) resp, a'))
      in case rt of
           RDashboard \<Rightarrow> Some (dashboard_calls r (e_page E), a)
         | RSubmit \<Rightarrow> answer (SubmitJob (e_store E) (e_queue E) (e_options E) (e_job_id E) (e_now E)
                               (e_set_now E) (api_request r) a)
         | RGet \<Rightarrow> answer (GetJob (e_store E) (e_blobs E) (api_request r) a)
         | RCancel \<Rightarrow> answer (CancelJob (e_store E) (e_set_now E) (api_request r) a)
         | RJobsWebSocket \<Rightarrow> Some (websocket_calls (e_writer E) r, a)
         | RHealth \<Rightarrow> answer (a, Healthz)
         | RReady \<Rightarrow> answer (a, Readyz)
         | RSpec \<Rightarrow> answer (a, OpenAPI)
         | RMetricsPage \<Rightarrow> metrics_page E a
         | RVersion \<Rightarrow> Some (version_calls E, a))"

text \<open>\<open>ServeMux.ServeHTTP\<close>: the pattern and the path values are set on the request it was given.\<close>

definition serve_mux :: "('s, 'q, 'b) env \<Rightarrow> ('s, 'q, 'b) api handler" where
  "serve_mux E r a =
     (if hr_uri r = ''*'' then Some ([SetHeader ''Connection'' ''close'', WriteHeader 400], r, a)
      else case mux_find routes (hr_method r) (escaped_path r) of
             Found pat rt ms \<Rightarrow>
               (let r1 = r\<lparr>hr_pattern := pat, hr_values := ms\<rparr>
                in map_option (\<lambda>(cs, a'). (cs, r1, a')) (run_route E rt r1 a))
           | Moved path pat \<Rightarrow> Some (redirect r path, r\<lparr>hr_pattern := pat\<rparr>, a)
           | MethodNotAllowed ms \<Rightarrow>
               Some (SetHeader ''Allow'' (join_with '', '' ms) # http_error ''Method Not Allowed'' 405, r, a)
           | NotFound \<Rightarrow> Some (http_error ''404 page not found'' 404, r, a))"

definition serve :: "('s, 'q, 'b) env \<Rightarrow> ('s, 'q, 'b) api handler" where
  "serve E = MetricsMiddleware (e_elapsed E) (RequestMiddleware (e_request_id E) (serve_mux E))"

end
