(* ===== verification/Http_Properties.thy ===== *)
theory Http_Properties
  imports Http_Stack
begin

text \<open>
  What the HTTP stack does with a request, whatever the back-ends are: the routing table as a
  reference definition, what is recorded about each request, and the request id it carries.
\<close>

section \<open>The routing table\<close>

text \<open>What each method serves, by the decoded segments of the path.\<close>

definition get_route :: "string list \<Rightarrow> route outcome" where
  "get_route ss =
     (if ss = [''healthz''] then Found ''GET /healthz'' RHealth []
      else if ss = [''readyz''] then Found ''GET /readyz'' RReady []
      else if ss = [''version''] then Found ''GET /version'' RVersion []
      else if ss = [''metrics''] then Found ''GET /metrics'' RMetricsPage []
      else if ss = [''openapi.yaml''] then Found ''GET /openapi.yaml'' RSpec []
      else if ss = [''ws'', ''jobs''] then Found ''GET /ws/jobs'' RJobsWebSocket []
      else (case ss of
              [p, i] \<Rightarrow> if p = ''pdf'' \<and> i \<noteq> ''/'' then Found ''GET /pdf/{id}'' RGet [(''id'', i)]
                        else Found ''GET /'' RDashboard []
            | _ \<Rightarrow> Found ''GET /'' RDashboard []))"

definition route_table :: "string \<Rightarrow> string list \<Rightarrow> route outcome" where
  "route_table meth ss =
     (let is_job = (case ss of [p, i] \<Rightarrow> p = ''pdf'' \<and> i \<noteq> ''/'' | _ \<Rightarrow> False);
          is_cancel = (case ss of [p, i, c] \<Rightarrow> p = ''pdf'' \<and> i \<noteq> ''/'' \<and> c = ''cancel'' | _ \<Rightarrow> False)
      in if meth = ''GET'' \<or> meth = ''HEAD'' then get_route ss
         else if meth = ''POST'' \<and> ss = [''pdf''] then Found ''POST /pdf'' RSubmit []
         else if meth = ''POST'' \<and> is_cancel then Found ''POST /pdf/{id}/cancel'' RCancel [(''id'', ss ! 1)]
         else if meth = ''DELETE'' \<and> is_job then Found ''DELETE /pdf/{id}'' RCancel [(''id'', ss ! 1)]
         else MethodNotAllowed ((if is_job then [''DELETE''] else []) @ [''GET'', ''HEAD'']
                                @ (if ss = [''pdf''] \<or> is_cancel then [''POST''] else [])))"

definition get_table :: "(seg list \<times> string \<times> route) list" where
  "get_table =
     [([Rest], ''GET /'', RDashboard), ([Lit ''pdf'', Wild ''id''], ''GET /pdf/{id}'', RGet),
      ([Lit ''ws'', Lit ''jobs''], ''GET /ws/jobs'', RJobsWebSocket), ([Lit ''healthz''], ''GET /healthz'', RHealth),
      ([Lit ''readyz''], ''GET /readyz'', RReady), ([Lit ''openapi.yaml''], ''GET /openapi.yaml'', RSpec),
      ([Lit ''metrics''], ''GET /metrics'', RMetricsPage), ([Lit ''version''], ''GET /version'', RVersion)]"

definition post_table :: "(seg list \<times> string \<times> route) list" where
  "post_table =
     [([Lit ''pdf''], ''POST /pdf'', RSubmit), ([Lit ''pdf'', Wild ''id'', Lit ''cancel''], ''POST /pdf/{id}/cancel'', RCancel)]"

definition delete_table :: "(seg list \<times> string \<times> route) list" where
  "delete_table = [([Lit ''pdf'', Wild ''id''], ''DELETE /pdf/{id}'', RCancel)]"

lemma parsed_routes:
  "for_method ''GET'' routes = get_table" "for_method ''POST'' routes = post_table"
  "for_method ''DELETE'' routes = delete_table" "methods_of routes = [''DELETE'', ''POST'', ''GET'']"
  by code_simp+

lemma other_methods: "meth \<notin> set (methods_of m) \<Longrightarrow> for_method meth m = []"
  by (force simp: for_method_def methods_of_def map_filter_def filter_empty_conv image_iff split: prod.splits if_splits)

lemma names_of_patterns:
  "wild_names (snd (parse_pattern ''GET /'')) = []"
  "wild_names (snd (parse_pattern ''GET /pdf/{id}'')) = [''id'']"
  "wild_names (snd (parse_pattern ''GET /ws/jobs'')) = []"
  "wild_names (snd (parse_pattern ''GET /healthz'')) = []"
  "wild_names (snd (parse_pattern ''GET /readyz'')) = []"
  "wild_names (snd (parse_pattern ''GET /openapi.yaml'')) = []"
  "wild_names (snd (parse_pattern ''GET /metrics'')) = []"
  "wild_names (snd (parse_pattern ''GET /version'')) = []"
  "wild_names (snd (parse_pattern ''POST /pdf'')) = []"
  "wild_names (snd (parse_pattern ''POST /pdf/{id}/cancel'')) = [''id'']"
  "wild_names (snd (parse_pattern ''DELETE /pdf/{id}'')) = [''id'']"
  by code_simp+

lemma after_lit_simps [simp]:
  "after_lit s [] = []"
  "after_lit s ((Lit t # us, h) # ps) = (if t = s then (us, h) # after_lit s ps else after_lit s ps)"
  "after_lit s ((Wild n # us, h) # ps) = after_lit s ps"
  "after_lit s ((Rest # us, h) # ps) = after_lit s ps"
  "after_lit s (([], h) # ps) = after_lit s ps"
  by (simp_all add: after_lit_def List.map_filter_simps)

lemma after_wild_simps [simp]:
  "after_wild [] = []"
  "after_wild ((Lit t # us, h) # ps) = after_wild ps"
  "after_wild ((Wild n # us, h) # ps) = (us, h) # after_wild ps"
  "after_wild ((Rest # us, h) # ps) = after_wild ps"
  "after_wild (([], h) # ps) = after_wild ps"
  by (simp_all add: after_wild_def List.map_filter_simps)

lemma whole_simps [simp]:
  "whole ts [] = None"
  "whole ts ((us, h) # ps) = (if us = ts then Some h else whole ts ps)"
  by (simp_all add: whole_def)

lemma match_empty [simp]: "match_segs [] ss = None"
  by (induction ss) simp_all

lemma match_done [simp]: "match_segs [([], h)] ss = (if ss = [] then Some (h, []) else None)"
  by (cases ss) simp_all

lemma match_last_wild [simp]:
  "match_segs [([Wild n], h)] ss = (case ss of [i] \<Rightarrow> if i = ''/'' then None else Some (h, [i]) | _ \<Rightarrow> None)"
  by (cases ss) (auto split: list.splits)

lemma match_last_lit [simp]:
  "match_segs [([Lit t], h)] ss = (if ss = [t] then Some (h, []) else None)"
  by (cases ss) auto

definition found_by :: "(string \<times> route) \<times> string list \<Rightarrow> route outcome" where
  "found_by r = (case r of ((pat, h), ms) \<Rightarrow> Found pat h (zip (wild_names (snd (parse_pattern pat))) ms))"

lemma get_heads:
  "after_lit ''pdf'' get_table = [([Wild ''id''], ''GET /pdf/{id}'', RGet)]"
  "after_lit ''ws'' get_table = [([Lit ''jobs''], ''GET /ws/jobs'', RJobsWebSocket)]"
  "after_lit ''healthz'' get_table = [([], ''GET /healthz'', RHealth)]"
  "after_lit ''readyz'' get_table = [([], ''GET /readyz'', RReady)]"
  "after_lit ''openapi.yaml'' get_table = [([], ''GET /openapi.yaml'', RSpec)]"
  "after_lit ''metrics'' get_table = [([], ''GET /metrics'', RMetricsPage)]"
  "after_lit ''version'' get_table = [([], ''GET /version'', RVersion)]"
  "after_wild get_table = []" "whole [Rest] get_table = Some (''GET /'', RDashboard)"
  by code_simp+

lemma get_no_head:
  "s \<notin> {''pdf'', ''ws'', ''healthz'', ''readyz'', ''openapi.yaml'', ''metrics'', ''version''} \<Longrightarrow> after_lit s get_table = []"
  unfolding get_table_def by (simp only: after_lit_simps insert_iff de_Morgan_disj if_False eq_commute [of _ s] simp_thms empty_iff)

lemma match_GET:
  "map_option found_by (match_segs get_table (s # ss)) = Some (get_route (s # ss))"
proof (cases "s \<in> {''pdf'', ''ws'', ''healthz'', ''readyz'', ''openapi.yaml'', ''metrics'', ''version''}")
  case False
  have "get_route (s # ss) = Found ''GET /'' RDashboard []"
    using False by (auto simp: get_route_def split: list.split)
  then show ?thesis using get_no_head [OF False]
    by (simp add: get_heads found_by_def names_of_patterns)
next
  case True
  then show ?thesis
    by (elim insertE emptyE)
      (simp_all add: get_heads get_route_def found_by_def names_of_patterns split: list.split)
qed

lemma match_POST:
  "map_option found_by (match_segs post_table (s # ss)) =
     (if s # ss = [''pdf''] then Some (Found ''POST /pdf'' RSubmit [])
      else (case s # ss of
              [p, i, c] \<Rightarrow> if p = ''pdf'' \<and> i \<noteq> ''/'' \<and> c = ''cancel''
                           then Some (Found ''POST /pdf/{id}/cancel'' RCancel [(''id'', i)]) else None
            | _ \<Rightarrow> None))"
proof (cases "s = ''pdf''")
  case True
  then show ?thesis
    by (cases ss) (auto simp: post_table_def found_by_def names_of_patterns split: list.split)
next
  case False
  then show ?thesis by (simp add: post_table_def eq_commute [of _ s] split: list.split)
qed

lemma match_DELETE:
  "map_option found_by (match_segs delete_table (s # ss)) =
     (case s # ss of
        [p, i] \<Rightarrow> if p = ''pdf'' \<and> i \<noteq> ''/'' then Some (Found ''DELETE /pdf/{id}'' RCancel [(''id'', i)]) else None
      | _ \<Rightarrow> None)"
  by (cases "s = ''pdf''")
    (auto simp: delete_table_def found_by_def names_of_patterns eq_commute [of _ s] split: list.split)

lemma split_on_snoc: "split_on c (s @ [c]) = split_on c s @ [[]]"
  by (induction s) (auto split: list.split simp: Cons_eq_append_conv)

lemma path_segs_nonempty: "path_segs p \<noteq> []"
  by (simp add: path_segs_def Let_def)

lemma path_segs_slash: "p \<noteq> [] \<Longrightarrow> last (path_segs (p @ ''/'')) = ''/''"
  by (cases p) (simp_all add: path_segs_def Let_def split_on_snoc)

lemma match_slash:
  assumes "ss \<noteq> []" and "last ss = ''/''"
  shows "match_segs post_table ss = None" "match_segs delete_table ss = None"
proof -
  obtain s rest where ss: "ss = s # rest" using assms(1) by (cases ss) auto
  have "map_option found_by (match_segs post_table ss) = None" "map_option found_by (match_segs delete_table ss) = None"
    using assms(2) unfolding ss match_POST match_DELETE by (auto split: list.split)
  then show "match_segs post_table ss = None" "match_segs delete_table ss = None" by simp_all
qed

definition job_segs :: "string list \<Rightarrow> bool" where
  "job_segs ss \<longleftrightarrow> (case ss of [p, i] \<Rightarrow> p = ''pdf'' \<and> i \<noteq> ''/'' | _ \<Rightarrow> False)"

definition cancel_segs :: "string list \<Rightarrow> bool" where
  "cancel_segs ss \<longleftrightarrow> (case ss of [p, i, c] \<Rightarrow> p = ''pdf'' \<and> i \<noteq> ''/'' \<and> c = ''cancel'' | _ \<Rightarrow> False)"

lemma match_POST_iff:
  "ss \<noteq> [] \<Longrightarrow> map_option found_by (match_segs post_table ss) =
     (if ss = [''pdf''] then Some (Found ''POST /pdf'' RSubmit [])
      else if cancel_segs ss then Some (Found ''POST /pdf/{id}/cancel'' RCancel [(''id'', ss ! 1)]) else None)"
  by (cases ss) (simp_all add: match_POST cancel_segs_def split: list.split del: match_segs.simps)

lemma match_DELETE_iff:
  "ss \<noteq> [] \<Longrightarrow> map_option found_by (match_segs delete_table ss) =
     (if job_segs ss then Some (Found ''DELETE /pdf/{id}'' RCancel [(''id'', ss ! 1)]) else None)"
  by (cases ss) (simp_all add: match_DELETE job_segs_def split: list.split del: match_segs.simps)

lemma match_GET_iff: "ss \<noteq> [] \<Longrightarrow> map_option found_by (match_segs get_table ss) = Some (get_route ss)"
  by (cases ss) (simp_all only: match_GET not_False_eq_True simp_thms)

lemma sorted_methods:
  "sort (remdups [''HEAD'', ''GET'']) = [''GET'', ''HEAD'']"
  "sort (remdups [''HEAD'', ''POST'', ''GET'']) = [''GET'', ''HEAD'', ''POST'']"
  "sort (remdups [''HEAD'', ''DELETE'', ''GET'']) = [''DELETE'', ''GET'', ''HEAD'']"
  by code_simp+

lemma routes_matching_methods:
  assumes "p \<noteq> []"
  shows "matching_methods routes p =
    (if job_segs (path_segs p) then [''DELETE''] else []) @ [''GET'', ''HEAD'']
    @ (if path_segs p = [''pdf''] \<or> cancel_segs (path_segs p) then [''POST''] else [])"
proof -
  let ?ss = "path_segs p"
  note ne = path_segs_nonempty
  have D: "match_segs delete_table ?ss \<noteq> None \<longleftrightarrow> job_segs ?ss"
    using match_DELETE_iff [OF ne, of p] by (auto split: if_splits)
  have P: "match_segs post_table ?ss \<noteq> None \<longleftrightarrow> ?ss = [''pdf''] \<or> cancel_segs ?ss"
    using match_POST_iff [OF ne, of p] by (auto split: if_splits)
  have G: "match_segs get_table ?ss \<noteq> None" using match_GET_iff [OF ne, of p] by auto
  have slash: "match_segs delete_table (path_segs (p @ ''/'')) = None" "match_segs post_table (path_segs (p @ ''/'')) = None"
    using match_slash [OF ne path_segs_slash [OF assms]] by simp_all
  have excl: "\<not> (job_segs ?ss \<and> (?ss = [''pdf''] \<or> cancel_segs ?ss))"
    by (auto simp: job_segs_def cancel_segs_def split: list.splits)
  show ?thesis
    unfolding matching_methods_def parsed_routes Let_def filter.simps slash D P
    using G excl by (simp add: parsed_routes sorted_methods slash D P)
qed

lemma matching_methods_rest:
  "matching_methods routes p =
    (if job_segs (path_segs p) then [''DELETE''] else []) @ [''GET'', ''HEAD'']
    @ (if path_segs p = [''pdf''] \<or> cancel_segs (path_segs p) then [''POST''] else [])"
proof (cases "p = []")
  case True
  have "path_segs [] = [''/'']" "path_segs ''/'' = [''/'']" by code_simp+
  moreover have "match_segs delete_table [''/''] = None" "match_segs post_table [''/''] = None"
    using match_slash [of "[''/'']"] by simp_all
  moreover have "match_segs get_table [''/''] \<noteq> None" using match_GET_iff [of "[''/'']"] by (auto simp del: match_segs.simps)
  ultimately show ?thesis unfolding True matching_methods_def parsed_routes Let_def
    by (simp add: parsed_routes sorted_methods job_segs_def cancel_segs_def del: match_segs.simps)
qed (rule routes_matching_methods)

text \<open>What the match gives before it is compared whether the path was clean.\<close>

lemma match_table:
  "(case map_option found_by (match_method routes meth path) of
      Some out \<Rightarrow> out | None \<Rightarrow> MethodNotAllowed (matching_methods routes path))
   = route_table meth (path_segs path)"
proof -
  let ?ss = "path_segs path"
  note ne = path_segs_nonempty [of path]
  have tables: "route_table m ?ss =
      (if m = ''GET'' \<or> m = ''HEAD'' then get_route ?ss
       else if m = ''POST'' \<and> ?ss = [''pdf''] then Found ''POST /pdf'' RSubmit []
       else if m = ''POST'' \<and> cancel_segs ?ss then Found ''POST /pdf/{id}/cancel'' RCancel [(''id'', ?ss ! 1)]
       else if m = ''DELETE'' \<and> job_segs ?ss then Found ''DELETE /pdf/{id}'' RCancel [(''id'', ?ss ! 1)]
       else MethodNotAllowed (matching_methods routes path))" for m
    by (simp only: route_table_def job_segs_def cancel_segs_def Let_def matching_methods_rest)
  consider "meth = ''GET''" | "meth = ''HEAD''" | "meth = ''POST''" | "meth = ''DELETE''"
    | "meth \<notin> {''GET'', ''HEAD'', ''POST'', ''DELETE''}" by blast
  then show ?thesis
  proof cases
    case 1
    then show ?thesis using match_GET_iff [OF ne] unfolding tables
      by (auto simp: match_method_def parsed_routes split: option.split)
  next
    case 2
    have "for_method ''HEAD'' routes = []" by (rule other_methods) (simp add: parsed_routes)
    then show ?thesis using 2 match_GET_iff [OF ne] unfolding tables
      by (auto simp: match_method_def parsed_routes)
  next
    case 3
    then show ?thesis using match_POST_iff [OF ne] unfolding tables
      by (auto simp: match_method_def parsed_routes split: option.splits if_splits)
  next
    case 4
    then show ?thesis using match_DELETE_iff [OF ne] unfolding tables
      by (auto simp: match_method_def parsed_routes split: option.splits if_splits)
  next
    case 5
    then have "for_method meth routes = []" by (intro other_methods) (simp add: parsed_routes)
    then show ?thesis using 5 unfolding tables by (simp add: match_method_def)
  qed
qed

text \<open>Every method and path: the table for a clean path, a redirect to the clean one for any other.
  CONNECT is never redirected.\<close>

fun pattern_of :: "'h outcome \<Rightarrow> string" where
  "pattern_of (Found pat h ms) = pat"
| "pattern_of _ = ''''"

definition dispatch_table :: "string \<Rightarrow> string \<Rightarrow> route outcome" where
  "dispatch_table meth path =
     (if meth = ''CONNECT'' \<or> clean_path path = path then route_table meth (path_segs path)
      else Moved (clean_path path) (pattern_of (route_table meth (path_segs (clean_path path)))))"

lemma mux_dispatch: "mux_find routes meth path = dispatch_table meth path"
proof -
  have some: "matching_methods routes p \<noteq> []" for p by (simp add: matching_methods_rest)
  have pat: "(case match_method routes meth p of None \<Rightarrow> '''' | Some ((pat, _), _) \<Rightarrow> pat)
      = pattern_of (route_table meth (path_segs p))" for p
    unfolding match_table [symmetric] by (auto simp: found_by_def split: option.split)
  have same: "(case match_method routes meth p of
        Some ((pat, h), ms) \<Rightarrow> Found pat h (zip (wild_names (snd (parse_pattern pat))) ms)
      | None \<Rightarrow> if matching_methods routes p \<noteq> [] then MethodNotAllowed (matching_methods routes p) else NotFound)
      = route_table meth (path_segs p)" for p
    unfolding match_table [symmetric] by (auto simp: found_by_def some split: option.split)
  define q where "q = (if meth = ''CONNECT'' then path else clean_path path)"
  have "mux_find routes meth path
      = (if q \<noteq> path then Moved q (pattern_of (route_table meth (path_segs q))) else route_table meth (path_segs q))"
    unfolding mux_find_def Let_def q_def [symmetric] pat same by (rule refl)
  then show ?thesis by (auto simp: q_def dispatch_table_def)
qed

lemma mux_table:
  "clean_path path = path \<Longrightarrow> mux_find routes meth path = route_table meth (path_segs path)"
  by (simp add: mux_dispatch dispatch_table_def)





section \<open>The address of a job\<close>

definition path_of :: "string list \<Rightarrow> string" where
  "path_of rs = concat (map (\<lambda>r. CHR ''/'' # r) rs)"

definition clean_seg :: "string \<Rightarrow> bool" where
  "clean_seg r \<longleftrightarrow> r \<noteq> '''' \<and> r \<noteq> ''.'' \<and> r \<noteq> ''..'' \<and> CHR ''/'' \<notin> set r"

lemma split_on_append: "c \<notin> set s \<Longrightarrow> split_on c (s @ c # t) = s # split_on c t"
  by (induction s) auto

lemma split_on_none: "c \<notin> set s \<Longrightarrow> split_on c s = [s]"
  by (induction s) auto

lemma split_path_of:
  "rs \<noteq> [] \<Longrightarrow> list_all clean_seg rs \<Longrightarrow> split_on (CHR ''/'') (tl (path_of rs)) = rs"
proof (induction rs rule: list_nonempty_induct)
  case (single r)
  then show ?case by (simp add: path_of_def clean_seg_def split_on_none)
next
  case (cons r rs)
  then have "path_of rs = CHR ''/'' # tl (path_of rs)" by (cases rs) (simp_all add: path_of_def)
  then have "tl (path_of (r # rs)) = r @ CHR ''/'' # tl (path_of rs)" by (simp add: path_of_def)
  then show ?case using cons by (simp add: clean_seg_def split_on_append)
qed

lemma clean_steps: "list_all clean_seg rs \<Longrightarrow> foldl clean_step acc rs = acc @ rs"
  by (induction rs arbitrary: acc) (simp_all add: clean_seg_def)

lemma join_path_of: "rs \<noteq> [] \<Longrightarrow> CHR ''/'' # join_with ''/'' rs = path_of rs"
proof (induction rs rule: list_nonempty_induct)
  case (cons r rs)
  then show ?case by (cases rs) (simp_all add: path_of_def)
qed (simp add: path_of_def)

lemma clean_path_of:
  assumes "rs \<noteq> []" and "list_all clean_seg rs"
  shows "clean_path (path_of rs) = path_of rs" and "path_segs (path_of rs) = map decode_seg rs"
proof -
  obtain qs r where rs: "rs = qs @ [r]" using assms(1) by (metis rev_exhaust)
  have r: "r \<noteq> []" "CHR ''/'' \<notin> set r" using assms(2) by (simp_all add: rs clean_seg_def)
  have "path_of rs = path_of qs @ CHR ''/'' # r" by (simp add: rs path_of_def)
  then have "last (path_of rs) = last r" using r(1) by simp
  then have "last (path_of rs) \<noteq> CHR ''/''" using r by (metis last_in_set)
  moreover have "path_of rs \<noteq> []" "hd (path_of rs) = CHR ''/''" using assms(1) by (cases rs; simp add: path_of_def)+
  ultimately show "clean_path (path_of rs) = path_of rs"
    by (simp add: clean_path_def Let_def path_clean_def split_path_of [OF assms] clean_steps [OF assms(2)]
        join_path_of [OF assms(1)])
  show "path_segs (path_of rs) = map decode_seg rs"
    using r(1) unfolding path_segs_def split_path_of [OF assms] Let_def by (simp add: rs)
qed


definition plain_seg_char :: "char \<Rightarrow> bool" where
  "plain_seg_char d \<longleftrightarrow> d \<noteq> CHR ''/'' \<and> d \<noteq> CHR ''?'' \<and> valid_encoded [d]"

lemma plain_hex_digit: "d < 16 \<Longrightarrow> plain_seg_char (Go_Url.hex_digit d)"
proof -
  have "list_all (\<lambda>d. plain_seg_char (Go_Url.hex_digit d)) [0..<16]" by code_simp
  then show "d < 16 \<Longrightarrow> plain_seg_char (Go_Url.hex_digit d)" by (simp add: list_all_iff)
qed

lemma plain_unescaped: "\<not> should_escape c EncodePathSegment \<Longrightarrow> plain_seg_char c"
proof -
  assume c: "\<not> should_escape c EncodePathSegment"
  have "should_escape (CHR ''/'') EncodePathSegment" "should_escape (CHR ''?'') EncodePathSegment" by code_simp+
  moreover have "\<not> should_escape c EncodePath" using c by (auto simp: should_escape_def split: if_splits)
  ultimately show ?thesis using c by (auto simp: plain_seg_char_def valid_encoded_def)
qed

lemma escape_char_plain: "list_all plain_seg_char (escape_char EncodePathSegment c)"
proof (cases "should_escape c EncodePathSegment")
  case True
  have "(of_char c :: nat) < 256" using of_char_mod_256 [of c] by (metis mod_less_divisor zero_less_numeral)
  then have "(of_char c :: nat) div 16 < 16" "(of_char c :: nat) mod 16 < 16" by (simp_all add: div_less_iff_less_mult)
  moreover have "plain_seg_char (CHR ''%'')" by code_simp
  ultimately show ?thesis using True by (simp add: escape_char_def plain_hex_digit)
next
  case False
  then show ?thesis by (simp add: escape_char_def plain_unescaped)
qed

lemma path_escape_plain: "list_all plain_seg_char (path_escape s)"
  unfolding path_escape_def escape_def using escape_char_plain by (induction s) simp_all

lemma decode_path_escape [simp]: "decode_seg (path_escape s) = s"
  by (simp add: decode_seg_def path_escape_def unescape_escape)

lemma decode_plain: "CHR ''%'' \<notin> set s \<Longrightarrow> decode_seg s = s"
proof -
  have "CHR ''%'' \<notin> set s \<Longrightarrow> unescape EncodePathSegment s = Some s" by (induction s) auto
  then show "CHR ''%'' \<notin> set s \<Longrightarrow> decode_seg s = s" by (simp add: decode_seg_def)
qed

lemma clean_path_escape:
  assumes "i \<noteq> ''''" "i \<noteq> ''.''" "i \<noteq> ''..''"
  shows "clean_seg (path_escape i)"
proof -
  have "path_escape i \<noteq> s" if "decode_seg s \<noteq> i" for s using that by auto
  moreover have "decode_seg '''' = ''''" "decode_seg ''.'' = ''.''" "decode_seg ''..'' = ''..''"
    by (simp_all add: decode_plain)
  ultimately have "path_escape i \<noteq> ''''" "path_escape i \<noteq> ''.''" "path_escape i \<noteq> ''..''"
    using assms by metis+
  moreover have "CHR ''/'' \<notin> set (path_escape i)"
    using path_escape_plain [of i] by (auto simp: list_all_iff plain_seg_char_def)
  ultimately show ?thesis by (simp add: clean_seg_def)
qed

lemma escaped_path_of:
  assumes "rs \<noteq> []" and "list_all (list_all plain_seg_char) rs" and "hr_uri r = path_of rs"
  shows "escaped_path r = path_of rs"
proof -
  obtain q where q: "path_of rs = CHR ''/'' # q" using assms(1) by (cases rs) (simp_all add: path_of_def)
  have chars: "\<forall>c \<in> set (path_of rs). c \<noteq> CHR ''?'' \<and> valid_encoded [c]"
  proof
    fix c assume "c \<in> set (path_of rs)"
    then have "c = CHR ''/'' \<or> (\<exists>s \<in> set rs. c \<in> set s)" by (auto simp: path_of_def split: if_splits)
    moreover have "valid_encoded ''/''" by code_simp
    ultimately show "c \<noteq> CHR ''?'' \<and> valid_encoded [c]"
      using assms(2) by (auto simp: list_all_iff plain_seg_char_def)
  qed
  then have nq: "CHR ''?'' \<notin> set (path_of rs)" by blast
  have "get_scheme (path_of rs) [] (path_of rs) = Some ('''', path_of rs)"
    unfolding q by (simp add: is_upper_def is_lower_def is_digit_def less_eq_char_def)
  moreover have "fst (split_query (path_of rs)) = path_of rs"
    using nq by (simp add: split_query_def cut_def takeWhile_eq_all_conv) metis
  ultimately have "target_raw_path (hr_uri r) = path_of rs"
    by (simp add: target_raw_path_def assms(3) Let_def)
  moreover have "valid_encoded (path_of rs)" using chars by (auto simp: valid_encoded_def list_all_iff)
  ultimately show ?thesis by (simp add: escaped_path_def EscapedPath_def)
qed

lemma plain_literals:
  "list_all plain_seg_char ''pdf''" "list_all plain_seg_char ''cancel''" "clean_seg ''pdf''" "clean_seg ''cancel''"
  "decode_seg ''pdf'' = ''pdf''" "decode_seg ''cancel'' = ''cancel''"
  by code_simp+

lemma segs_plain:
  "list_all (list_all plain_seg_char) (s # ss) \<longleftrightarrow> list_all plain_seg_char s \<and> list_all (list_all plain_seg_char) ss"
  "list_all (list_all plain_seg_char) []"
  by simp_all

lemma job_path:
  assumes "i \<noteq> ''''" "i \<noteq> ''.''" "i \<noteq> ''..''" and "hr_uri r = path_of [''pdf'', path_escape i]"
  shows "clean_path (escaped_path r) = escaped_path r \<and> path_segs (escaped_path r) = [''pdf'', i]"
proof -
  have e: "escaped_path r = path_of [''pdf'', path_escape i]"
    by (rule escaped_path_of) (simp_all only: segs_plain plain_literals path_escape_plain assms simp_thms list.distinct not_False_eq_True)
  show ?thesis unfolding e
    using clean_path_of [of "[''pdf'', path_escape i]"] clean_path_escape [OF assms(1-3)]
    by (simp add: plain_literals)
qed

lemma cancel_path:
  assumes "i \<noteq> ''''" "i \<noteq> ''.''" "i \<noteq> ''..''" and "hr_uri r = path_of [''pdf'', path_escape i, ''cancel'']"
  shows "clean_path (escaped_path r) = escaped_path r \<and> path_segs (escaped_path r) = [''pdf'', i, ''cancel'']"
proof -
  have e: "escaped_path r = path_of [''pdf'', path_escape i, ''cancel'']"
    by (rule escaped_path_of) (simp_all only: segs_plain plain_literals path_escape_plain assms simp_thms list.distinct not_False_eq_True)
  show ?thesis unfolding e
    using clean_path_of [of "[''pdf'', path_escape i, ''cancel'']"] clean_path_escape [OF assms(1-3)]
    by (simp add: plain_literals)
qed

text \<open>Whatever bytes a job id is made of, the address built from it by path escaping leads back to
  it: GET, DELETE and the cancel address run the handler of exactly that job id. The exceptions are
  the ids no address can name: the empty one, the dot segments and a lone slash.\<close>

theorem job_address_reaches_job:
  assumes id: "i \<noteq> ''''" "i \<noteq> ''.''" "i \<noteq> ''..''" "i \<noteq> ''/''"
    and job: "hr_uri r = path_of [''pdf'', path_escape i]"
    and stop: "hr_uri q = path_of [''pdf'', path_escape i, ''cancel'']"
  shows "serve_mux E (r\<lparr>hr_method := ''GET''\<rparr>) a =
        (case GetJob (e_store E) (e_blobs E) ((api_request r)\<lparr>path_id := i\<rparr>) a of
           (a', resp) \<Rightarrow> Some (answer_calls (e_openapi E) resp,
             r\<lparr>hr_method := ''GET'', hr_pattern := ''GET /pdf/{id}'', hr_values := [(''id'', i)]\<rparr>, a'))
    \<and> serve_mux E (r\<lparr>hr_method := ''DELETE''\<rparr>) a =
        (case CancelJob (e_store E) (e_set_now E) ((api_request r)\<lparr>path_id := i\<rparr>) a of
           (a', resp) \<Rightarrow> Some (answer_calls (e_openapi E) resp,
             r\<lparr>hr_method := ''DELETE'', hr_pattern := ''DELETE /pdf/{id}'', hr_values := [(''id'', i)]\<rparr>, a'))
    \<and> serve_mux E (q\<lparr>hr_method := ''POST''\<rparr>) a =
        (case CancelJob (e_store E) (e_set_now E) ((api_request q)\<lparr>path_id := i\<rparr>) a of
           (a', resp) \<Rightarrow> Some (answer_calls (e_openapi E) resp,
             q\<lparr>hr_method := ''POST'', hr_pattern := ''POST /pdf/{id}/cancel'', hr_values := [(''id'', i)]\<rparr>, a'))"
proof -
  have ep: "escaped_path (x\<lparr>hr_method := m\<rparr>) = escaped_path x" for x m
    by (simp add: escaped_path_def request_url_def)
  have ar: "api_request (x\<lparr>hr_method := m, hr_pattern := p, hr_values := [(''id'', i)]\<rparr>)
      = (api_request x)\<lparr>path_id := i\<rparr>" for x m p
    by (simp add: api_request_def header_get_def RequestIDFromContext_def path_value_def)
  have uri: "hr_uri r \<noteq> ''*''" "hr_uri q \<noteq> ''*''" by (simp_all add: job stop path_of_def)
  note r = job_path [OF id(1-3) job] and q = cancel_path [OF id(1-3) stop]
  have "mux_find routes ''GET'' (escaped_path r) = Found ''GET /pdf/{id}'' RGet [(''id'', i)]"
    "mux_find routes ''DELETE'' (escaped_path r) = Found ''DELETE /pdf/{id}'' RCancel [(''id'', i)]"
    "mux_find routes ''POST'' (escaped_path q) = Found ''POST /pdf/{id}/cancel'' RCancel [(''id'', i)]"
    using mux_table [OF conjunct1 [OF r]] mux_table [OF conjunct1 [OF q]] r q id(4)
    by (simp_all add: route_table_def get_route_def)
  then show ?thesis
    using uri by (simp add: serve_mux_def ep run_route_def ar Let_def split: prod.split)
qed

text \<open>A small service on the in-memory back-ends.\<close>

definition demo_server :: "(mem_storage, mem_queue, mem_blobs) env" where
  "demo_server =
     \<lparr>e_store = mem_store_ops, e_queue = mem_queue_ops, e_blobs = mem_blob_ops,
      e_options = \<lparr>RequireIdempotencyKey = False, DefaultWebhookURL = ''''\<rparr>, e_version = ''dev'',
      e_openapi = '''', e_print = (\<lambda>_. False), e_job_id = ''1f-2'', e_request_id = ''fresh'', e_now = 1,
      e_set_now = 2, e_elapsed = 3, e_page = ('''', False),
      e_writer = \<lparr>ws_hijack = Some (Inr ()), ws_write = None, ws_flush = None\<rparr>\<rparr>"

definition demo_state :: "(mem_storage, mem_queue, mem_blobs) api" where
  "demo_state =
     \<lparr>a_store = NewMemoryStorage, a_queue = \<lparr>buf = [], capacity = 1, recvq = 0, handed = []\<rparr>,
      a_blobs = NewMemoryStore, a_cancels = NewRegistry, a_metrics = Some NewMetrics, a_cancelled = []\<rparr>"

definition demo_http :: "string \<Rightarrow> string \<Rightarrow> string \<Rightarrow> request" where
  "demo_http meth uri data =
     \<lparr>hr_method = meth, hr_uri = uri, hr_header = [], hr_text = data, hr_pattern = '''', hr_values = [],
      hr_ctx_id = None\<rparr>"

theorem job_address_reaches_job_witness:
  "\<exists>cs r' a'. serve_mux demo_server (demo_http ''GET'' ''/pdf/a%2Fb'' '''') demo_state = Some (cs, r', a')
     \<and> hr_values r' = [(''id'', ''a/b'')] \<and> sent_status cs = 404"
proof -
  let ?r = "demo_http '''' ''/pdf/a%2Fb'' ''''" and ?q = "demo_http '''' ''/pdf/a%2Fb/cancel'' ''''"
  have uri: "hr_uri ?r = path_of [''pdf'', path_escape ''a/b'']"
    "hr_uri ?q = path_of [''pdf'', path_escape ''a/b'', ''cancel'']" by code_simp+
  have get: "GetJob mem_store_ops mem_blob_ops r demo_state
      = (demo_state, writeError r [] 404 ''job_not_found'' ''Job not found'')" for r
    by (simp add: GetJob_def demo_state_def mem_Get_def NewMemoryStorage_def)
  have r: "?r\<lparr>hr_method := ''GET''\<rparr> = demo_http ''GET'' ''/pdf/a%2Fb'' ''''" by (simp add: demo_http_def)
  show ?thesis
    using conjunct1 [OF job_address_reaches_job [OF _ _ _ _ uri, of demo_server demo_state]]
    by (simp add: r get demo_server_def answer_calls_def writeError_def json_type_def)
qed

section \<open>What is recorded about a request\<close>

definition hijacked :: "call list \<Rightarrow> bool" where
  "hijacked cs = list_ex (\<lambda>c. case c of Hijacked _ \<Rightarrow> True | _ \<Rightarrow> False) cs"

text \<open>A handler that writes its header at most once, before the body, or takes the connection over.\<close>

fun one_header :: "call list \<Rightarrow> bool" where
  "one_header [] = True"
| "one_header (SetHeader k v # cs) = one_header cs"
| "one_header (WriteHeader c # cs) = list_all (\<lambda>x. case x of WriteBody _ \<Rightarrow> True | _ \<Rightarrow> False) cs"
| "one_header (WriteBody b # cs) = list_all (\<lambda>x. case x of WriteBody _ \<Rightarrow> True | _ \<Rightarrow> False) cs"
| "one_header (Hijacked t # cs) = True"

lemma bodies_recorded:
  "list_all (\<lambda>x. case x of WriteBody _ \<Rightarrow> True | _ \<Rightarrow> False) cs \<Longrightarrow> recorded_code c cs = c"
  by (induction cs) (auto split: call.splits)

lemma recorded_is_sent:
  "one_header cs \<Longrightarrow> \<not> hijacked cs \<Longrightarrow> recorded_code 200 cs = sent_status cs"
  by (induction cs rule: one_header.induct) (simp_all add: bodies_recorded hijacked_def)

lemma headers_first [simp]:
  "one_header (map (\<lambda>(k, v). SetHeader k v) hs @ cs) = one_header cs"
  "hijacked (map (\<lambda>(k, v). SetHeader k v) hs @ cs) = hijacked cs"
  "sent_status (map (\<lambda>(k, v). SetHeader k v) hs @ cs) = sent_status cs"
  "recorded_code c (map (\<lambda>(k, v). SetHeader k v) hs @ cs) = recorded_code c cs"
  by (induction hs) (auto simp: hijacked_def)

lemma answer_one_header [simp]:
  "one_header (answer_calls openapi resp)" "\<not> hijacked (answer_calls openapi resp)"
  "sent_status (answer_calls openapi resp) = code resp"
  "sent_body (answer_calls openapi resp) = body_text openapi (body resp)"
proof -
  have "sent_body (map (\<lambda>(k, v). SetHeader k v) hs @ cs) = sent_body cs" for hs cs
    by (induction hs) auto
  then show "one_header (answer_calls openapi resp)" "\<not> hijacked (answer_calls openapi resp)"
    "sent_status (answer_calls openapi resp) = code resp"
    "sent_body (answer_calls openapi resp) = body_text openapi (body resp)"
    by (simp_all add: answer_calls_def) (simp_all add: hijacked_def)
qed

lemma run_route_one_header:
  assumes "run_route E rt r a = Some (cs, a')" and "rt \<noteq> RDashboard \<or> \<not> snd (e_page E) \<or> fst (e_page E) = ''''"
  shows "one_header cs"
  using assms
  by (auto simp: run_route_def Let_def dashboard_calls_def websocket_calls_def http_error_def
      metrics_page_def version_calls_def split: route.splits prod.splits sum.splits option.splits if_splits)

lemma redirect_one_header: "one_header (redirect r path)" "\<not> hijacked (redirect r path)"
  by (simp_all add: redirect_def Let_def hijacked_def)

text \<open>A page whose template fails after a part of it went out: the one answer that is written twice.\<close>

definition late_failure :: "('s, 'q, 'b) env \<Rightarrow> request \<Rightarrow> bool" where
  "late_failure E r \<longleftrightarrow> snd (e_page E) \<and> fst (e_page E) \<noteq> '''' \<and> hr_uri r \<noteq> ''*''
     \<and> (case mux_find routes (hr_method r) (escaped_path r) of Found pat rt ms \<Rightarrow> rt = RDashboard | _ \<Rightarrow> False)"

lemma serve_mux_one_header:
  assumes "serve_mux E r a = Some (cs, r', a')" and "\<not> late_failure E r"
  shows "one_header cs"
  using assms
  by (auto simp: serve_mux_def http_error_def redirect_one_header late_failure_def Let_def
      split: if_splits outcome.splits intro: run_route_one_header)

lemma serve_mux_late_failure:
  assumes "serve_mux E r a = Some (cs, r', a')" and "late_failure E r"
  shows "\<not> hijacked cs" "sent_status cs = 200" "recorded_code c cs = 500"
  using assms
  by (auto simp: serve_mux_def late_failure_def run_route_def dashboard_calls_def writeError_def answer_calls_def
      json_type_def hijacked_def Let_def split: if_splits outcome.splits)

subsection \<open>A connection that is taken over\<close>

lemma crlf_lines_line: "CHR 0x0D \<notin> set l \<Longrightarrow> crlf_lines (l @ CHR 0x0D # CHR 0x0A # s) = l # crlf_lines s"
proof (induction l)
  case (Cons c l)
  then have l: "crlf_lines (l @ CHR 0x0D # CHR 0x0A # s) = l # crlf_lines s" and c: "c \<noteq> CHR 0x0D" by auto
  obtain d ds where d: "l @ CHR 0x0D # CHR 0x0A # s = d # ds" by (cases l) auto
  show ?case using l c unfolding append_Cons d by simp
qed simp

lemma crlf_lines_text:
  "list_all (\<lambda>l. CHR 0x0D \<notin> set l) ls \<Longrightarrow>
     crlf_lines (concat (map (\<lambda>l. l @ [CHR 0x0D, CHR 0x0A]) ls)) = ls @ [[]]"
  by (induction ls) (simp_all add: crlf_lines_line)

lemma base64_chars: "c \<in> set (base64 bs) \<Longrightarrow> c \<in> set b64_alphabet \<or> c = CHR ''=''"
proof -
  have len: "length b64_alphabet = 64" by code_simp
  have "b64_char n \<in> set b64_alphabet" for n using len by (simp add: b64_char_def)
  then show "c \<in> set (base64 bs) \<Longrightarrow> c \<in> set b64_alphabet \<or> c = CHR ''=''"
    by (induction bs rule: base64.induct) auto
qed

lemma accept_key_chars: "CHR 0x0D \<notin> set (websocketAcceptKey k)" "CHR '' '' \<notin> set (websocketAcceptKey k)"
proof -
  have "CHR 0x0D \<notin> set b64_alphabet" "CHR '' '' \<notin> set b64_alphabet" by code_simp+
  then show "CHR 0x0D \<notin> set (websocketAcceptKey k)" "CHR '' '' \<notin> set (websocketAcceptKey k)"
    using base64_chars unfolding websocketAcceptKey_def by blast+
qed

lemma greeting_sent:
  assumes k: "CHR 0x0D \<notin> set k" "CHR '' '' \<notin> set k"
  shows "raw_status (switching_protocols k) = 101"
    "raw_headers (switching_protocols k)
      = [(''Upgrade'', ''websocket''), (''Connection'', ''Upgrade''), (''Sec-WebSocket-Accept'', k)]"
proof -
  let ?ls = "[''HTTP/1.1 101 Switching Protocols'', ''Upgrade: websocket'', ''Connection: Upgrade'',
      ''Sec-WebSocket-Accept: '' @ k, []]"
  have "switching_protocols k = concat (map (\<lambda>l. l @ [CHR 0x0D, CHR 0x0A]) ?ls)"
    by (simp add: switching_protocols_def crlf_text_def)
  moreover have "list_all (\<lambda>l. CHR 0x0D \<notin> set l) ?ls" using k(1) by simp
  ultimately have lines: "crlf_lines (switching_protocols k) = ?ls @ [[]]" by (simp only: crlf_lines_text)
  have "takeWhile is_digit (drop 9 ''HTTP/1.1 101 Switching Protocols'') = ''101''" by code_simp
  then show "raw_status (switching_protocols k) = 101" by (simp add: raw_status_def lines del: drop_Cons_numeral)
  have "dropWhile (\<lambda>c. c = CHR '' '') k = k" using k(2) by (cases k) auto
  then show "raw_headers (switching_protocols k)
      = [(''Upgrade'', ''websocket''), (''Connection'', ''Upgrade''), (''Sec-WebSocket-Accept'', k)]"
    by (simp add: raw_headers_def lines cut_def)
qed

definition websocket_headers :: "string \<Rightarrow> (string, string) gomap" where
  "websocket_headers key = [(''Upgrade'', ''websocket''), (''Connection'', ''Upgrade''),
     (''Sec-WebSocket-Accept'', websocketAcceptKey key)]"

lemma websocket_hijacked:
  assumes "hijacked (websocket_calls w r)"
  shows "(websocket_calls w r
        = [Hijacked (switching_protocols (websocketAcceptKey (header_get r ''Sec-Websocket-Key'')))])
    \<or> (\<exists>e. websocket_calls w r = Hijacked '''' # http_error e 400)"
proof (cases "accept w (websocket_request r)")
  case (Inl e)
  have "\<not> hijacked (http_error m c)" for m c by (simp add: hijacked_def http_error_def)
  then have "hijack_taken w r" using assms Inl by (auto simp: websocket_calls_def split: if_splits)
  then show ?thesis using Inl by (auto simp: websocket_calls_def)
next
  case (Inr g)
  then have "g = switching_protocols (websocketAcceptKey (header_get r ''Sec-Websocket-Key''))"
    by (auto simp: accept_def websocket_request_def split: if_splits option.splits sum.splits)
  then show ?thesis using Inr by (simp add: websocket_calls_def)
qed

lemma hijacked_simps [simp]:
  "\<not> hijacked []" "hijacked (SetHeader k v # cs) = hijacked cs" "hijacked (WriteHeader c # cs) = hijacked cs"
  "hijacked (WriteBody b # cs) = hijacked cs" "hijacked (Hijacked t # cs)"
  "hijacked (cs @ cs') \<longleftrightarrow> hijacked cs \<or> hijacked cs'"
  by (simp_all add: hijacked_def)

lemma dashboard_not_hijacked [simp]: "\<not> hijacked (dashboard_calls q p)"
  by (cases p) (simp add: dashboard_calls_def)

lemma serve_mux_hijacked:
  assumes "serve_mux E r a = Some (cs, r', a')" and "hijacked cs"
  shows "(cs = [Hijacked (switching_protocols (websocketAcceptKey (header_get r ''Sec-Websocket-Key'')))])
    \<or> (\<exists>e. cs = Hijacked '''' # http_error e 400)"
proof -
  have h: "header_get (x\<lparr>hr_pattern := p, hr_values := m\<rparr>) k = header_get x k" for x p m k
    by (simp add: header_get_def)
  have "\<exists>q. cs = websocket_calls (e_writer E) q \<and> header_get q = header_get r"
    using assms h
    by (auto simp: fun_eq_iff serve_mux_def http_error_def redirect_one_header run_route_def metrics_page_def version_calls_def
        Let_def split: if_splits outcome.splits route.splits prod.splits option.splits)
  then show ?thesis using websocket_hijacked assms(2) by metis
qed

text \<open>What went out on a connection that was taken over, and what is recorded for it.\<close>

lemma serve_hijacked:
  assumes "serve E r a = Some (cs, r', a')" and "hijacked cs"
  shows "(sent_status cs = 101 \<and> sent_headers [] cs = websocket_headers (header_get r ''Sec-Websocket-Key'')
        \<and> recorded_code 200 cs = 200)
    \<or> (sent_status cs = 0 \<and> sent_headers [] cs = [] \<and> sent_body cs = '''' \<and> recorded_code 200 cs = 400)"
proof -
  let ?r = "r\<lparr>hr_ctx_id := Some (request_id (e_request_id E) r)\<rparr>"
  obtain i cs1 r1 a1 where inner: "serve_mux E ?r a = Some (cs1, r1, a1)" and cs: "cs = SetHeader ''X-Request-Id'' i # cs1"
    using assms(1) by (auto simp: serve_def MetricsMiddleware_def RequestMiddleware_def Let_def split: option.splits)
  have "header_get ?r = header_get r" by (simp add: header_get_def fun_eq_iff)
  moreover have "hijacked cs1" using assms(2) by (simp add: cs)
  moreover have "raw_status '''' = 0" "raw_headers '''' = []" by (simp_all add: raw_status_def raw_headers_def)
  ultimately show ?thesis
    using serve_mux_hijacked [OF inner] greeting_sent [OF accept_key_chars]
    by (auto simp: cs websocket_headers_def http_error_def)
qed

text \<open>The handlers touch the job metrics only.\<close>

definition same_http :: "('s, 'q, 'b) api \<Rightarrow> ('s, 'q, 'b) api \<Rightarrow> bool" where
  "same_http a a' \<longleftrightarrow> map_option httpRequests (a_metrics a') = map_option httpRequests (a_metrics a)"

lemma same_http_simps [simp]:
  "same_http a a" "same_http a (recordRejected e a') = same_http a a'"
  "same_http a (recordSubmitted a') = same_http a a'"
  "same_http a (a'\<lparr>a_store := s\<rparr>) = same_http a a'" "same_http a (a'\<lparr>a_queue := q\<rparr>) = same_http a a'"
  "same_http a (a'\<lparr>a_blobs := b\<rparr>) = same_http a a'" "same_http a (a'\<lparr>a_cancelled := c\<rparr>) = same_http a a'"
  by (auto simp: same_http_def recordRejected_def recordSubmitted_def JobRejected_def JobSubmitted_def
      option.map_comp comp_def)

lemma handlers_same_http:
  "SubmitJob S Q opts jid now snow r a = (a', resp) \<Longrightarrow> same_http a a'"
  "GetJob S B r a = (a', resp) \<Longrightarrow> same_http a a'"
  "CancelJob S now r a = (a', resp) \<Longrightarrow> same_http a a'"
  by (auto simp: SubmitJob_def GetJob_def CancelJob_def Let_def split: prod.splits sum.splits option.splits if_splits)

lemma serve_mux_same_http: "serve_mux E r a = Some (cs, r', a') \<Longrightarrow> same_http a a'"
  by (auto simp: serve_mux_def run_route_def metrics_page_def Let_def
      split: if_splits outcome.splits route.splits prod.splits option.splits dest: handlers_same_http)

lemma RecordHTTP_count:
  "gm_get0 (httpRequests (RecordHTTP meth path c d m)) l =
     gm_get0 (httpRequests m) l + (if l = HttpLabel meth path c then 1 else 0)"
  by (simp add: RecordHTTP_def Let_def)

text \<open>C28: Every request that is answered, whatever its route, redirect or refusal, is counted once, under
  its method, the path of its URL and one code: no other counter of the family moves. The code is the
  status that was sent, except where the recorder cannot see it: a WebSocket upgrade goes out as 101
  and counts as 200; one that breaks off after the connection was taken over sends nothing and counts
  as 400; a dashboard page that fails half way goes out as 200 and counts as 500. The pattern of the
  route never becomes the label, because the multiplexer sets it on the copy of the request the inner
  middleware made.\<close>

theorem server_counts_each_request:
  assumes run: "serve E r a = Some (cs, r', a')" and fresh: "hr_pattern r = ''''"
    and m: "a_metrics a = Some m"
  shows "\<exists>m' c. a_metrics a' = Some m'
    \<and> (if hijacked cs then (sent_status cs, c) \<in> {(101, 200), (0, 400)}
       else if late_failure E r then sent_status cs = 200 \<and> c = 500
       else c = sent_status cs)
    \<and> (\<forall>l. gm_get0 (httpRequests m') l = gm_get0 (httpRequests m) l
          + (if l = HttpLabel (hr_method r) (Path (request_url r)) (itoa c) then 1 else 0))"
proof -
  let ?i = "request_id (e_request_id E) r" and ?c = "recorded_code 200 cs"
  let ?r = "r\<lparr>hr_ctx_id := Some ?i\<rparr>"
  obtain cs1 r1 a1 where inner: "serve_mux E ?r a = Some (cs1, r1, a1)"
    and cs: "cs = SetHeader ''X-Request-Id'' ?i # cs1" "r' = r"
    and a': "a' = a1\<lparr>a_metrics := map_option (RecordHTTP (hr_method r) (http_path r) (itoa ?c) (e_elapsed E)) (a_metrics a1)\<rparr>"
    using run by (auto simp: serve_def MetricsMiddleware_def RequestMiddleware_def Let_def split: option.splits)
  obtain m1 where m1: "a_metrics a1 = Some m1" "httpRequests m1 = httpRequests m"
    using serve_mux_same_http [OF inner] m by (auto simp: same_http_def)
  have late: "late_failure E ?r = late_failure E r"
    by (simp add: late_failure_def escaped_path_def request_url_def)
  have "if hijacked cs then (sent_status cs, ?c) \<in> {(101, 200), (0, 400)}
       else if late_failure E r then sent_status cs = 200 \<and> ?c = 500 else ?c = sent_status cs"
    using serve_hijacked [OF run] serve_mux_late_failure [OF inner] recorded_is_sent [of cs]
      serve_mux_one_header [OF inner] late by (auto simp: cs)
  moreover have "http_path r = Path (request_url r)" using fresh by (simp add: http_path_def)
  ultimately show ?thesis using a' m1
    by (intro exI [of _ "RecordHTTP (hr_method r) (http_path r) (itoa ?c) (e_elapsed E) m1"] exI [of _ ?c])
      (simp add: RecordHTTP_count)
qed


definition demo_health :: "call list" where
  "demo_health =
     [SetHeader ''X-Request-Id'' ''fresh'', SetHeader ''Content-Type'' ''application/json'',
      WriteBody ([CHR ''{'', quote] @ ''status'' @ [quote, CHR '':'', quote] @ ''ok'' @ [quote, CHR ''}'', CHR 0x0A])]"

lemma demo_health_runs:
  "map_option fst (serve demo_server (demo_http ''GET'' ''/healthz'' '''') demo_state) = Some demo_health"
  by code_simp

theorem server_counts_each_request_witness:
  "\<exists>r' a' m'. serve demo_server (demo_http ''GET'' ''/healthz'' '''') demo_state = Some (demo_health, r', a')
     \<and> a_metrics a' = Some m' \<and> gm_get0 (httpRequests m') (HttpLabel ''GET'' ''/healthz'' ''200'') = 1
     \<and> gm_get0 (httpRequests m') (HttpLabel ''GET'' ''GET /healthz'' ''200'') = 0"
proof -
  obtain r' a' where run: "serve demo_server (demo_http ''GET'' ''/healthz'' '''') demo_state = Some (demo_health, r', a')"
    using demo_health_runs by (auto split: option.splits)
  have path: "Path (request_url (demo_http ''GET'' ''/healthz'' '''')) = ''/healthz''" by code_simp
  have code: "\<not> hijacked demo_health" "sent_status demo_health = 200" "itoa 200 = ''200''" by code_simp+
  have late: "\<not> late_failure demo_server (demo_http ''GET'' ''/healthz'' [])"
    by (simp add: late_failure_def demo_server_def)
  obtain m' c where m': "a_metrics a' = Some m'" "c = sent_status demo_health"
    "\<forall>l. gm_get0 (httpRequests m') l = gm_get0 (httpRequests NewMetrics) l
        + (if l = HttpLabel ''GET'' ''/healthz'' (itoa c) then 1 else 0)"
    using server_counts_each_request [OF run, of NewMetrics] code(1) late
    by (auto simp: path demo_state_def) (auto simp: demo_http_def)
  then have "gm_get0 (httpRequests m') (HttpLabel ''GET'' ''/healthz'' ''200'') = 1"
    "gm_get0 (httpRequests m') (HttpLabel ''GET'' ''GET /healthz'' ''200'') = 0"
    using code by (simp_all add: NewMetrics_def)
  then show ?thesis using run m'(1) by blast
qed


section \<open>The request id\<close>

definition sets_no_id :: "call list \<Rightarrow> bool" where
  "sets_no_id cs =
     list_all (\<lambda>c. case c of SetHeader k v \<Rightarrow> k \<noteq> ''X-Request-Id'' | _ \<Rightarrow> True) cs"

lemma sets_no_id_simps [simp]:
  "sets_no_id []" "sets_no_id (SetHeader k v # cs) \<longleftrightarrow> k \<noteq> ''X-Request-Id'' \<and> sets_no_id cs"
  "sets_no_id (WriteHeader c # cs) = sets_no_id cs" "sets_no_id (WriteBody b # cs) = sets_no_id cs"
  "sets_no_id (Hijacked b # cs) = sets_no_id cs" "sets_no_id (cs @ cs') \<longleftrightarrow> sets_no_id cs \<and> sets_no_id cs'"
  by (simp_all add: sets_no_id_def)

lemma id_header_sent:
  "sets_no_id cs \<Longrightarrow> \<not> hijacked cs \<Longrightarrow> map_of hs ''X-Request-Id'' = Some i \<Longrightarrow> map_of (sent_headers hs cs) ''X-Request-Id'' = Some i"
  by (induction hs cs rule: sent_headers.induct) auto

lemma answer_no_id:
  "list_all (\<lambda>(k, v). k \<noteq> ''X-Request-Id'') (headers resp) \<Longrightarrow> sets_no_id (answer_calls openapi resp)"
  by (auto simp: sets_no_id_def answer_calls_def list_all_iff)

lemma handler_headers:
  "SubmitJob S Q opts jid now snow r a = (a', resp) \<Longrightarrow> list_all (\<lambda>(k, v). k \<noteq> ''X-Request-Id'') (headers resp)"
  "GetJob S B r a = (a', resp) \<Longrightarrow> list_all (\<lambda>(k, v). k \<noteq> ''X-Request-Id'') (headers resp)"
  "CancelJob S now r a = (a', resp) \<Longrightarrow> list_all (\<lambda>(k, v). k \<noteq> ''X-Request-Id'') (headers resp)"
  by (auto simp: SubmitJob_def GetJob_def CancelJob_def writeError_def accepted_def json_type_def Let_def
      split: prod.splits sum.splits option.splits if_splits)

lemma handler_errors:
  "SubmitJob S Q opts jid now snow r a = (a', resp) \<Longrightarrow> 400 \<le> code resp \<Longrightarrow>
     \<exists>c m. body resp = ErrorResponse c m (ctx_request_id r)"
  "GetJob S B r a = (a', resp) \<Longrightarrow> 400 \<le> code resp \<Longrightarrow> \<exists>c m. body resp = ErrorResponse c m (ctx_request_id r)"
  "CancelJob S now r a = (a', resp) \<Longrightarrow> 400 \<le> code resp \<Longrightarrow> \<exists>c m. body resp = ErrorResponse c m (ctx_request_id r)"
  by (auto simp: SubmitJob_def GetJob_def CancelJob_def Let_def
      split: prod.splits sum.splits option.splits if_splits)

lemma error_no_id: "list_all (\<lambda>(k, v). k \<noteq> ''X-Request-Id'') (headers (writeError r [] c m n))"
  by (simp add: json_type_def writeError_def)

lemma run_route_no_id:
  assumes "run_route E rt r a = Some (cs, a')"
  shows "sets_no_id cs"
  using assms
  by (cases rt) (auto simp: run_route_def Let_def dashboard_calls_def websocket_calls_def http_error_def
      metrics_page_def version_calls_def error_no_id Healthz_def Readyz_def OpenAPI_def json_type_def
      split: prod.splits sum.splits option.splits if_splits dest: handler_headers intro!: answer_no_id)

lemma serve_mux_no_id:
  assumes "serve_mux E r a = Some (cs, r', a')"
  shows "sets_no_id cs"
  using assms
  by (auto simp: serve_mux_def http_error_def redirect_def Let_def
      split: if_splits outcome.splits dest: run_route_no_id)

lemma run_route_error:
  assumes "run_route E rt r a = Some (cs, a')" and "rt \<in> {RSubmit, RGet, RCancel}" and "400 \<le> sent_status cs"
  shows "\<exists>c m. sent_body cs = body_text (e_openapi E) (ErrorResponse c m (ctx_request_id (api_request r)))"
proof -
  obtain resp where resp: "cs = answer_calls (e_openapi E) resp"
    "(a', resp) = SubmitJob (e_store E) (e_queue E) (e_options E) (e_job_id E) (e_now E) (e_set_now E) (api_request r) a
     \<or> (a', resp) = GetJob (e_store E) (e_blobs E) (api_request r) a
     \<or> (a', resp) = CancelJob (e_store E) (e_set_now E) (api_request r) a"
    using assms(1,2) by (cases rt) (auto simp: run_route_def split: prod.splits)
  then have "400 \<le> code resp" using assms(3) by simp
  then show ?thesis using resp by (metis handler_errors answer_one_header(4))
qed

text \<open>C25: Every answer sent through the response writer, error or not, carries the request's id, the
  client's own or a fresh one, and where the API refuses a submission, a query or a cancel, its error
  body names the same id (an answer to HEAD has no body). The one answer without the id is the 101 of
  a WebSocket upgrade, which is written on the connection itself with exactly its three own headers.\<close>

theorem request_id_everywhere:
  assumes "serve E r a = Some (cs, r', a')"
  shows "(\<not> hijacked cs \<longrightarrow> map_of (sent_headers [] cs) ''X-Request-Id'' = Some (request_id (e_request_id E) r))
    \<and> (hijacked cs \<longrightarrow> (sent_status cs = 101 \<and> sent_headers [] cs = websocket_headers (header_get r ''Sec-Websocket-Key''))
         \<or> (sent_status cs = 0 \<and> sent_headers [] cs = [] \<and> sent_body cs = ''''))
    \<and> (\<forall>pat rt ms. hr_uri r \<noteq> ''*'' \<and> hr_method r \<noteq> ''HEAD''
         \<and> mux_find routes (hr_method r) (escaped_path r) = Found pat rt ms
         \<and> rt \<in> {RSubmit, RGet, RCancel} \<and> 400 \<le> sent_status cs
         \<longrightarrow> (\<exists>c m. sent_body cs = body_text (e_openapi E) (ErrorResponse c m (request_id (e_request_id E) r))))"
proof -
  let ?i = "request_id (e_request_id E) r"
  let ?r = "r\<lparr>hr_ctx_id := Some ?i\<rparr>"
  obtain cs1 r1 a1 where inner: "serve_mux E ?r a = Some (cs1, r1, a1)" and cs: "cs = SetHeader ''X-Request-Id'' ?i # cs1"
    using assms by (auto simp: serve_def MetricsMiddleware_def RequestMiddleware_def Let_def split: option.splits)
  have "\<exists>c m. sent_body cs = body_text (e_openapi E) (ErrorResponse c m ?i)"
    if uri: "hr_uri r \<noteq> ''*''" and find: "mux_find routes (hr_method r) (escaped_path r) = Found pat rt ms"
      and rt: "rt \<in> {RSubmit, RGet, RCancel}" and err: "400 \<le> sent_status cs" for pat rt ms
  proof -
    let ?q = "?r\<lparr>hr_pattern := pat, hr_values := ms\<rparr>"
    have "escaped_path ?r = escaped_path r" by (simp add: escaped_path_def request_url_def)
    then obtain a2 where run: "run_route E rt ?q a = Some (cs1, a2)"
      using inner uri find by (auto simp: serve_mux_def Let_def)
    have "400 \<le> sent_status cs1" using err by (simp add: cs)
    from run_route_error [OF run rt this] show ?thesis
      by (simp add: cs api_request_def RequestIDFromContext_def del: body_text.simps)
  qed
  moreover have "map_of (sent_headers [] cs) ''X-Request-Id'' = Some ?i" if "\<not> hijacked cs"
    using id_header_sent [OF serve_mux_no_id [OF inner]] that by (simp add: cs)
  ultimately show ?thesis using serve_hijacked [OF assms] by blast
qed

theorem request_id_everywhere_witness:
  "\<exists>cs r' a'. serve demo_server ((demo_http ''GET'' ''/pdf/x'' '''')\<lparr>hr_header := [(''X-Request-Id'', ''mine'')]\<rparr>) demo_state
       = Some (cs, r', a')
     \<and> map_of (sent_headers [] cs) ''X-Request-Id'' = Some ''mine''
     \<and> (\<exists>c m. sent_body cs = body_text '''' (ErrorResponse c m ''mine''))"
proof -
  let ?r = "(demo_http ''GET'' ''/pdf/x'' '''')\<lparr>hr_header := [(''X-Request-Id'', ''mine'')]\<rparr>"
  have get: "GetJob mem_store_ops mem_blob_ops r demo_state
      = (demo_state, writeError r [] 404 ''job_not_found'' ''Job not found'')" for r
    by (simp add: GetJob_def demo_state_def mem_Get_def NewMemoryStorage_def)
  have find: "mux_find routes (hr_method ?r) (escaped_path (?r\<lparr>hr_ctx_id := i\<rparr>)) = Found ''GET /pdf/{id}'' RGet [(''id'', ''x'')]"
    "hr_uri ?r \<noteq> ''*''" for i by code_simp+
  have "\<exists>cs r' a'. serve demo_server ?r demo_state = Some (cs, r', a') \<and> sent_status cs = 404"
    using find
    by (simp add: serve_def MetricsMiddleware_def RequestMiddleware_def serve_mux_def run_route_def get
        demo_server_def Let_def del: body_text.simps)
  then obtain cs r' a' where run: "serve demo_server ?r demo_state = Some (cs, r', a')" "sent_status cs = 404"
    by blast
  have facts: "request_id (e_request_id demo_server) ?r = ''mine''" "hr_uri ?r \<noteq> ''*''"
    "mux_find routes (hr_method ?r) (escaped_path ?r) = Found ''GET /pdf/{id}'' RGet [(''id'', ''x'')]"
    "e_openapi demo_server = ''''" by code_simp+
  note all = request_id_everywhere [OF run(1), unfolded facts]
  have "\<exists>c m. sent_body cs = body_text '''' (ErrorResponse c m ''mine'')"
    by (rule conjunct2 [OF conjunct2 [OF all], rule_format, of "''GET /pdf/{id}''" RGet "[(''id'', ''x'')]"])
      (use facts(2) run(2) in \<open>simp add: demo_http_def\<close>)
  moreover have "\<not> hijacked cs" using conjunct1 [OF conjunct2 [OF all]] run(2) by auto
  ultimately show ?thesis using run(1) conjunct1 [OF all] by blast
qed

end
