(* ===== verification/Open_Api.thy ===== *)
theory Open_Api
  imports Http_Properties
begin

text \<open>
  The OpenAPI document the service serves (\<open>internal/api/openapi.go\<close>), as the tree its YAML text
  denotes and as that text, and what it promises: which operations exist, which statuses they
  answer, and which JSON schema a body conforms to. The theorems compare it with the routes and
  the handlers.
\<close>

section \<open>The document\<close>

text \<open>A scalar, a list in one line, a list of blocks, a map.\<close>

datatype yaml = YText string | YFlow "string list" | YList "yaml list" | YMap "(string \<times> yaml) list"

definition openapi_head :: "(string \<times> yaml) list" where
  "openapi_head = [
    (''openapi'', YText ''3.0.3''),
    (''info'', YMap [
      (''title'', YText ''ChromaFlow API''),
      (''version'', YText ''0.1.0''),
      (''description'', YText ''API for submitting webpage-to-PDF jobs, polling job status, canceling jobs, downloading completed PDFs, and operating ChromaFlow.'')]),
    (''servers'', YList [YMap [(''url'', YText ''http://localhost:8080'')]])]"

definition openapi_job_paths :: "(string \<times> yaml) list" where
  "openapi_job_paths = [
    (''/'', YMap [
      (''get'', YMap [
        (''summary'', YText ''Dashboard''),
        (''responses'', YMap [
          (''200'', YMap [
            (''description'', YText ''HTML dashboard.''),
            (''content'', YMap [(''text/html'', YMap [(''schema'', YMap [(''type'', YText ''string'')])])])])])])]),
    (''/pdf'', YMap [
      (''post'', YMap [
        (''summary'', YText ''Submit a PDF job''),
        (''requestBody'', YMap [
          (''required'', YText ''true''),
          (''content'', YMap [
            (''application/json'', YMap [(''schema'', YMap [(''$ref'', YText ''#/components/schemas/SubmitRequest'')])])])]),
        (''responses'', YMap [
          (''202'', YMap [
            (''description'', YText ''Job accepted.''),
            (''content'', YMap [
              (''application/json'', YMap [(''schema'', YMap [(''$ref'', YText ''#/components/schemas/SubmitResponse'')])])])]),
          (''400'', YMap [
            (''description'', YText ''Invalid JSON, URL, callback URL, or required idempotency key.''),
            (''content'', YMap [
              (''application/json'', YMap [(''schema'', YMap [(''$ref'', YText ''#/components/schemas/ErrorResponse'')])])])]),
          (''503'', YMap [
            (''description'', YText ''Queue backend is full.''),
            (''content'', YMap [
              (''application/json'', YMap [(''schema'', YMap [(''$ref'', YText ''#/components/schemas/ErrorResponse'')])])])])])])]),
    (''/pdf/{id}'', YMap [
      (''delete'', YMap [
        (''summary'', YText ''Cancel a queued or processing job''),
        (''parameters'', YList [YMap [
            (''name'', YText ''id''),
            (''in'', YText ''path''),
            (''required'', YText ''true''),
            (''schema'', YMap [(''type'', YText ''string''), (''format'', YText ''uuid'')])]]),
        (''responses'', YMap [
          (''200'', YMap [
            (''description'', YText ''Job canceled or already terminal.''),
            (''content'', YMap [
              (''application/json'', YMap [(''schema'', YMap [(''$ref'', YText ''#/components/schemas/JobStatus'')])])])]),
          (''404'', YMap [(''description'', YText ''Job not found.'')])])]),
      (''get'', YMap [
        (''summary'', YText ''Fetch job status or completed PDF''),
        (''parameters'', YList [YMap [
            (''name'', YText ''id''),
            (''in'', YText ''path''),
            (''required'', YText ''true''),
            (''schema'', YMap [(''type'', YText ''string''), (''format'', YText ''uuid'')])]]),
        (''responses'', YMap [
          (''200'', YMap [
            (''description'', YText ''Job status JSON for non-completed jobs or PDF bytes for completed jobs.''),
            (''content'', YMap [
              (''application/json'', YMap [(''schema'', YMap [(''$ref'', YText ''#/components/schemas/JobStatus'')])]),
              (''application/pdf'', YMap [
                (''schema'', YMap [(''type'', YText ''string''), (''format'', YText ''binary'')])])])]),
          (''404'', YMap [
            (''description'', YText ''Job not found.''),
            (''content'', YMap [
              (''application/json'', YMap [(''schema'', YMap [(''$ref'', YText ''#/components/schemas/ErrorResponse'')])])])])])])]),
    (''/pdf/{id}/cancel'', YMap [
      (''post'', YMap [
        (''summary'', YText ''Cancel a queued or processing job''),
        (''parameters'', YList [YMap [
            (''name'', YText ''id''),
            (''in'', YText ''path''),
            (''required'', YText ''true''),
            (''schema'', YMap [(''type'', YText ''string''), (''format'', YText ''uuid'')])]]),
        (''responses'', YMap [
          (''200'', YMap [
            (''description'', YText ''Job canceled or already terminal.''),
            (''content'', YMap [
              (''application/json'', YMap [(''schema'', YMap [(''$ref'', YText ''#/components/schemas/JobStatus'')])])])]),
          (''404'', YMap [(''description'', YText ''Job not found.'')])])])])]"

definition openapi_other_paths :: "(string \<times> yaml) list" where
  "openapi_other_paths = [
    (''/ws/jobs'', YMap [
      (''get'', YMap [
        (''summary'', YText ''Job snapshot websocket''),
        (''description'', YText ''Upgrades to a websocket and sends full job snapshot messages whenever jobs change.''),
        (''responses'', YMap [
          (''101'', YMap [(''description'', YText ''Websocket upgrade accepted.'')]),
          (''400'', YMap [(''description'', YText ''Websocket upgrade failed.'')])])])]),
    (''/healthz'', YMap [
      (''get'', YMap [
        (''summary'', YText ''Liveness probe''),
        (''responses'', YMap [
          (''200'', YMap [
            (''description'', YText ''Service is alive.''),
            (''content'', YMap [
              (''application/json'', YMap [(''schema'', YMap [(''$ref'', YText ''#/components/schemas/HealthStatus'')])])])])])])]),
    (''/readyz'', YMap [
      (''get'', YMap [
        (''summary'', YText ''Readiness probe''),
        (''responses'', YMap [
          (''200'', YMap [
            (''description'', YText ''Service is ready to accept traffic.''),
            (''content'', YMap [
              (''application/json'', YMap [(''schema'', YMap [(''$ref'', YText ''#/components/schemas/ReadyStatus'')])])])])])])]),
    (''/version'', YMap [
      (''get'', YMap [
        (''summary'', YText ''Build version''),
        (''responses'', YMap [
          (''200'', YMap [
            (''description'', YText ''Build version injected at compile time.''),
            (''content'', YMap [
              (''application/json'', YMap [(''schema'', YMap [(''$ref'', YText ''#/components/schemas/Version'')])])])])])])]),
    (''/metrics'', YMap [
      (''get'', YMap [
        (''summary'', YText ''Prometheus metrics''),
        (''responses'', YMap [
          (''200'', YMap [
            (''description'', YText ''Metrics in Prometheus text exposition format.''),
            (''content'', YMap [(''text/plain'', YMap [(''schema'', YMap [(''type'', YText ''string'')])])])])])])]),
    (''/openapi.yaml'', YMap [
      (''get'', YMap [
        (''summary'', YText ''OpenAPI document''),
        (''responses'', YMap [
          (''200'', YMap [
            (''description'', YText ''OpenAPI YAML document.''),
            (''content'', YMap [(''application/yaml'', YMap [(''schema'', YMap [(''type'', YText ''string'')])])])])])])])]"

definition openapi_schemas :: "(string \<times> yaml) list" where
  "openapi_schemas = [
    (''SubmitRequest'', YMap [
      (''type'', YText ''object''),
      (''required'', YFlow [''url'']),
      (''properties'', YMap [
        (''url'', YMap [
          (''type'', YText ''string''),
          (''format'', YText ''uri''),
          (''example'', YText ''https://example.com'')]),
        (''idempotency_key'', YMap [(''type'', YText ''string''), (''example'', YText ''tenant-a-report-2026-05-12'')]),
        (''callback_url'', YMap [
          (''type'', YText ''string''),
          (''format'', YText ''uri''),
          (''example'', YText ''https://client.example/webhooks/chromaflow'')])])]),
    (''SubmitResponse'', YMap [
      (''type'', YText ''object''),
      (''required'', YFlow [''job_id'', ''status_url'']),
      (''properties'', YMap [
        (''job_id'', YMap [(''type'', YText ''string''), (''format'', YText ''uuid'')]),
        (''status_url'', YMap [
          (''type'', YText ''string''),
          (''example'', YText ''/pdf/00000000-0000-0000-0000-000000000000'')]),
        (''idempotent'', YMap [(''type'', YText ''boolean'')])])]),
    (''JobStatus'', YMap [
      (''type'', YText ''object''),
      (''required'', YFlow [''job_id'', ''url'', ''status'', ''error'']),
      (''properties'', YMap [
        (''job_id'', YMap [(''type'', YText ''string''), (''format'', YText ''uuid'')]),
        (''url'', YMap [(''type'', YText ''string''), (''format'', YText ''uri'')]),
        (''status'', YMap [
          (''type'', YText ''string''),
          (''enum'', YFlow [''pending'', ''processing'', ''completed'', ''failed'', ''canceled''])]),
        (''error'', YMap [(''type'', YText ''string'')])])]),
    (''JobSnapshotMessage'', YMap [
      (''type'', YText ''object''),
      (''required'', YFlow [''type'', ''jobs'']),
      (''properties'', YMap [
        (''type'', YMap [(''type'', YText ''string''), (''enum'', YFlow [''jobs''])]),
        (''jobs'', YMap [
          (''type'', YText ''array''),
          (''items'', YMap [(''$ref'', YText ''#/components/schemas/JobSnapshot'')])])])]),
    (''JobSnapshot'', YMap [
      (''type'', YText ''object''),
      (''required'', YFlow [''id'', ''url'', ''status'', ''created_at'', ''updated_at'']),
      (''properties'', YMap [
        (''id'', YMap [(''type'', YText ''string''), (''format'', YText ''uuid'')]),
        (''url'', YMap [(''type'', YText ''string''), (''format'', YText ''uri'')]),
        (''status'', YMap [
          (''type'', YText ''string''),
          (''enum'', YFlow [''pending'', ''processing'', ''completed'', ''failed'', ''canceled''])]),
        (''error'', YMap [(''type'', YText ''string'')]),
        (''created_at'', YMap [(''type'', YText ''string''), (''format'', YText ''date-time'')]),
        (''updated_at'', YMap [(''type'', YText ''string''), (''format'', YText ''date-time'')])])]),
    (''ErrorResponse'', YMap [
      (''type'', YText ''object''),
      (''required'', YFlow [''error'', ''message'']),
      (''properties'', YMap [
        (''error'', YMap [(''type'', YText ''string''), (''example'', YText ''job_not_found'')]),
        (''message'', YMap [(''type'', YText ''string''), (''example'', YText ''Job not found'')]),
        (''request_id'', YMap [(''type'', YText ''string'')])])]),
    (''HealthStatus'', YMap [
      (''type'', YText ''object''),
      (''properties'', YMap [(''status'', YMap [(''type'', YText ''string''), (''example'', YText ''ok'')])])]),
    (''ReadyStatus'', YMap [
      (''type'', YText ''object''),
      (''properties'', YMap [(''status'', YMap [(''type'', YText ''string''), (''example'', YText ''ready'')])])]),
    (''Version'', YMap [
      (''type'', YText ''object''),
      (''properties'', YMap [(''version'', YMap [(''type'', YText ''string''), (''example'', YText ''v0.1.0'')])])])]"

definition openAPISpec :: "(string \<times> yaml) list" where
  "openAPISpec =
     openapi_head @ [(''paths'', YMap (openapi_job_paths @ openapi_other_paths)),
                     (''components'', YMap [(''schemas'', YMap openapi_schemas)])]"

section \<open>Its text\<close>

text \<open>Keys of digits only and scalars with a number sign are quoted, as the document has them.\<close>

definition quoted :: "string \<Rightarrow> string" where
  "quoted s = CHR 0x27 # s @ [CHR 0x27]"

definition yaml_key :: "string \<Rightarrow> string" where
  "yaml_key k = (if k \<noteq> [] \<and> list_all is_digit k then quoted k else k)"

definition yaml_scalar :: "string \<Rightarrow> string" where
  "yaml_scalar s = (if CHR ''#'' \<in> set s then quoted s else s)"

definition indent :: "nat \<Rightarrow> string" where
  "indent n = replicate n (CHR '' '')"

text \<open>A list item: its lines, indented as a map, with a dash in front of the first.\<close>

definition dashed :: "nat \<Rightarrow> string list \<Rightarrow> string list" where
  "dashed n ls = (case ls of [] \<Rightarrow> [] | l # rest \<Rightarrow> (indent n @ ''- '' @ drop (n + 2) l) # rest)"

fun yaml_lines :: "nat \<Rightarrow> yaml \<Rightarrow> string list" where
  "yaml_lines n (YMap kvs) = concat (map (\<lambda>(k, v).
     case v of
       YText s \<Rightarrow> [indent n @ yaml_key k @ '': '' @ yaml_scalar s]
     | YFlow xs \<Rightarrow> [indent n @ yaml_key k @ '': ['' @ join_with '', '' xs @ '']'']
     | _ \<Rightarrow> (indent n @ yaml_key k @ '':'') # yaml_lines (n + 2) v) kvs)"
| "yaml_lines n (YList vs) = concat (map (\<lambda>v. dashed n (yaml_lines (n + 2) v)) vs)"
| "yaml_lines n (YText s) = [indent n @ yaml_scalar s]"
| "yaml_lines n (YFlow xs) = [indent n @ ''['' @ join_with '', '' xs @ '']'']"

definition openapi_text :: string where
  "openapi_text = concat (map (\<lambda>l. l @ [CHR 0x0A]) (yaml_lines 0 (YMap openAPISpec)))"

section \<open>Reading it\<close>

fun yget :: "string \<Rightarrow> yaml \<Rightarrow> yaml option" where
  "yget k (YMap kvs) = map_of kvs k"
| "yget k _ = None"

fun ytext :: "yaml option \<Rightarrow> string option" where
  "ytext (Some (YText s)) = Some s"
| "ytext _ = None"

fun ylist :: "yaml option \<Rightarrow> string list" where
  "ylist (Some (YFlow xs)) = xs"
| "ylist _ = []"

definition y_at :: "yaml option \<Rightarrow> string \<Rightarrow> yaml option" where
  "y_at y k = Option.bind y (yget k)"

definition spec_operation :: "string \<Rightarrow> string \<Rightarrow> yaml option" where
  "spec_operation path meth = y_at (y_at (y_at (Some (YMap openAPISpec)) ''paths'') path) meth"

definition spec_response :: "string \<Rightarrow> string \<Rightarrow> int \<Rightarrow> yaml option" where
  "spec_response path meth status = y_at (y_at (spec_operation path meth) ''responses'') (itoa status)"

text \<open>The operations listed: method in capitals and path.\<close>

definition upper :: "string \<Rightarrow> string" where
  "upper s = map (\<lambda>c. if is_lower c then char_of (of_char c - (32 :: nat)) else c) s"

definition spec_operations :: "(string \<times> string) list" where
  "spec_operations = concat (map (\<lambda>(path, ops). case ops of
     YMap kvs \<Rightarrow> map (\<lambda>(m, _). (upper m, path)) kvs | _ \<Rightarrow> []) (openapi_job_paths @ openapi_other_paths))"

text \<open>
  JSON Schema as far as the document uses it: references, strings with an enumeration, booleans,
  arrays, objects with required and typed members (others are allowed). \<open>format\<close> and \<open>example\<close>
  are annotations. The first argument bounds the depth of references.
\<close>

definition ref_name :: "string \<Rightarrow> string" where
  "ref_name r = snd (cut_last r (CHR ''/''))"

fun conforms :: "nat \<Rightarrow> yaml \<Rightarrow> json \<Rightarrow> bool" where
  "conforms 0 sc v = False"
| "conforms (Suc n) sc v =
     (case ytext (yget ''$ref'' sc) of
        Some r \<Rightarrow> (case map_of openapi_schemas (ref_name r) of None \<Rightarrow> False | Some sc' \<Rightarrow> conforms n sc' v)
      | None \<Rightarrow>
          (case v of
             JStr _ s \<Rightarrow> ytext (yget ''type'' sc) = Some ''string''
                           \<and> (yget ''enum'' sc \<noteq> None \<longrightarrow> s \<in> set (ylist (yget ''enum'' sc)))
           | JBool _ \<Rightarrow> ytext (yget ''type'' sc) = Some ''boolean''
           | JArr vs \<Rightarrow> ytext (yget ''type'' sc) = Some ''array''
               \<and> list_all (\<lambda>w. case yget ''items'' sc of None \<Rightarrow> True | Some sc' \<Rightarrow> conforms n sc' w) vs
           | JObj ms \<Rightarrow> ytext (yget ''type'' sc) = Some ''object''
               \<and> list_all (\<lambda>k. k \<in> set (map fst ms)) (ylist (yget ''required'' sc))
               \<and> list_all (\<lambda>(k, w). case y_at (yget ''properties'' sc) k of
                     None \<Rightarrow> True | Some sc' \<Rightarrow> conforms n sc' w) ms
           | _ \<Rightarrow> False))"

definition schema_depth :: nat where "schema_depth = 8"

definition media_type :: "(string, string) gomap \<Rightarrow> string" where
  "media_type hs = (case map_of hs ''Content-Type'' of None \<Rightarrow> '''' | Some t \<Rightarrow> fst (cut t (CHR '';'')))"

text \<open>
  An answer is as documented: its status is listed, and where a content is, its media type is, and
  a JSON body is one value of the schema given. (No content is listed for the answers of the
  WebSocket and for the 404 of a cancel.)
\<close>

definition documented_answer ::
    "string \<Rightarrow> string \<Rightarrow> int \<Rightarrow> (string, string) gomap \<Rightarrow> string \<Rightarrow> bool" where
  "documented_answer path meth status hs text =
     (case spec_response path meth status of
        None \<Rightarrow> False
      | Some rs \<Rightarrow>
          (case yget ''content'' rs of
             None \<Rightarrow> True
           | Some content \<Rightarrow>
               (case yget (media_type hs) content of
                  None \<Rightarrow> False
                | Some mt \<Rightarrow>
                    media_type hs = ''application/json'' \<longrightarrow>
                      (case json_decode text of
                         None \<Rightarrow> False
                       | Some (v, rest) \<Rightarrow> skip_ws rest = []
                           \<and> (case yget ''schema'' mt of None \<Rightarrow> True | Some sc \<Rightarrow> conforms schema_depth sc v)))))"

definition documented :: "string \<Rightarrow> string \<Rightarrow> http_response \<Rightarrow> bool" where
  "documented path meth resp =
     documented_answer path meth (code resp) (headers resp) (body_text openapi_text (body resp))"

section \<open>The document lists the routes\<close>

definition route_name :: "string \<Rightarrow> string \<times> string" where
  "route_name text = (case cut text (CHR '' '') of (m, p, _) \<Rightarrow> (m, p))"

text \<open>The operations of the document are exactly the registered routes, method by method and path by
  path, each once.\<close>

theorem openapi_lists_routes:
  "distinct spec_operations \<and> distinct (map (route_name \<circ> fst) routes)
   \<and> set spec_operations = set (map (route_name \<circ> fst) routes)"
proof -
  have "distinct spec_operations" "distinct (map (route_name \<circ> fst) routes)"
    "list_all (\<lambda>x. x \<in> set (map (route_name \<circ> fst) routes)) spec_operations"
    "list_all (\<lambda>x. x \<in> set spec_operations) (map (route_name \<circ> fst) routes)"
    by code_simp+
  then show ?thesis by (auto simp only: list_all_iff)
qed

section \<open>The handlers answer as documented\<close>

lemma field_list_decodes:
  assumes "fs \<noteq> []" and "list_all (\<lambda>(k, vt). utf8_valid k \<and> (\<exists>v. reads_as vt v)) fs"
  shows "\<exists>vs. list_all2 (\<lambda>(k, vt) (k', v). k' = k \<and> reads_as vt v) fs vs
    \<and> json_decode (json_object fs @ r) = Some (JObj vs, r)"
proof -
  define pick where "pick vt = (SOME v. reads_as vt v)" for vt
  have pick: "reads_as vt (pick vt)" if "(k, vt) \<in> set fs" for k vt
  proof -
    have "case (k, vt) of (k, vt) \<Rightarrow> utf8_valid k \<and> (\<exists>v. reads_as vt v)"
      using assms(2) that unfolding list_all_iff by (rule bspec)
    then have "\<exists>v. reads_as vt v" by simp
    then show ?thesis unfolding pick_def by (rule someI_ex)
  qed
  let ?ms = "map (\<lambda>(k, vt). (k, vt, pick vt)) fs"
  have "list_all member_ok ?ms"
  proof (unfold list_all_iff, intro ballI)
    fix m assume "m \<in> set ?ms"
    then obtain k vt where m: "(k, vt) \<in> set fs" "m = (k, vt, pick vt)" by auto
    then have "utf8_valid k" using assms(2) by (auto simp: list_all_iff)
    then show "member_ok m" using m pick by (simp add: member_ok_def)
  qed
  then have "json_decode (json_object (map (\<lambda>(k, vt, v). (k, vt)) ?ms) @ r)
      = Some (JObj (map (\<lambda>(k, vt, v). (k, v)) ?ms), r)"
    using assms(1) by (intro json_object_decode) simp_all
  moreover have "map (\<lambda>(k, vt, v). (k, vt)) ?ms = fs" by (simp add: comp_def split_def)
  moreover have "list_all2 (\<lambda>(k, vt) (k', v). k' = k \<and> reads_as vt v) fs (map (\<lambda>(k, vt, v). (k, v)) ?ms)"
    unfolding list.rel_map list_all2_same using pick by auto
  ultimately show ?thesis by (intro exI [of _ "map (\<lambda>(k, vt, v). (k, v)) ?ms"] conjI) simp_all
qed

lemma reads_as_unique: "reads_as vt v \<Longrightarrow> reads_as vt w \<Longrightarrow> v = w"
  unfolding reads_as_def by (metis old.prod.inject option.inject)

lemma text_reads_only: "reads_as (json_string s) v \<Longrightarrow> \<exists>l t. v = JStr l t"
  using text_reads [of s] reads_as_unique by metis

lemma utf8_reads_only: "utf8_valid s \<Longrightarrow> reads_as (json_string s) v \<Longrightarrow> v = JStr (json_escape s) s"
  using json_string_reads reads_as_unique by metis

lemma true_reads: "reads_as ''true'' (JBool True)"
  by (simp add: reads_as_def json_scalar_def has_prefix_def skip_ws_id is_ws_def)

lemma true_reads_only: "reads_as ''true'' v \<Longrightarrow> v = JBool True"
  using true_reads reads_as_unique by metis

definition schema_of :: "string \<Rightarrow> yaml" where
  "schema_of name = YMap [(''$ref'', YText (''#/components/schemas/'' @ name))]"

definition json_body_ok :: "string \<Rightarrow> response_body \<Rightarrow> bool" where
  "json_body_ok name b \<longleftrightarrow>
     (case json_decode (body_text openapi_text b) of
        None \<Rightarrow> False
      | Some (v, rest) \<Rightarrow> skip_ws rest = [] \<and> conforms schema_depth (schema_of name) v)"

lemma json_fields_ok:
  assumes "body_text openapi_text b = json_object fs @ [CHR 0x0A]" and "fs \<noteq> []"
    and "list_all (\<lambda>(k, vt). utf8_valid k \<and> (\<exists>v. reads_as vt v)) fs"
    and "\<And>vs. list_all2 (\<lambda>(k, vt) (k', v). k' = k \<and> reads_as vt v) fs vs \<Longrightarrow>
           conforms schema_depth (schema_of name) (JObj vs)"
  shows "json_body_ok name b"
proof -
  obtain vs where "list_all2 (\<lambda>(k, vt) (k', v). k' = k \<and> reads_as vt v) fs vs"
    "json_decode (json_object fs @ [CHR 0x0A]) = Some (JObj vs, [CHR 0x0A])"
    using field_list_decodes [OF assms(2,3)] by blast
  moreover have "skip_ws [CHR 0x0A] = []" by (simp add: skip_ws_def is_ws_def)
  ultimately show ?thesis using assms(4) by (simp add: json_body_ok_def assms(1))
qed

lemma schemas:
  "map_of openapi_schemas (ref_name (''#/components/schemas/'' @ ''ErrorResponse'')) = Some (YMap [
      (''type'', YText ''object''), (''required'', YFlow [''error'', ''message'']),
      (''properties'', YMap [
        (''error'', YMap [(''type'', YText ''string''), (''example'', YText ''job_not_found'')]),
        (''message'', YMap [(''type'', YText ''string''), (''example'', YText ''Job not found'')]),
        (''request_id'', YMap [(''type'', YText ''string'')])])])"
  "map_of openapi_schemas (ref_name (''#/components/schemas/'' @ ''SubmitResponse'')) = Some (YMap [
      (''type'', YText ''object''), (''required'', YFlow [''job_id'', ''status_url'']),
      (''properties'', YMap [
        (''job_id'', YMap [(''type'', YText ''string''), (''format'', YText ''uuid'')]),
        (''status_url'', YMap [(''type'', YText ''string''), (''example'', YText ''/pdf/00000000-0000-0000-0000-000000000000'')]),
        (''idempotent'', YMap [(''type'', YText ''boolean'')])])])"
  "map_of openapi_schemas (ref_name (''#/components/schemas/'' @ ''JobStatus'')) = Some (YMap [
      (''type'', YText ''object''), (''required'', YFlow [''job_id'', ''url'', ''status'', ''error'']),
      (''properties'', YMap [
        (''job_id'', YMap [(''type'', YText ''string''), (''format'', YText ''uuid'')]),
        (''url'', YMap [(''type'', YText ''string''), (''format'', YText ''uri'')]),
        (''status'', YMap [(''type'', YText ''string''),
          (''enum'', YFlow [''pending'', ''processing'', ''completed'', ''failed'', ''canceled''])]),
        (''error'', YMap [(''type'', YText ''string'')])])])"
  "map_of openapi_schemas (ref_name (''#/components/schemas/'' @ ''HealthStatus'')) = Some (YMap [
      (''type'', YText ''object''),
      (''properties'', YMap [(''status'', YMap [(''type'', YText ''string''), (''example'', YText ''ok'')])])])"
  "map_of openapi_schemas (ref_name (''#/components/schemas/'' @ ''ReadyStatus'')) = Some (YMap [
      (''type'', YText ''object''),
      (''properties'', YMap [(''status'', YMap [(''type'', YText ''string''), (''example'', YText ''ready'')])])])"
  "map_of openapi_schemas (ref_name (''#/components/schemas/'' @ ''Version'')) = Some (YMap [
      (''type'', YText ''object''),
      (''properties'', YMap [(''version'', YMap [(''type'', YText ''string''), (''example'', YText ''v0.1.0'')])])])"
  by code_simp+

lemma names_utf8:
  "utf8_valid ''error''" "utf8_valid ''message''" "utf8_valid ''request_id''" "utf8_valid ''job_id''"
  "utf8_valid ''status_url''" "utf8_valid ''idempotent''" "utf8_valid ''status''" "utf8_valid ''url''"
  by code_simp+

definition known_status :: "JobStatus \<Rightarrow> bool" where
  "known_status s \<longleftrightarrow> s \<in> {StatusPending, StatusProcessing, StatusCompleted, StatusFailed, StatusCanceled}"

lemma known_status_text:
  assumes "known_status s"
  shows "utf8_valid (status_text s) \<and> status_text s \<in> set [''pending'', ''processing'', ''completed'', ''failed'', ''canceled'']"
proof -
  have "utf8_valid ''pending''" "utf8_valid ''processing''" "utf8_valid ''completed''" "utf8_valid ''failed''"
    "utf8_valid ''canceled''" by code_simp+
  then show ?thesis using assms
    by (auto simp: known_status_def StatusPending_def StatusProcessing_def StatusCompleted_def StatusFailed_def
        StatusCanceled_def)
qed

lemma conforms_ref:
  "map_of openapi_schemas (ref_name (''#/components/schemas/'' @ name)) = Some sc \<Longrightarrow>
     conforms schema_depth (schema_of name) v = conforms 7 sc v"
  by (simp add: schema_depth_def schema_of_def eval_nat_numeral)

lemma error_body_ok: "json_body_ok ''ErrorResponse'' (ErrorResponse c m i)"
proof (rule json_fields_ok)
  show "body_text openapi_text (ErrorResponse c m i) = json_object (error_fields c m i) @ [CHR 0x0A]" by simp
  show "list_all (\<lambda>(k, vt). utf8_valid k \<and> (\<exists>v. reads_as vt v)) (error_fields c m i)"
    using text_reads by (auto simp: error_fields_def text_field_def names_utf8)
  fix vs assume "list_all2 (\<lambda>(k, vt) (k', v). k' = k \<and> reads_as vt v) (error_fields c m i) vs"
  then show "conforms schema_depth (schema_of ''ErrorResponse'') (JObj vs)"
    unfolding conforms_ref [OF schemas(1)]
    by (auto simp: error_fields_def text_field_def list_all2_Cons1 y_at_def eval_nat_numeral
        dest!: text_reads_only split: if_splits)
qed (simp add: error_fields_def)

lemma submit_body_ok: "json_body_ok ''SubmitResponse'' (SubmitResponse j u b)"
proof (rule json_fields_ok)
  show "body_text openapi_text (SubmitResponse j u b) = json_object (submit_fields j u b) @ [CHR 0x0A]" by simp
  show "list_all (\<lambda>(k, vt). utf8_valid k \<and> (\<exists>v. reads_as vt v)) (submit_fields j u b)"
    using text_reads true_reads by (auto simp: submit_fields_def text_field_def names_utf8)
  fix vs assume "list_all2 (\<lambda>(k, vt) (k', v). k' = k \<and> reads_as vt v) (submit_fields j u b) vs"
  then show "conforms schema_depth (schema_of ''SubmitResponse'') (JObj vs)"
    unfolding conforms_ref [OF schemas(2)]
    by (auto simp: submit_fields_def text_field_def list_all2_Cons1 y_at_def eval_nat_numeral
        dest!: text_reads_only true_reads_only split: if_splits)
qed (simp add: submit_fields_def)

lemma status_body_ok:
  assumes "known_status s"
  shows "json_body_ok ''JobStatus'' (JobStatusBody j u s e)"
proof (rule json_fields_ok)
  show "body_text openapi_text (JobStatusBody j u s e) = json_object (status_fields j u s e) @ [CHR 0x0A]" by simp
  show "list_all (\<lambda>(k, vt). utf8_valid k \<and> (\<exists>v. reads_as vt v)) (status_fields j u s e)"
    using text_reads by (auto simp: status_fields_def text_field_def names_utf8)
  fix vs assume "list_all2 (\<lambda>(k, vt) (k', v). k' = k \<and> reads_as vt v) (status_fields j u s e) vs"
  then obtain v1 v2 v3 v4 where vs: "vs = [(''error'', v1), (''job_id'', v2), (''status'', v3), (''url'', v4)]"
    and v: "reads_as (json_string e) v1" "reads_as (json_string j) v2"
      "reads_as (json_string (status_text s)) v3" "reads_as (json_string u) v4"
    by (auto simp: status_fields_def text_field_def list_all2_Cons1)
  note st = known_status_text [OF assms]
  have v3: "v3 = JStr (json_escape (status_text s)) (status_text s)"
    by (rule utf8_reads_only [OF conjunct1 [OF st] v(3)])
  obtain l1 t1 l2 t2 l4 t4 where "v1 = JStr l1 t1" "v2 = JStr l2 t2" "v4 = JStr l4 t4"
    using text_reads_only v by metis
  then show "conforms schema_depth (schema_of ''JobStatus'') (JObj vs)"
    unfolding conforms_ref [OF schemas(3)] vs v3 using conjunct2 [OF st]
    by (simp add: y_at_def eval_nat_numeral)qed (simp add: status_fields_def)

lemma probe_body_ok:
  "json_body_ok ''HealthStatus'' (JsonMap [(''status'', ''ok'')])"
  "json_body_ok ''ReadyStatus'' (JsonMap [(''status'', ''ready'')])"
  by code_simp+

lemma documentedI:
  assumes "y_at (y_at (y_at (spec_response path meth (code resp)) ''content'') ''application/json'') ''schema''
      = Some (schema_of name)"
    and "media_type (headers resp) = ''application/json''" and "json_body_ok name (body resp)"
  shows "documented path meth resp"
  using assms by (auto simp: documented_def documented_answer_def json_body_ok_def y_at_def bind_eq_Some_conv split: option.splits prod.splits)

lemma spec_schemas:
  "y_at (y_at (y_at (spec_response ''/pdf'' ''post'' 202) ''content'') ''application/json'') ''schema'' = Some (schema_of ''SubmitResponse'')"
  "y_at (y_at (y_at (spec_response ''/pdf'' ''post'' 400) ''content'') ''application/json'') ''schema'' = Some (schema_of ''ErrorResponse'')"
  "y_at (y_at (y_at (spec_response ''/pdf'' ''post'' 503) ''content'') ''application/json'') ''schema'' = Some (schema_of ''ErrorResponse'')"
  "y_at (y_at (y_at (spec_response ''/pdf/{id}'' ''get'' 200) ''content'') ''application/json'') ''schema'' = Some (schema_of ''JobStatus'')"
  "y_at (y_at (y_at (spec_response ''/pdf/{id}'' ''get'' 404) ''content'') ''application/json'') ''schema'' = Some (schema_of ''ErrorResponse'')"
  "y_at (y_at (y_at (spec_response ''/pdf/{id}'' ''delete'' 200) ''content'') ''application/json'') ''schema'' = Some (schema_of ''JobStatus'')"
  "y_at (y_at (y_at (spec_response ''/pdf/{id}/cancel'' ''post'' 200) ''content'') ''application/json'') ''schema'' = Some (schema_of ''JobStatus'')"
  "y_at (y_at (y_at (spec_response ''/healthz'' ''get'' 200) ''content'') ''application/json'') ''schema'' = Some (schema_of ''HealthStatus'')"
  "y_at (y_at (y_at (spec_response ''/readyz'' ''get'' 200) ''content'') ''application/json'') ''schema'' = Some (schema_of ''ReadyStatus'')"
  by code_simp+

lemma spec_others:
  "y_at (y_at (spec_response ''/pdf/{id}'' ''get'' 200) ''content'') ''application/pdf''
     = Some (YMap [(''schema'', YMap [(''type'', YText ''string''), (''format'', YText ''binary'')])])"
  "y_at (y_at (spec_response ''/openapi.yaml'' ''get'' 200) ''content'') ''application/yaml''
     = Some (YMap [(''schema'', YMap [(''type'', YText ''string'')])])"
  "spec_response ''/pdf/{id}'' ''delete'' 404 = Some (YMap [(''description'', YText ''Job not found.'')])"
  "spec_response ''/pdf/{id}/cancel'' ''post'' 404 = Some (YMap [(''description'', YText ''Job not found.'')])"
  "spec_response ''/pdf'' ''post'' 500 = None" "spec_response ''/pdf/{id}'' ''get'' 500 = None"
  by code_simp+

lemma media_types:
  "media_type [json_type] = ''application/json''" "media_type (json_type # hs) = ''application/json''"
  "media_type [(''Content-Type'', ''application/json'')] = ''application/json''"
  "media_type ((''Content-Type'', ''application/pdf'') # hs) = ''application/pdf''"
  "media_type [(''Content-Type'', ''application/yaml; charset=utf-8'')] = ''application/yaml''"
proof -
  have t: "fst (cut ''application/json'' (CHR '';'')) = ''application/json''"
    "fst (cut ''application/pdf'' (CHR '';'')) = ''application/pdf''"
    "fst (cut ''application/yaml; charset=utf-8'' (CHR '';'')) = ''application/yaml''" by code_simp+
  show "media_type [json_type] = ''application/json''" "media_type (json_type # hs) = ''application/json''"
    "media_type [(''Content-Type'', ''application/json'')] = ''application/json''"
    "media_type ((''Content-Type'', ''application/pdf'') # hs) = ''application/pdf''"
    "media_type [(''Content-Type'', ''application/yaml; charset=utf-8'')] = ''application/yaml''"
    by (simp_all add: media_type_def json_type_def t)
qed

lemma submit_answers:
  "(\<exists>c e m. c \<in> {400, 500, 503} \<and> snd (SubmitJob S Q opts jid now snow r a) = writeError r [] c e m)
   \<or> (\<exists>i b. snd (SubmitJob S Q opts jid now snow r a) = accepted i b)"
  by (auto simp: SubmitJob_def Let_def split: sum.split prod.split option.split)

lemma writeError_media: "media_type (headers (writeError r [] c e m)) = ''application/json''"
  by (simp add: writeError_def media_type_def json_type_def) code_simp

lemma doc_error:
  assumes "y_at (y_at (y_at (spec_response path meth c) ''content'') ''application/json'') ''schema''
      = Some (schema_of ''ErrorResponse'')"
  shows "documented path meth (writeError r [] c e m)"
  by (rule documentedI [where name = "''ErrorResponse''"])
    (simp_all only: writeError_simps assms writeError_media error_body_ok)

lemma doc_accepted: "documented ''/pdf'' ''post'' (accepted i b)"
  by (rule documentedI [where name = "''SubmitResponse''"])
    (simp_all only: accepted_def http_response.select_convs spec_schemas media_types submit_body_ok)

lemma doc_status:
  assumes "y_at (y_at (y_at (spec_response path meth 200) ''content'') ''application/json'') ''schema''
      = Some (schema_of ''JobStatus'')" and "known_status (Status res)"
  shows "documented path meth \<lparr>code = 200, headers = [json_type], body = status_body i res\<rparr>"
  by (rule documentedI [where name = "''JobStatus''"])
    (simp_all only: http_response.select_convs assms media_types status_body_def status_body_ok)

lemma doc_no_content:
  assumes "spec_response path meth (code resp) = Some (YMap [(''description'', YText d)])"
  shows "documented path meth resp"
  by (simp add: documented_def documented_answer_def assms)

text \<open>Each handler by itself.\<close>

lemma handlers_documented:
  assumes known: "\<And>s' res. s_Get S (path_id r) (a_store a) = (s', Inr res) \<Longrightarrow> known_status (Status res)"
      "\<And>s' res. s_Cancel S now (path_id r) (a_store a) = (s', Inr res) \<Longrightarrow> known_status (Status res)"
  shows "code (snd (SubmitJob S Q opts jid t snow r a)) \<noteq> 500 \<Longrightarrow>
      documented ''/pdf'' ''post'' (snd (SubmitJob S Q opts jid t snow r a))"
    "code (snd (GetJob S B r a)) \<noteq> 500 \<Longrightarrow> documented ''/pdf/{id}'' ''get'' (snd (GetJob S B r a))"
    "documented ''/pdf/{id}'' ''delete'' (snd (CancelJob S now r a))"
    "documented ''/pdf/{id}/cancel'' ''post'' (snd (CancelJob S now r a))"
    "documented ''/healthz'' ''get'' Healthz" "documented ''/readyz'' ''get'' Readyz"
    "documented ''/openapi.yaml'' ''get'' OpenAPI"
proof -
  show "documented ''/pdf'' ''post'' (snd (SubmitJob S Q opts jid t snow r a))"
    if "code (snd (SubmitJob S Q opts jid t snow r a)) \<noteq> 500"
    using submit_answers [of S Q opts jid t snow r a] that doc_accepted
      doc_error [OF spec_schemas(2)] doc_error [OF spec_schemas(3)] by auto
  show "documented ''/healthz'' ''get'' Healthz"
    by (rule documentedI [where name = "''HealthStatus''"]) (simp_all add: Healthz_def spec_schemas media_types probe_body_ok)
  show "documented ''/readyz'' ''get'' Readyz"
    by (rule documentedI [where name = "''ReadyStatus''"]) (simp_all add: Readyz_def spec_schemas media_types probe_body_ok)
  show "documented ''/openapi.yaml'' ''get'' OpenAPI"
    using spec_others(2) by (auto simp: documented_def documented_answer_def OpenAPI_def media_types y_at_def bind_eq_Some_conv)
  show "documented ''/pdf/{id}'' ''get'' (snd (GetJob S B r a))" if ok: "code (snd (GetJob S B r a)) \<noteq> 500"
  proof (cases "snd (s_Get S (path_id r) (a_store a))")
    case (Inl e)
    then show ?thesis using doc_error [OF spec_schemas(5)] by (auto simp: GetJob_def split: prod.split)
  next
    case (Inr res)
    then have "known_status (Status res)" using known(1) by (metis prod.collapse)
    then have "documented ''/pdf/{id}'' ''get'' \<lparr>code = 200, headers = [json_type], body = status_body i res\<rparr>" for i
      by (rule doc_status [OF spec_schemas(4)])
    moreover have "documented ''/pdf/{id}'' ''get'' \<lparr>code = 200,
        headers = (''Content-Type'', ''application/pdf'') # hs, body = PdfBody pdf\<rparr>" for hs pdf
      using spec_others(1) by (auto simp: documented_def documented_answer_def media_types y_at_def bind_eq_Some_conv)
    ultimately show ?thesis using Inr ok by (auto simp: GetJob_def Let_def split: prod.splits sum.splits)
  qed
  have cancel: "documented path meth (snd (CancelJob S now r a))"
    if "y_at (y_at (y_at (spec_response path meth 200) ''content'') ''application/json'') ''schema''
        = Some (schema_of ''JobStatus'')"
      and "spec_response path meth 404 = Some (YMap [(''description'', YText d)])" for path meth d
  proof (cases "snd (s_Cancel S now (path_id r) (a_store a))")
    case (Inl e)
    then show ?thesis using that(2)
      by (auto simp: CancelJob_def Let_def intro!: doc_no_content split: prod.split)
  next
    case (Inr res)
    then have "known_status (Status res)" using known(2) by (metis prod.collapse)
    then show ?thesis using Inr doc_status [OF that(1)] by (auto simp: CancelJob_def Let_def split: prod.split)
  qed
  show "documented ''/pdf/{id}'' ''delete'' (snd (CancelJob S now r a))"
    by (rule cancel [OF spec_schemas(6) spec_others(3)])
  show "documented ''/pdf/{id}/cancel'' ''post'' (snd (CancelJob S now r a))"
    by (rule cancel [OF spec_schemas(7) spec_others(4)])
qed

subsection \<open>What goes out\<close>

lemma sent_headers_of:
  "map_of (sent_headers acc (map (\<lambda>(k, v). SetHeader k v) hs @ cs)) = map_of (sent_headers (fold (\<lambda>(k, v). gm_put k v) hs acc) cs)"
  by (induction hs arbitrary: acc) (simp_all add: split_def)

lemma fold_put: "distinct (map fst hs) \<Longrightarrow> map_of (fold (\<lambda>(k, v). gm_put k v) hs acc) = map_of acc ++ map_of hs"
proof (induction hs arbitrary: acc)
  case (Cons h hs)
  obtain k v where h: "h = (k, v)" by (cases h)
  have "map_of hs k = None" using Cons.prems by (simp add: h map_of_eq_None_iff)
  moreover have "map_of (fold (\<lambda>(k, v). gm_put k v) hs (gm_put k v acc)) = map_of (gm_put k v acc) ++ map_of hs"
    using Cons by simp
  ultimately show ?case by (auto simp: h fun_eq_iff map_add_def split: option.split)
qed simp

lemma answer_sent:
  assumes "distinct (map fst (headers resp))" and "documented path meth resp"
  shows "documented_answer path meth (sent_status (answer_calls openapi_text resp))
    (sent_headers [] (answer_calls openapi_text resp)) (sent_body (answer_calls openapi_text resp))"
proof -
  have "sent_headers hs (if code resp = 200 then [] else [WriteHeader (code resp)]) = hs"
    "sent_headers hs ((if code resp = 200 then [] else [WriteHeader (code resp)]) @ [WriteBody b]) = hs" for hs b
    by simp_all
  then have "map_of (sent_headers [] (answer_calls openapi_text resp)) = map_of (headers resp)"
    using fold_put [OF assms(1), of "[]"] by (simp only: answer_calls_def sent_headers_of) simp
  then have "media_type (sent_headers [] (answer_calls openapi_text resp)) = media_type (headers resp)"
    by (simp only: media_type_def)
  then show ?thesis using assms(2) by (simp only: documented_def documented_answer_def answer_one_header(3,4))
qed

lemma answers_distinct:
  "distinct (map fst (headers (snd (SubmitJob S Q opts jid now snow r a))))"
  "distinct (map fst (headers (snd (GetJob S B r a))))"
  "distinct (map fst (headers (snd (CancelJob S now r a))))"
  "distinct (map fst (headers Healthz))" "distinct (map fst (headers Readyz))" "distinct (map fst (headers OpenAPI))"
  by (auto simp: SubmitJob_def GetJob_def CancelJob_def Healthz_def Readyz_def OpenAPI_def writeError_def accepted_def
      json_type_def Let_def split: prod.split sum.split option.split)

text \<open>A version that Go and JSON quote alike.\<close>

definition version_ok :: "string \<Rightarrow> bool" where
  "version_ok v \<longleftrightarrow> list_all (\<lambda>c. plain c \<and> ascii_print c) v"

lemma version_quote: "version_ok v \<Longrightarrow> quote_body p v = v"
proof (induction v)
  case (Cons c v)
  then have c: "plain c" "ascii_print c" and v: "version_ok v" by (simp_all add: version_ok_def)
  have "quote_ascii c = [c]" using c by (auto simp: plain_def escape_ascii_def quote_ascii_def)
  moreover have "byte c < 0x80" using c(1) by (simp add: plain_def)
  ultimately show ?case using Cons.IH [OF v] by (subst quote_body.simps) simp
qed (simp add: quote_body.simps)

lemma version_body:
  assumes "version_ok (e_version E)"
  shows "version_calls E = [SetHeader ''Content-Type'' ''application/json'',
      WriteBody (body_text openapi_text (JsonMap [(''version'', e_version E)]))]"
    and "json_body_ok ''Version'' (JsonMap [(''version'', e_version E)])"
proof -
  have "list_all plain (e_version E)" using assms by (simp add: version_ok_def list_all_iff)
  then have v: "json_string (e_version E) = go_quote (e_print E) (e_version E)"
    by (simp add: json_string_def go_quote_def json_escape_plain version_quote [OF assms])
  have k: "json_string ''version'' = quote # ''version'' @ [quote]" "utf8_valid ''version''" by code_simp+
  show "version_calls E = [SetHeader ''Content-Type'' ''application/json'',
      WriteBody (body_text openapi_text (JsonMap [(''version'', e_version E)]))]"
    by (simp add: version_calls_def json_object_def text_field_def v k)
  show "json_body_ok ''Version'' (JsonMap [(''version'', e_version E)])"
  proof (rule json_fields_ok)
    show "body_text openapi_text (JsonMap [(''version'', e_version E)])
        = json_object [text_field ''version'' (e_version E)] @ [CHR 0x0A]" by simp
    show "list_all (\<lambda>(k, vt). utf8_valid k \<and> (\<exists>v. reads_as vt v)) [text_field ''version'' (e_version E)]"
      using text_reads by (auto simp: text_field_def k)
    fix vs assume "list_all2 (\<lambda>(k, vt) (k', v). k' = k \<and> reads_as vt v) [text_field ''version'' (e_version E)] vs"
    then show "conforms schema_depth (schema_of ''Version'') (JObj vs)"
      unfolding conforms_ref [OF schemas(6)]
      by (auto simp: text_field_def list_all2_Cons1 y_at_def eval_nat_numeral dest!: text_reads_only)
  qed simp
qed

lemma spec_pages:
  "y_at (y_at (spec_response ''/'' ''get'' 200) ''content'') ''text/html'' = Some (YMap [(''schema'', YMap [(''type'', YText ''string'')])])"
  "y_at (y_at (spec_response ''/metrics'' ''get'' 200) ''content'') ''text/plain'' = Some (YMap [(''schema'', YMap [(''type'', YText ''string'')])])"
  "y_at (y_at (y_at (spec_response ''/version'' ''get'' 200) ''content'') ''application/json'') ''schema'' = Some (schema_of ''Version'')"
  "spec_response ''/ws/jobs'' ''get'' 101 = Some (YMap [(''description'', YText ''Websocket upgrade accepted.'')])"
  "spec_response ''/ws/jobs'' ''get'' 400 = Some (YMap [(''description'', YText ''Websocket upgrade failed.'')])"
  "fst (cut ''text/html; charset=utf-8'' (CHR '';'')) = ''text/html''"
  "fst (cut ''text/plain; version=0.0.4; charset=utf-8'' (CHR '';'')) = ''text/plain''"
  by code_simp+

lemma websocket_documented:
  assumes "sent_status (websocket_calls w r) \<noteq> 0"
  shows "documented_answer ''/ws/jobs'' ''get'' (sent_status (websocket_calls w r)) hs text"
proof -
  have "raw_status '''' = 0" by (simp add: raw_status_def)
  then have "sent_status (websocket_calls w r) = 101 \<or> sent_status (websocket_calls w r) = 400"
    using assms websocket_hijacked [of w r] greeting_sent(1) [OF accept_key_chars]
    by (auto simp: websocket_calls_def http_error_def split: sum.splits if_splits)
  then show ?thesis using spec_pages(4,5) by (auto simp: documented_answer_def)
qed

lemma dashboard_documented:
  assumes "sent_status (dashboard_calls r p) \<noteq> 500"
  shows "documented_answer ''/'' ''get'' (sent_status (dashboard_calls r p)) (sent_headers [] (dashboard_calls r p)) text"
proof -
  have "sent_status (dashboard_calls r p) = 200"
    "sent_headers [] (dashboard_calls r p) = [(''Content-Type'', ''text/html; charset=utf-8'')]"
    using assms by (auto simp: dashboard_calls_def split: if_splits)
  then show ?thesis using spec_pages(1,6) by (auto simp: documented_answer_def media_type_def y_at_def bind_eq_Some_conv)
qed

lemma metrics_documented:
  "documented_answer ''/metrics'' ''get'' 200 [(''Content-Type'', ''text/plain; version=0.0.4; charset=utf-8'')] text"
  using spec_pages(2,7) by (auto simp: documented_answer_def media_type_def y_at_def bind_eq_Some_conv)

lemma version_documented:
  assumes "version_ok (e_version E)"
  shows "documented_answer ''/version'' ''get'' (sent_status (version_calls E)) (sent_headers [] (version_calls E))
    (sent_body (version_calls E))"
proof -
  have "documented ''/version'' ''get'' \<lparr>code = 200, headers = [json_type], body = JsonMap [(''version'', e_version E)]\<rparr>"
    by (rule documentedI [where name = "''Version''"])
      (simp_all only: http_response.select_convs spec_pages media_types version_body(2) [OF assms])
  then show ?thesis
    by (simp add: documented_def version_body(1) [OF assms] json_type_def del: body_text.simps)
qed

text \<open>C29: Every answer that the handler of a registered route sends is as the document says for that
  method and path: the status is listed, and where the document gives a content for it, the media
  type is the one given and a JSON body is one value of the schema given. This holds whatever store,
  queue and blobs do, if stored statuses are among the five known ones and the version is plain
  text, for every status but the undocumented 500 (a failing store, queue, blob or page). (A
  WebSocket whose connection breaks during the upgrade gets no answer; its 101 and 400 and the 404
  of a cancel are listed without a content. Redirects and 405s come from the multiplexer and are in
  no entry.)\<close>

theorem answers_are_documented:
  assumes run: "run_route E rt r a = Some (cs, a')" and route: "(pat, rt) \<in> set routes"
    and op: "route_name pat = (meth, path)" and doc: "e_openapi E = openapi_text" and version: "version_ok (e_version E)"
    and known: "\<And>s' res. s_Get (e_store E) (path_id (api_request r)) (a_store a) = (s', Inr res) \<Longrightarrow>
        known_status (Status res)"
      "\<And>s' res. s_Cancel (e_store E) (e_set_now E) (path_id (api_request r)) (a_store a) = (s', Inr res) \<Longrightarrow>
        known_status (Status res)"
    and sent: "sent_status cs \<noteq> 500" "sent_status cs \<noteq> 0"
  shows "documented_answer path (map lower_char meth) (sent_status cs) (sent_headers [] cs) (sent_body cs)"
proof -
  note handlers = handlers_documented [where S = "e_store E" and now = "e_set_now E" and r = "api_request r" and a = a, OF known]
  have names: "route_name ''GET /'' = (''GET'', ''/'')" "route_name ''POST /pdf'' = (''POST'', ''/pdf'')"
    "route_name ''GET /pdf/{id}'' = (''GET'', ''/pdf/{id}'')" "route_name ''DELETE /pdf/{id}'' = (''DELETE'', ''/pdf/{id}'')"
    "route_name ''POST /pdf/{id}/cancel'' = (''POST'', ''/pdf/{id}/cancel'')" "route_name ''GET /ws/jobs'' = (''GET'', ''/ws/jobs'')"
    "route_name ''GET /healthz'' = (''GET'', ''/healthz'')" "route_name ''GET /readyz'' = (''GET'', ''/readyz'')"
    "route_name ''GET /openapi.yaml'' = (''GET'', ''/openapi.yaml'')" "route_name ''GET /metrics'' = (''GET'', ''/metrics'')"
    "route_name ''GET /version'' = (''GET'', ''/version'')"
    "map lower_char ''GET'' = ''get''" "map lower_char ''POST'' = ''post''" "map lower_char ''DELETE'' = ''delete''"
    by code_simp+
  have api: "documented_answer p m (sent_status cs) (sent_headers [] cs) (sent_body cs)"
    if "cs = answer_calls openapi_text resp" "distinct (map fst (headers resp))" "code resp \<noteq> 500 \<Longrightarrow> documented p m resp"
    for resp p m
    using answer_sent [OF that(2) that(3)] sent(1) that(1) by simp
  from route have "pat = ''GET /'' \<and> rt = RDashboard \<or> pat = ''POST /pdf'' \<and> rt = RSubmit
    \<or> pat = ''GET /pdf/{id}'' \<and> rt = RGet \<or> pat = ''DELETE /pdf/{id}'' \<and> rt = RCancel
    \<or> pat = ''POST /pdf/{id}/cancel'' \<and> rt = RCancel \<or> pat = ''GET /ws/jobs'' \<and> rt = RJobsWebSocket
    \<or> pat = ''GET /healthz'' \<and> rt = RHealth \<or> pat = ''GET /readyz'' \<and> rt = RReady
    \<or> pat = ''GET /openapi.yaml'' \<and> rt = RSpec \<or> pat = ''GET /metrics'' \<and> rt = RMetricsPage
    \<or> pat = ''GET /version'' \<and> rt = RVersion"
    by (simp only: routes_def list.set insert_iff empty_iff prod.inject simp_thms)
  then show ?thesis
  proof (elim disjE conjE, goal_cases)
    case 1
    then show ?case using run op names sent(1) dashboard_documented [of r "e_page E"] by (simp add: run_route_def)
  next
    case 2
    then have "cs = answer_calls openapi_text (snd (SubmitJob (e_store E) (e_queue E) (e_options E) (e_job_id E) (e_now E) (e_set_now E) (api_request r) a))"
      using run doc by (simp add: run_route_def split: prod.splits)
    from api [OF this answers_distinct(1) handlers(1)] show ?case using op names 2 by simp
  next
    case 3
    then have "cs = answer_calls openapi_text (snd (GetJob (e_store E) (e_blobs E) (api_request r) a))"
      using run doc by (simp add: run_route_def split: prod.splits)
    from api [OF this answers_distinct(2) handlers(2)] show ?case using op names 3 by simp
  next
    case 4
    then have "cs = answer_calls openapi_text (snd (CancelJob (e_store E) (e_set_now E) (api_request r) a))"
      using run doc by (simp add: run_route_def split: prod.splits)
    from api [OF this answers_distinct(3) handlers(3)] show ?case using op names 4 by simp
  next
    case 5
    then have "cs = answer_calls openapi_text (snd (CancelJob (e_store E) (e_set_now E) (api_request r) a))"
      using run doc by (simp add: run_route_def split: prod.splits)
    from api [OF this answers_distinct(3) handlers(4)] show ?case using op names 5 by simp
  next
    case 6
    then show ?case using run op names sent(2) websocket_documented [of "e_writer E" r] by (simp add: run_route_def)
  next
    case 7
    then have "cs = answer_calls openapi_text Healthz" using run doc by (simp add: run_route_def)
    from api [OF this answers_distinct(4) handlers(5)] show ?case using op names 7 by simp
  next
    case 8
    then have "cs = answer_calls openapi_text Readyz" using run doc by (simp add: run_route_def)
    from api [OF this answers_distinct(5) handlers(6)] show ?case using op names 8 by simp
  next
    case 9
    then have "cs = answer_calls openapi_text OpenAPI" using run doc by (simp add: run_route_def)
    from api [OF this answers_distinct(6) handlers(7)] show ?case using op names 9 by simp
  next
    case 10
    then show ?case using run op names metrics_documented
      by (auto simp: run_route_def metrics_page_def split: prod.splits option.splits)
  next
    case 11
    then show ?case using run op names version_documented [OF version] by (simp add: run_route_def)
  qed
qed

definition demo_record :: job_result where
  "demo_record = zero_result\<lparr>URL := ''http://e/p'', Status := StatusPending\<rparr>"

definition demo_stored :: "(mem_storage, mem_queue, mem_blobs) api" where
  "demo_stored =
     \<lparr>a_store = NewMemoryStorage\<lparr>results := [(''j'', demo_record)]\<rparr>,
      a_queue = \<lparr>buf = [], capacity = 1, recvq = 0, handed = []\<rparr>,
      a_blobs = NewMemoryStore, a_cancels = NewRegistry, a_metrics = None, a_cancelled = []\<rparr>"

theorem answers_are_documented_witness:
  "\<exists>cs a'. run_route (demo_server\<lparr>e_openapi := openapi_text\<rparr>) RGet
        ((demo_http ''GET'' ''/pdf/j'' '''')\<lparr>hr_values := [(''id'', ''j'')]\<rparr>) demo_stored = Some (cs, a')
     \<and> sent_status cs = 200 \<and> documented_answer ''/pdf/{id}'' ''get'' 200 (sent_headers [] cs) (sent_body cs)"
proof -
  let ?r = "(demo_http ''GET'' ''/pdf/j'' '''')\<lparr>hr_values := [(''id'', ''j'')]\<rparr>" and ?E = "demo_server\<lparr>e_openapi := openapi_text\<rparr>"
  have i: "path_id (api_request ?r) = ''j''" by (simp add: api_request_def path_value_def)
  obtain a' resp where get: "GetJob mem_store_ops mem_blob_ops (api_request ?r) demo_stored = (a', resp)" by (metis surj_pair)
  then have code: "code resp = 200"
    by (auto simp: i GetJob_def demo_stored_def demo_record_def mem_Get_def zero_result_def
        StatusPending_def StatusCompleted_def)
  have run: "run_route ?E RGet ?r demo_stored = Some (answer_calls openapi_text resp, a')"
    using get by (simp add: run_route_def demo_server_def)
  have v: "plain (CHR ''d'')" "plain (CHR ''e'')" "plain (CHR ''v'')" "ascii_print (CHR ''d'')" "ascii_print (CHR ''e'')"
    "ascii_print (CHR ''v'')" by code_simp+
  have E: "e_store ?E = mem_store_ops" "e_openapi ?E = openapi_text" "version_ok (e_version ?E)"
    by (simp_all add: demo_server_def) (simp add: version_ok_def v)
  have g: "known_status (Status res)" if "s_Get (e_store ?E) (path_id (api_request ?r)) (a_store demo_stored) = (s', Inr res)" for s' res
    using that unfolding E i by (auto simp: demo_stored_def demo_record_def mem_Get_def known_status_def)
  have c: "known_status (Status res)"
    if "s_Cancel (e_store ?E) (e_set_now ?E) (path_id (api_request ?r)) (a_store demo_stored) = (s', Inr res)" for s' res
    using that unfolding E i by (auto simp: demo_stored_def mem_Cancel_cases mark_canceled_def known_status_def terminal_def demo_record_def
        split: if_splits option.splits)
  have route: "(''GET /pdf/{id}'', RGet) \<in> set routes" by (simp add: routes_def)
  have op: "route_name ''GET /pdf/{id}'' = (''GET'', ''/pdf/{id}'')" "map lower_char ''GET'' = ''get''" by code_simp+
  show ?thesis
    using answers_are_documented [OF run route op(1) E(2,3) g c] run code op(2) by simp
qed

text \<open>The 500s are in no entry.\<close>

lemma server_errors_undocumented:
  "code resp = 500 \<Longrightarrow> \<not> documented ''/pdf'' ''post'' resp \<and> \<not> documented ''/pdf/{id}'' ''get'' resp"
  by (simp add: documented_def documented_answer_def spec_others)
end
