(* ===== verification/Message_Json.thy ===== *)
theory Message_Json
  imports Json_Nested Hub Open_Api Webhook
begin

text \<open>
  The JSON texts that leave the service unasked: the message the hub sends to dashboards
  (\<open>JobsMessage\<close> in \<open>internal/realtime/hub.go\<close> with the snapshots of \<open>internal/queue/types.go\<close>) and the
  event a webhook posts (\<open>internal/webhook/notifier.go\<close>, whose text is in \<open>Webhook\<close>), each with what
  its receiver reads.
\<close>

section \<open>Texts of any bytes\<close>

text \<open>What a reader gets for a text: invalid UTF-8 is replaced, everything else is kept.\<close>

definition json_repair :: "string \<Rightarrow> string" where
  "json_repair s = fst (the (json_unquote (json_escape s @ [quote])))"

definition json_of_text :: "string \<Rightarrow> json" where
  "json_of_text s = JStr (json_escape s) (json_repair s)"

lemma json_repair_valid: "utf8_valid s \<Longrightarrow> json_repair s = s"
  by (simp add: json_repair_def json_unquote_escape)

lemma any_text_reads: "reads_deep 0 (json_string s) (json_of_text s)"
proof -
  obtain t where t: "\<And>r. json_unquote (json_escape s @ quote # r) = Some (t, r)"
    using json_unquote_any by blast
  then have "json_repair s = t" by (simp add: json_repair_def)
  then show ?thesis unfolding json_string_def json_of_text_def using t by (intro text_reads_deep) simp
qed

lemma time_reads_deep: "reads_deep 0 (quote # format_time t @ [quote]) (JStr (format_time t) (format_time t))"
  using string_reads_deep [OF utf8_valid_plain [OF plain_format_time], of t]
  by (simp add: json_string_def json_escape_plain plain_format_time)

section \<open>Hub messages\<close>

text \<open>The fields of a snapshot with their texts and what they are read as.\<close>

definition snapshot_members :: "job_snapshot \<Rightarrow> member list" where
  "snapshot_members s =
     [(''id'', json_string (snap_ID s), json_of_text (snap_ID s)),
      (''url'', json_string (snap_URL s), json_of_text (snap_URL s)),
      (''status'', json_string (status_text (snap_Status s)), json_of_text (status_text (snap_Status s)))]
     @ (if snap_Error s = '''' then []
        else [(''error'', json_string (snap_Error s), json_of_text (snap_Error s))])
     @ [(''created_at'', quote # format_time (snap_CreatedAt s) @ [quote],
           JStr (format_time (snap_CreatedAt s)) (format_time (snap_CreatedAt s))),
        (''updated_at'', quote # format_time (snap_UpdatedAt s) @ [quote],
           JStr (format_time (snap_UpdatedAt s)) (format_time (snap_UpdatedAt s)))]"

definition snapshot_text :: "job_snapshot \<Rightarrow> string" where
  "snapshot_text s = json_object (map (\<lambda>(k, vt, v). (k, vt)) (snapshot_members s))"

definition snapshot_json :: "job_snapshot \<Rightarrow> json" where
  "snapshot_json s = JObj (map (\<lambda>(k, vt, v). (k, v)) (snapshot_members s))"

text \<open>
  \<open>json.Marshal\<close> of a \<open>JobsMessage\<close>. A nil slice is written as null; a time whose year has not four
  digits is an error.
\<close>

definition MarshalJobs :: "job_snapshot list option \<Rightarrow> string option" where
  "MarshalJobs jobs =
     (case jobs of
        None \<Rightarrow> Some (json_object [text_field ''type'' ''jobs'', (''jobs'', ''null'')])
      | Some js \<Rightarrow>
          if list_all (\<lambda>s. four_digit_year (snap_CreatedAt s) \<and> four_digit_year (snap_UpdatedAt s)) js
          then Some (json_object [text_field ''type'' ''jobs'', (''jobs'', json_array (map snapshot_text js))])
          else None)"

definition jobs_json :: "job_snapshot list \<Rightarrow> json" where
  "jobs_json js = JObj [(''type'', JStr ''jobs'' ''jobs''), (''jobs'', JArr (map snapshot_json js))]"

lemma message_names:
  "utf8_valid ''id''" "utf8_valid ''created_at''" "utf8_valid ''updated_at''" "utf8_valid ''type''" "utf8_valid ''jobs''"
  "utf8_valid ''pdf_key''" "utf8_valid ''pdf_size''"
  by code_simp+

lemma jobs_text_reads: "reads_deep 0 (json_string ''jobs'') (JStr ''jobs'' ''jobs'')"
proof -
  have "json_escape ''jobs'' = ''jobs''" by code_simp
  then show ?thesis using string_reads_deep [OF message_names(5)] by simp
qed

lemma snapshot_reads: "reads_deep (Suc 0) (snapshot_text s) (snapshot_json s)"
  unfolding snapshot_text_def snapshot_json_def
  by (rule object_reads_deep)
    (auto simp: snapshot_members_def members_deep_def any_text_reads time_reads_deep message_names names_utf8)

lemma message_reads:
  assumes "reads_deep d vt v"
  shows "reads_deep (Suc d) (json_object [text_field ''type'' ''jobs'', (''jobs'', vt)])
    (JObj [(''type'', JStr ''jobs'' ''jobs''), (''jobs'', v)])"
  using object_reads_deep [of "[(''type'', json_string ''jobs'', JStr ''jobs'' ''jobs''), (''jobs'', vt, v)]" d]
    assms reads_deep_more [OF jobs_text_reads, of d]
  by (simp add: members_deep_def message_names text_field_def)

lemma MarshalJobs_reads:
  assumes "MarshalJobs (Some js) = Some t"
  shows "json_unmarshal t = Some (jobs_json js)"
proof -
  have t: "t = json_object [text_field ''type'' ''jobs'', (''jobs'', json_array (map snapshot_text js))]"
    using assms by (simp add: MarshalJobs_def split: if_splits)
  have "reads_deep (Suc (Suc 0)) (json_array (map snapshot_text js)) (JArr (map snapshot_json js))"
    by (rule array_reads_deep) (simp add: list_all2_map1 list_all2_map2 list_all2_same snapshot_reads)
  from deep_decode(2) [OF message_reads [OF this]] show ?thesis
    unfolding t jobs_json_def by (simp add: max_nesting_def)
qed

lemma nil_list_reads:
  "MarshalJobs None = Some t \<Longrightarrow>
     json_unmarshal t = Some (JObj [(''type'', JStr ''jobs'' ''jobs''), (''jobs'', JNull)])"
  using deep_decode(2) [OF message_reads [OF null_reads_deep]] by (auto simp: MarshalJobs_def max_nesting_def)

lemma message_schemas:
  "map_of openapi_schemas (ref_name (''#/components/schemas/'' @ ''JobSnapshotMessage'')) = Some (YMap [
      (''type'', YText ''object''), (''required'', YFlow [''type'', ''jobs'']),
      (''properties'', YMap [
        (''type'', YMap [(''type'', YText ''string''), (''enum'', YFlow [''jobs''])]),
        (''jobs'', YMap [(''type'', YText ''array''),
           (''items'', YMap [(''$ref'', YText ''#/components/schemas/JobSnapshot'')])])])])"
  "map_of openapi_schemas (ref_name ''#/components/schemas/JobSnapshot'') = Some (YMap [
      (''type'', YText ''object''), (''required'', YFlow [''id'', ''url'', ''status'', ''created_at'', ''updated_at'']),
      (''properties'', YMap [
        (''id'', YMap [(''type'', YText ''string''), (''format'', YText ''uuid'')]),
        (''url'', YMap [(''type'', YText ''string''), (''format'', YText ''uri'')]),
        (''status'', YMap [(''type'', YText ''string''),
          (''enum'', YFlow [''pending'', ''processing'', ''completed'', ''failed'', ''canceled''])]),
        (''error'', YMap [(''type'', YText ''string'')]),
        (''created_at'', YMap [(''type'', YText ''string''), (''format'', YText ''date-time'')]),
        (''updated_at'', YMap [(''type'', YText ''string''), (''format'', YText ''date-time'')])])])"
  by code_simp+

lemma snapshot_conforms:
  assumes "known_status (snap_Status s)"
  shows "conforms 5 (YMap [(''$ref'', YText ''#/components/schemas/JobSnapshot'')]) (snapshot_json s)"
  using known_status_text [OF assms] json_repair_valid
  by (simp add: eval_nat_numeral message_schemas(2) snapshot_json_def snapshot_members_def json_of_text_def y_at_def)

lemma jobs_json_conforms:
  assumes "\<forall>s \<in> set js. known_status (snap_Status s)"
  shows "conforms schema_depth (schema_of ''JobSnapshotMessage'') (jobs_json js)"
proof -
  have "list_all (\<lambda>w. conforms 5 (YMap [(''$ref'', YText ''#/components/schemas/JobSnapshot'')]) w) (map snapshot_json js)"
    using assms by (auto simp: list_all_iff intro: snapshot_conforms)
  then have "conforms 7 (the (map_of openapi_schemas (ref_name (''#/components/schemas/'' @ ''JobSnapshotMessage'')))) (jobs_json js)"
    unfolding message_schemas(1) by (simp add: jobs_json_def y_at_def numeral_eq_Suc del: conforms.simps) (simp add: y_at_def)
  then show ?thesis unfolding conforms_ref [OF message_schemas(1)] message_schemas(1) by simp
qed


text \<open>The lists of jobs that were broadcast or taken as a first snapshot.\<close>

fun listed_by :: "hub_event \<Rightarrow> job_snapshot list list" where
  "listed_by (Broadcast js) = [js]"
| "listed_by (TakeSnapshot c js) = [js]"
| "listed_by e = []"

definition listed :: "hub_event list \<Rightarrow> job_snapshot list set" where
  "listed tr = set (concat (map listed_by tr))"

abbreviation hub_text :: "job_snapshot list \<Rightarrow> string option" where
  "hub_text js \<equiv> MarshalJobs (Some js)"

definition from_lists :: "job_snapshot list set \<Rightarrow> string hub_client \<Rightarrow> bool" where
  "from_lists L cl \<longleftrightarrow>
     (\<forall>m. (m \<in> set (written cl) \<or> m \<in> set (send cl) \<or> phase cl = HoldsInitial m) \<longrightarrow> (\<exists>js \<in> L. hub_text js = Some m))"

lemma from_lists_more: "from_lists L cl \<Longrightarrow> L \<subseteq> L' \<Longrightarrow> from_lists L' cl"
  unfolding from_lists_def by blast

lemma hub_step_from_lists:
  assumes "hub_step hub_text e h = Some h'" and "\<forall>c cl. map_of h c = Some cl \<longrightarrow> from_lists L cl"
    and "set (listed_by e) \<subseteq> L" and "map_of h' c = Some cl"
  shows "from_lists L cl"
proof (cases e)
  case (TakeSnapshot d js)
  then obtain cl0 where d: "map_of h d = Some cl0" "from_lists L cl0"
    and h': "h' = gm_put d (cl0\<lparr>phase := (case hub_text js of Some m \<Rightarrow> HoldsInitial m | None \<Rightarrow> Looping)\<rparr>) h"
    using assms(1,2) by (auto split: option.splits if_splits)
  have "js \<in> L" using assms(3) TakeSnapshot by simp
  then have "from_lists L (cl0\<lparr>phase := (case hub_text js of Some m \<Rightarrow> HoldsInitial m | None \<Rightarrow> Looping)\<rparr>)"
    using d(2) by (auto simp: from_lists_def split: option.splits)
  then show ?thesis using assms(2,4) h' by (auto split: if_splits)
next
  case (Broadcast js)
  then have "js \<in> L" using assms(3) by simp
  moreover obtain cl0 where "map_of h c = Some cl0" "cl = (case hub_text js of None \<Rightarrow> cl0 | Some m \<Rightarrow> offer m cl0)"
    using assms(1,4) Broadcast by (auto simp: map_of_broadcast split: option.splits)
  ultimately show ?thesis using assms(2)
    by (fastforce simp: from_lists_def offer_def split: option.splits if_splits)
next
  case (Join d)
  then show ?thesis using assms by (auto simp: hub_add_def from_lists_def split: if_splits)
next
  case (Leave d)
  then show ?thesis using assms by (auto simp: hub_remove_def split: option.splits if_splits)
next
  case (SendInitial d)
  then obtain cl0 m where d: "map_of h d = Some cl0" "from_lists L cl0" "phase cl0 = HoldsInitial m"
    and h': "h' = gm_put d (cl0\<lparr>phase := Looping, send := send cl0 @ [m]\<rparr>) h"
    using assms(1,2) by (auto split: option.splits if_splits client_phase.splits)
  have "from_lists L (cl0\<lparr>phase := Looping, send := send cl0 @ [m]\<rparr>)"
    using d(2,3) by (auto simp: from_lists_def)
  then show ?thesis using assms(2,4) h' by (auto split: if_splits)
next
  case (WriteNext d)
  then obtain cl0 m ms where d: "map_of h d = Some cl0" "from_lists L cl0" "send cl0 = m # ms"
    and h': "h' = gm_put d (cl0\<lparr>send := ms, written := written cl0 @ [m]\<rparr>) h"
    using assms(1,2) by (auto split: option.splits if_splits list.splits)
  have "from_lists L (cl0\<lparr>send := ms, written := written cl0 @ [m]\<rparr>)"
    using d(2,3) by (auto simp: from_lists_def)
  then show ?thesis using assms(2,4) h' by (auto split: if_splits)
qed

lemma hub_trace_from_lists:
  "hub_trace hub_text NewHub tr h \<Longrightarrow> map_of h c = Some cl \<Longrightarrow> from_lists (listed tr) cl"
proof (induction arbitrary: c cl rule: hub_trace.induct)
  case trace_nil
  then show ?case by (simp add: NewHub_def)
next
  case (trace_snoc tr h e h')
  have "\<forall>c cl. map_of h c = Some cl \<longrightarrow> from_lists (listed (tr @ [e])) cl"
    using trace_snoc.IH from_lists_more [of "listed tr" _ "listed (tr @ [e])"] by (auto simp: listed_def)
  moreover have "set (listed_by e) \<subseteq> listed (tr @ [e])" by (simp add: listed_def)
  ultimately show ?case using hub_step_from_lists trace_snoc.hyps(2) trace_snoc.prems by blast
qed

text \<open>What was written to a client is the JSON of a list that was broadcast or taken.\<close>

lemma written_reads:
  assumes "hub_trace hub_text NewHub tr h" and "map_of h c = Some cl" and "m \<in> set (written cl)"
  shows "\<exists>js \<in> listed tr. hub_text js = Some m \<and> json_unmarshal m = Some (jobs_json js)"
  using hub_trace_from_lists [OF assms(1,2)] assms(3) MarshalJobs_reads unfolding from_lists_def by blast

text \<open>In every interleaving of broadcasts with the goroutines of the dashboards, each message written
  to a dashboard is a JSON text that reads as one of the lists of jobs broadcast or taken so far and
  conforms to the schema \<open>JobSnapshotMessage\<close> of the OpenAPI document, whatever bytes the jobs' texts
  hold.\<close>

theorem hub_messages_documented:
  assumes "hub_trace hub_text NewHub tr h" and "map_of h c = Some cl" and "m \<in> set (written cl)"
    and "\<forall>js \<in> listed tr. \<forall>s \<in> set js. known_status (snap_Status s)"
  shows "\<exists>js \<in> listed tr. json_unmarshal m = Some (jobs_json js)
    \<and> conforms schema_depth (schema_of ''JobSnapshotMessage'') (jobs_json js)"
  using written_reads [OF assms(1-3)] jobs_json_conforms assms(4) by blast

definition demo_listed :: "job_snapshot list" where
  "demo_listed = [\<lparr>snap_ID = ''1f-2'', snap_URL = ''http://e/?a=1&b=<2>'', snap_Status = StatusFailed,
     snap_Error = [CHR 0xFF], snap_CreatedAt = 0, snap_UpdatedAt = 0\<rparr>]"

abbreviation demo_events :: "hub_event list" where
  "demo_events \<equiv> [Join 1, TakeSnapshot 1 demo_listed, SendInitial 1, WriteNext 1]"

lemma demo_trace:
  "\<exists>h m. hub_trace hub_text NewHub demo_events h \<and> hub_text demo_listed = Some m
     \<and> map_of h 1 = Some \<lparr>phase = Looping, send = [], written = [m]\<rparr>"
proof -
  have "four_digit_year 0" by code_simp
  then obtain m where m: "hub_text demo_listed = Some m" by (simp add: MarshalJobs_def demo_listed_def)
  let ?cl = "\<lambda>ph sd wr. \<lparr>phase = ph, send = sd, written = wr\<rparr>"
  let ?h = "[(1, ?cl Looping [] [m])]"
  have "hub_step hub_text (Join 1) NewHub = Some [(1, ?cl Registered [] [])]"
    "hub_step hub_text (TakeSnapshot 1 demo_listed) [(1, ?cl Registered [] [])] = Some [(1, ?cl (HoldsInitial m) [] [])]"
    "hub_step hub_text (SendInitial 1) [(1, ?cl (HoldsInitial m) [] [])] = Some [(1, ?cl Looping [m] [])]"
    "hub_step hub_text (WriteNext 1) [(1, ?cl Looping [m] [])] = Some ?h"
    by (simp_all add: NewHub_def hub_add_def m)
  note steps = this
  have "hub_trace hub_text NewHub ([] @ [Join 1] @ [TakeSnapshot 1 demo_listed] @ [SendInitial 1] @ [WriteNext 1]) ?h"
    unfolding append_assoc [symmetric]
    by (rule trace_snoc, rule trace_snoc, rule trace_snoc, rule trace_snoc, rule trace_nil) (rule steps)+
  then show ?thesis using m by (intro exI [of _ ?h] exI [of _ m]) simp
qed

theorem hub_messages_documented_witness:
  "\<exists>m h cl. hub_trace hub_text NewHub demo_events h
     \<and> map_of h 1 = Some cl \<and> written cl = [m] \<and> json_unmarshal m = Some (jobs_json demo_listed)
     \<and> conforms schema_depth (schema_of ''JobSnapshotMessage'') (jobs_json demo_listed)"
proof -
  obtain h m where tr: "hub_trace hub_text NewHub demo_events h"
    and cl: "map_of h 1 = Some \<lparr>phase = Looping, send = [], written = [m]\<rparr>" using demo_trace by blast
  have l: "listed demo_events = {demo_listed}" by (simp add: listed_def)
  have known: "\<forall>js \<in> listed demo_events. \<forall>s \<in> set js. known_status (snap_Status s)"
    unfolding l by (simp add: demo_listed_def known_status_def)
  have "json_unmarshal m = Some (jobs_json demo_listed)
    \<and> conforms schema_depth (schema_of ''JobSnapshotMessage'') (jobs_json demo_listed)"
    using hub_messages_documented [OF tr cl _ known, of m] unfolding l by simp
  then show ?thesis using tr cl
    by (intro exI [of _ m] exI [of _ h] exI [of _ "\<lparr>phase = Looping, send = [], written = [m]\<rparr>"]) simp
qed

text \<open>The nil slice that \<open>RedisStorage.List\<close> returns on an error is written as null, which the schema
  does not allow.\<close>

theorem nil_list_undocumented:
  "\<exists>m v. MarshalJobs None = Some m \<and> json_unmarshal m = Some v
     \<and> \<not> conforms schema_depth (schema_of ''JobSnapshotMessage'') v"
proof -
  obtain m where m: "MarshalJobs None = Some m" by (simp add: MarshalJobs_def)
  have "\<not> conforms schema_depth (schema_of ''JobSnapshotMessage'')
      (JObj [(''type'', JStr ''jobs'' ''jobs''), (''jobs'', JNull)])"
    unfolding conforms_ref [OF message_schemas(1)] by (simp add: numeral_eq_Suc y_at_def)
  then show ?thesis using m nil_list_reads [OF m] by blast
qed

section \<open>Webhook events\<close>

text \<open>What a receiver makes of the text: each field by its name, absent ones zero.\<close>

definition text_of :: "json option \<Rightarrow> string" where
  "text_of v = (case v of Some (JStr l s) \<Rightarrow> s | _ \<Rightarrow> '''')"

definition number_of :: "json option \<Rightarrow> int" where
  "number_of v = (case v of Some (JNum t) \<Rightarrow> fst (parse_int t) | _ \<Rightarrow> 0)"

definition event_of_json :: "json \<Rightarrow> Event option" where
  "event_of_json v =
     (case v of
        JObj ms \<Rightarrow> Some
          \<lparr>JobID = text_of (map_of ms ''job_id''), ev_URL = text_of (map_of ms ''url''),
           ev_Status = JobStatus (text_of (map_of ms ''status'')), ev_Error = text_of (map_of ms ''error''),
           ev_PDFKey = text_of (map_of ms ''pdf_key''), ev_PDFSize = number_of (map_of ms ''pdf_size''),
           ev_RequestID = text_of (map_of ms ''request_id'')\<rparr>
      | _ \<Rightarrow> None)"

definition event_text_ok :: "Event \<Rightarrow> bool" where
  "event_text_ok e \<longleftrightarrow> utf8_valid (JobID e) \<and> utf8_valid (ev_URL e) \<and> utf8_valid (status_text (ev_Status e))
     \<and> utf8_valid (ev_Error e) \<and> utf8_valid (ev_PDFKey e) \<and> utf8_valid (ev_RequestID e)
     \<and> 0 \<le> ev_PDFSize e \<and> ev_PDFSize e < 2 ^ 63"

definition event_members :: "Event \<Rightarrow> member list" where
  "event_members e =
     [(''job_id'', json_string (JobID e), json_of_text (JobID e)), (''url'', json_string (ev_URL e), json_of_text (ev_URL e)),
      (''status'', json_string (status_text (ev_Status e)), json_of_text (status_text (ev_Status e)))]
     @ (if ev_Error e = '''' then [] else [(''error'', json_string (ev_Error e), json_of_text (ev_Error e))])
     @ (if ev_PDFKey e = '''' then [] else [(''pdf_key'', json_string (ev_PDFKey e), json_of_text (ev_PDFKey e))])
     @ (if ev_PDFSize e = 0 then [] else [(''pdf_size'', itoa (ev_PDFSize e), JNum (itoa (ev_PDFSize e)))])
     @ (if ev_RequestID e = '''' then [] else [(''request_id'', json_string (ev_RequestID e), json_of_text (ev_RequestID e))])"

lemma event_text_members: "event_text e = json_object (map (\<lambda>(k, vt, v). (k, vt)) (event_members e))"
  by (simp add: event_text_def event_fields_def event_members_def text_field_def)

lemma event_text_reads:
  "json_unmarshal (event_text e) = Some (JObj (map (\<lambda>(k, vt, v). (k, v)) (event_members e)))"
proof -
  have "members_deep 0 (event_members e)"
    by (auto simp: event_members_def members_deep_def any_text_reads number_reads_deep message_names names_utf8)
  moreover have "event_members e \<noteq> []" by (simp add: event_members_def)
  ultimately have "reads_deep (Suc 0) (event_text e) (JObj (map (\<lambda>(k, vt, v). (k, v)) (event_members e)))"
    unfolding event_text_members by (intro object_reads_deep)
  then show ?thesis by (rule deep_decode(2)) (simp add: max_nesting_def)
qed

text \<open>The body a webhook posts is JSON whose reader gets back the event, field by field, the omitted
  ones included.\<close>

theorem webhook_event_roundtrip:
  assumes "Notify p t u e = (reqs, res)" and "rq \<in> set reqs" and "event_text_ok e"
  shows "\<exists>v. json_unmarshal (wr_body rq) = Some v \<and> event_of_json v = Some e"
proof -
  have body: "wr_body rq = event_text e" using assms(1,2)
    by (auto simp: Notify_def webhook_request_for_def Let_def split: if_splits option.splits sum.splits)
  have "parse_int (itoa (ev_PDFSize e)) = (ev_PDFSize e, None)"
    using assms(3) parse_int_itoa_nat [of "nat (ev_PDFSize e)"] by (simp add: event_text_ok_def itoa_def nat_less_iff)
  then have "event_of_json (JObj (map (\<lambda>(k, vt, v). (k, v)) (event_members e))) = Some e"
    using assms(3)
    by (simp add: event_of_json_def event_members_def event_text_ok_def text_of_def number_of_def json_of_text_def json_repair_valid)
  then show ?thesis using event_text_reads body by simp
qed

definition demo_event :: Event where
  "demo_event = \<lparr>JobID = ''1f-2'', ev_URL = ''http://e/?a=1&b=<2>'', ev_Status = StatusCompleted, ev_Error = '''',
     ev_PDFKey = ''jobs/1f-2.pdf'', ev_PDFSize = 812, ev_RequestID = ''''\<rparr>"

theorem webhook_event_roundtrip_witness:
  "\<exists>rq v. fst (Notify True (\<lambda>_. Inr 204) ''http://hook'' demo_event) = [rq]
     \<and> json_unmarshal (wr_body rq) = Some v \<and> event_of_json v = Some demo_event"
proof -
  have "Parse ''http://hook'' \<noteq> None" by code_simp
  then obtain rq res where n: "Notify True (\<lambda>_. Inr 204) ''http://hook'' demo_event = ([rq], res)"
    by (auto simp: Notify_def Let_def)
  have "utf8_valid ''1f-2''" "utf8_valid ''http://e/?a=1&b=<2>''" "utf8_valid ''completed''" "utf8_valid ''jobs/1f-2.pdf''"
    by code_simp+
  then have "event_text_ok demo_event" by (simp add: event_text_ok_def demo_event_def StatusCompleted_def)
  then show ?thesis using webhook_event_roundtrip [OF n] n by auto
qed

end
