(* ===== verification/Wire_Properties.thy ===== *)
theory Wire_Properties
  imports Http_Properties Api_Properties
begin

text \<open>
  A submission and the query for its status as texts on the wire, through the middlewares, the
  multiplexer, the JSON decoder and the handlers, on the in-memory back-ends.
\<close>

section \<open>Submit, then ask\<close>

lemma api_request_ctx:
  "ctx_request_id (api_request (r\<lparr>hr_ctx_id := Some i, hr_pattern := p, hr_values := ms\<rparr>)) = i"
  "decoded_body (api_request (r\<lparr>hr_ctx_id := Some i, hr_pattern := p, hr_values := ms\<rparr>)) = decode_submit (hr_text r)"
  "path_id (api_request (r\<lparr>hr_ctx_id := Some i, hr_pattern := p, hr_values := ms\<rparr>)) = path_value ms ''id''"
  "idempotency_header (api_request (r\<lparr>hr_ctx_id := Some i, hr_pattern := p, hr_values := ms\<rparr>))
     = header_get r ''Idempotency-Key''"
  by (simp_all add: api_request_def RequestIDFromContext_def header_get_def)

lemma serve_found:
  assumes "serve E r a = Some (cs, r', a')" and "hr_uri r \<noteq> ''*''"
    and "mux_find routes (hr_method r) (escaped_path r) = Found pat rt ms"
  obtains cs1 a1 f where
    "run_route E rt (r\<lparr>hr_ctx_id := Some (request_id (e_request_id E) r), hr_pattern := pat, hr_values := ms\<rparr>) a
       = Some (cs1, a1)"
    and "cs = SetHeader ''X-Request-Id'' (request_id (e_request_id E) r) # cs1"
    and "a' = a1\<lparr>a_metrics := map_option f (a_metrics a1)\<rparr>"
proof -
  have "escaped_path (r\<lparr>hr_ctx_id := i\<rparr>) = escaped_path r" for i by (simp add: escaped_path_def request_url_def)
  then show thesis
    using assms that
    by (auto simp: serve_def MetricsMiddleware_def RequestMiddleware_def serve_mux_def Let_def
        split: option.splits)
qed

definition uuid_char :: "char \<Rightarrow> bool" where
  "uuid_char c \<longleftrightarrow> c \<in> set ''0123456789abcdef-''"

lemma path_escape_uuid: "list_all uuid_char i \<Longrightarrow> path_escape i = i"
proof -
  have c: "escape_char EncodePathSegment c = [c]" if "uuid_char c" for c
  proof -
    have "list_all (\<lambda>c. escape_char EncodePathSegment c = [c]) ''0123456789abcdef-''" by code_simp
    then show ?thesis using that by (auto simp: uuid_char_def list_all_iff)
  qed
  show "list_all uuid_char i \<Longrightarrow> path_escape i = i"
    unfolding path_escape_def escape_def by (induction i) (simp_all add: c)
qed

lemma uuid_not_special:
  "list_all uuid_char i \<Longrightarrow> i \<noteq> ''.'' \<and> i \<noteq> ''..'' \<and> i \<noteq> ''/''"
  by (auto simp: uuid_char_def)

text \<open>The address \<open>/pdf/\<close> followed by a job's id is routed to that job.\<close>

lemma job_link_found:
  assumes "hr_uri q = ''/pdf/'' @ i" and "i \<noteq> ''''" and "list_all uuid_char i"
  shows "mux_find routes ''GET'' (escaped_path q) = Found ''GET /pdf/{id}'' RGet [(''id'', i)]"
proof -
  have id: "path_escape i = i" "i \<noteq> ''.''" "i \<noteq> ''..''" "i \<noteq> ''/''"
    using path_escape_uuid [OF assms(3)] uuid_not_special [OF assms(3)] by simp_all
  have "hr_uri q = path_of [''pdf'', path_escape i]" by (simp add: assms(1) id(1) path_of_def)
  from job_path [OF assms(2) id(2,3) this] mux_table show ?thesis
    using id(4) by (simp add: route_table_def get_route_def)
qed

text \<open>A submission whose body decodes to the URL alone, and the query that follows it.\<close>

lemma post_then_get:
  fixes E F :: "(mem_storage, mem_queue, mem_blobs) env"
  assumes mem: "e_store E = mem_store_ops" "e_queue E = mem_queue_ops" "e_store F = mem_store_ops"
    and opts: "\<not> RequireIdempotencyKey (e_options E)" "trim_space (DefaultWebhookURL (e_options E)) = ''''"
    and wf: "ms_wf (a_store a)" "mq_wf (a_queue a)" and room: "queue_has_room (a_queue a)"
    and t: "e_now E \<noteq> 0" "e_set_now E \<noteq> 0"
    and url: "validateURL (trim_space u) = None"
    and post: "hr_method r = ''POST''" "hr_uri r = ''/pdf''" "trim_space (header_get r ''Idempotency-Key'') = ''''"
      "decode_submit (hr_text r) = Inr \<lparr>req_URL = u, req_IdempotencyKey = '''', req_CallbackURL = ''''\<rparr>"
    and new: "ms_view (a_store a) (e_job_id E) = None" "e_job_id E \<noteq> ''''" "list_all uuid_char (e_job_id E)"
    and run: "serve E r a = Some (cs, r', a1)"
    and get: "hr_method q = ''GET''" "hr_uri q = ''/pdf/'' @ e_job_id E"
    and ask: "serve F q a1 = Some (cs2, q', a2)"
  shows "sent_status cs = 202
    \<and> sent_body cs = json_object (submit_fields (e_job_id E) (''/pdf/'' @ e_job_id E) False) @ [CHR 0x0A]
    \<and> mq_pending (a_queue a1) = mq_pending (a_queue a)
        @ [submitted_job (e_job_id E) (trim_space u) '''' '''' (request_id (e_request_id E) r)]
    \<and> sent_status cs2 = 200
    \<and> sent_body cs2 = json_object (status_fields (e_job_id E) (trim_space u) StatusPending '''') @ [CHR 0x0A]"
proof -
  let ?id = "e_job_id E" and ?rid = "request_id (e_request_id E) r"
  have "escaped_path r = path_of [''pdf'']"
    by (rule escaped_path_of) (simp_all only: segs_plain plain_literals simp_thms list.distinct post(2) path_of_def
        not_False_eq_True list.map concat.simps append.simps)
  then have "mux_find routes ''POST'' (escaped_path r) = Found ''POST /pdf'' RSubmit []"
    by (simp only:) code_simp
  from serve_found [OF run _ this [folded post(1)]] obtain cs1 b f where
    sub: "run_route E RSubmit (r\<lparr>hr_ctx_id := Some ?rid, hr_pattern := ''POST /pdf'', hr_values := []\<rparr>) a = Some (cs1, b)"
    and cs: "cs = SetHeader ''X-Request-Id'' ?rid # cs1" and a1: "a1 = b\<lparr>a_metrics := map_option f (a_metrics b)\<rparr>"
    by (auto simp: post(2))
  let ?q = "api_request (r\<lparr>hr_ctx_id := Some ?rid, hr_pattern := ''POST /pdf'', hr_values := []\<rparr>)"
  have chk: "check_submission (e_options E) ?q = Inr (trim_space u, '''', '''')"
    using url opts post
    by (simp add: check_submission_def api_request_ctx idempotency_key_def callback_url_def)
  obtain resp where job: "SubmitJob mem_store_ops mem_queue_ops (e_options E) ?id (e_now E) (e_set_now E) ?q a = (b, resp)"
    and cs1: "cs1 = answer_calls (e_openapi E) resp"
    using sub by (auto simp: run_route_def mem split: prod.splits)
  have free: "key_free '''' (ms_keys (a_store a))" by (simp add: key_free_def)
  obtain p where push: "q_Push mem_queue_ops (submitted_job ?id (trim_space u) '''' '''' (ctx_request_id ?q)) (a_queue a) = (p, None)"
    using mq_Push_room [OF room] by auto
  note stored = sub.submit_fresh [OF wf t chk new(1) free push job]
  have queued: "mq_pending (a_queue b) = mq_pending (a_queue a)
      @ [submitted_job ?id (trim_space u) '''' '''' ?rid]" and resp: "resp = accepted ?id False"
    and view: "ms_view (a_store b) ?id = Some (stored_pending (e_now E) (e_set_now E) (trim_space u) '''' '''' ?rid)"
    using stored by (simp_all add: api_request_ctx)
  have star: "hr_uri q \<noteq> ''*''" by (simp add: get(2))
  note found = job_link_found [OF get(2) new(2,3)]
  obtain cs3 c f2 where
    sub2: "run_route F RGet (q\<lparr>hr_ctx_id := Some (request_id (e_request_id F) q), hr_pattern := ''GET /pdf/{id}'',
        hr_values := [(''id'', ?id)]\<rparr>) a1 = Some (cs3, c)"
    and cs2: "cs2 = SetHeader ''X-Request-Id'' (request_id (e_request_id F) q) # cs3"
    and "a2 = c\<lparr>a_metrics := map_option f2 (a_metrics c)\<rparr>"
    by (rule serve_found [OF ask star found [folded get(1)]])
  have rec: "map_of (results (a_store a1)) ?id = Some (stored_pending (e_now E) (e_set_now E) (trim_space u) '''' '''' ?rid)"
    using view by (simp add: a1 ms_view_def)
  have err: "Error (stored_pending (e_now E) (e_set_now E) (trim_space u) '''' '''' ?rid) = ''''"
    by (simp add: stored_pending_def pending_record_def zero_result_def)
  have "cs3 = answer_calls (e_openapi F) \<lparr>code = 200, headers = [json_type],
      body = JobStatusBody ?id (trim_space u) StatusPending ''''\<rparr>"
    using sub2 rec err
    by (simp add: run_route_def mem GetJob_def mem_Get_def api_request_ctx path_value_def status_body_def
        StatusPending_def StatusCompleted_def)
  then show ?thesis using queued resp
    by (simp add: cs cs1 cs2 a1)
qed

text \<open>C5: On the in-memory back-ends: a POST of the JSON object with a valid URL, while the queue has
  room, is answered 202 with the JSON of the new job's id and address; the job is queued with the
  request's id; and a GET of that address, the text of the id behind \<open>/pdf/\<close>, is answered 200 with
  the JSON of that job, pending.\<close>

theorem submission_over_the_wire:
  fixes E F :: "(mem_storage, mem_queue, mem_blobs) env"
  assumes mem: "e_store E = mem_store_ops" "e_queue E = mem_queue_ops" "e_store F = mem_store_ops"
    and opts: "\<not> RequireIdempotencyKey (e_options E)" "trim_space (DefaultWebhookURL (e_options E)) = ''''"
    and wf: "ms_wf (a_store a)" "mq_wf (a_queue a)" and room: "queue_has_room (a_queue a)"
    and t: "e_now E \<noteq> 0" "e_set_now E \<noteq> 0"
    and url: "utf8_valid u" "validateURL (trim_space u) = None"
    and post: "hr_method r = ''POST''" "hr_uri r = ''/pdf''" "trim_space (header_get r ''Idempotency-Key'') = ''''"
      "hr_text r = json_object [text_field ''url'' u]" "length (hr_text r) \<le> max_body"
    and new: "ms_view (a_store a) (e_job_id E) = None" "e_job_id E \<noteq> ''''" "list_all uuid_char (e_job_id E)"
    and run: "serve E r a = Some (cs, r', a1)"
    and get: "hr_method q = ''GET''" "hr_uri q = ''/pdf/'' @ e_job_id E"
    and ask: "serve F q a1 = Some (cs2, q', a2)"
  shows "sent_status cs = 202
    \<and> sent_body cs = json_object (submit_fields (e_job_id E) (''/pdf/'' @ e_job_id E) False) @ [CHR 0x0A]
    \<and> mq_pending (a_queue a1) = mq_pending (a_queue a)
        @ [submitted_job (e_job_id E) (trim_space u) '''' '''' (request_id (e_request_id E) r)]
    \<and> sent_status cs2 = 200
    \<and> sent_body cs2 = json_object (status_fields (e_job_id E) (trim_space u) StatusPending '''') @ [CHR 0x0A]"
  by (rule post_then_get [OF mem opts wf room t url(2) post(1-3) _ new run get ask])
    (use decode_submit_url [OF url(1)] post(4,5) in simp)

lemma serve_answers:
  assumes "hr_uri r \<noteq> ''*''" and "mux_find routes (hr_method r) (escaped_path r) = Found pat rt ms"
    and "rt \<noteq> RMetricsPage"
  shows "\<exists>cs a'. serve E r a = Some (cs, r, a')"
proof -
  have "escaped_path (r\<lparr>hr_ctx_id := i\<rparr>) = escaped_path r" for i by (simp add: escaped_path_def request_url_def)
  moreover have "\<exists>cs a'. run_route E rt q a = Some (cs, a')" for q
    using assms(3) by (cases rt) (auto simp: run_route_def split: prod.splits)
  ultimately show ?thesis using assms(1,2)
    by (fastforce simp: serve_def MetricsMiddleware_def RequestMiddleware_def serve_mux_def Let_def
        split: option.split)
qed

theorem submission_over_the_wire_witness:
  "\<exists>cs a1 cs2 a2.
     serve demo_server (demo_http ''POST'' ''/pdf'' (json_object [text_field ''url'' ''http://e/p''])) demo_state
       = Some (cs, demo_http ''POST'' ''/pdf'' (json_object [text_field ''url'' ''http://e/p'']), a1)
     \<and> serve demo_server (demo_http ''GET'' ''/pdf/1f-2'' '''') a1 = Some (cs2, demo_http ''GET'' ''/pdf/1f-2'' '''', a2)
     \<and> sent_status cs = 202 \<and> sent_status cs2 = 200
     \<and> sent_body cs2 = json_object (status_fields ''1f-2'' ''http://e/p'' StatusPending '''') @ [CHR 0x0A]"
proof -
  let ?r = "demo_http ''POST'' ''/pdf'' (json_object [text_field ''url'' ''http://e/p''])"
    and ?q = "demo_http ''GET'' ''/pdf/1f-2'' ''''"
  have star: "hr_uri ?r \<noteq> ''*''" "hr_uri ?q \<noteq> ''*''" by (simp_all add: demo_http_def)
  have "mux_find routes (hr_method ?r) (escaped_path ?r) = Found ''POST /pdf'' RSubmit []"
    "mux_find routes (hr_method ?q) (escaped_path ?q) = Found ''GET /pdf/{id}'' RGet [(''id'', ''1f-2'')]"
    by code_simp+
  note f = serve_answers [OF star(1) this(1)] serve_answers [OF star(2) this(2)]
  obtain cs a1 where post: "serve demo_server ?r demo_state = Some (cs, ?r, a1)" using f(1) by blast
  obtain cs2 a2 where ask: "serve demo_server ?q a1 = Some (cs2, ?q, a2)" using f(2) by blast
  have url: "utf8_valid ''http://e/p''" "validateURL (trim_space ''http://e/p'') = None"
    "trim_space ''http://e/p'' = ''http://e/p''" by code_simp+
  have len: "length (hr_text ?r) \<le> max_body"
  proof -
    have "length (hr_text ?r) = 20" by code_simp
    then show ?thesis by (simp add: max_body_def)
  qed
  have state: "ms_wf (a_store demo_state)" "mq_wf (a_queue demo_state)" "queue_has_room (a_queue demo_state)"
    "ms_view (a_store demo_state) (e_job_id demo_server) = None"
    by (simp_all add: demo_state_def demo_server_def mq_wf_def queue_has_room_def ms_view_def NewMemoryStorage_def
        ms_wf_def gm_wf_def)
  have id: "e_job_id demo_server = ''1f-2''" "list_all uuid_char (e_job_id demo_server)" by code_simp+
  have header: "trim_space (header_get ?r ''Idempotency-Key'') = ''''" by code_simp
  note all = submission_over_the_wire [OF _ _ _ _ _ state(1-3) _ _ url(1,2) _ _ header _ len state(4) _ id(2) post _ _ ask]
  have "sent_status cs = 202 \<and> sent_status cs2 = 200
     \<and> sent_body cs2 = json_object (status_fields ''1f-2'' ''http://e/p'' StatusPending '''') @ [CHR 0x0A]"
    using all by (auto simp: id url demo_server_def demo_http_def)
  then show ?thesis using post ask by blast
qed

end
