(* ===== verification/Dashboard.thy ===== *)
theory Dashboard
  imports Message_Json Wire_Properties
begin

text \<open>
  The dashboard page (\<open>dashboardTemplate\<close> in \<open>internal/api/handler.go\<close>): the document its script
  builds and what the script does on each event, from the submit button, the fetch, the WebSocket and
  the timer. Texts are UTF-8. What the browser decides is a record: which number literals denote zero,
  how other values print, how a date prints (or that it is none), and the texts of its own errors.
\<close>

section \<open>Documents and values\<close>

datatype node = TextNode string | Element string "(string \<times> string) list" "node list"

definition text_content :: "string \<Rightarrow> node list" where
  "text_content s = (if s = '''' then [] else [TextNode s])"

record browser =
  br_zero :: "string \<Rightarrow> bool"
  br_text :: "json \<Rightarrow> string"
  br_date :: "json \<Rightarrow> string option"
  br_type_error :: string
  br_syntax_error :: "string \<Rightarrow> string"

text \<open>A value of the script is a JSON value or undefined.\<close>

fun truthy :: "browser \<Rightarrow> json option \<Rightarrow> bool" where
  "truthy B None = False"
| "truthy B (Some JNull) = False"
| "truthy B (Some (JBool b)) = b"
| "truthy B (Some (JNum t)) = (\<not> br_zero B t)"
| "truthy B (Some (JStr l s)) = (s \<noteq> '''')"
| "truthy B (Some v) = True"

fun as_text :: "browser \<Rightarrow> json option \<Rightarrow> string" where
  "as_text B None = ''undefined''"
| "as_text B (Some JNull) = ''null''"
| "as_text B (Some (JBool b)) = (if b then ''true'' else ''false'')"
| "as_text B (Some (JStr l s)) = s"
| "as_text B (Some v) = br_text B v"

text \<open>Assigning \<open>textContent\<close>: null and undefined clear it.\<close>

definition set_text :: "browser \<Rightarrow> json option \<Rightarrow> node list" where
  "set_text B v = (if v = None \<or> v = Some JNull then [] else text_content (as_text B v))"

text \<open>A property of a parsed value: the last member of that name; null has no properties (\<open>None\<close>).\<close>

fun get_field :: "json \<Rightarrow> string \<Rightarrow> json option option" where
  "get_field JNull k = None"
| "get_field (JObj ms) k = Some (map_of (rev ms) k)"
| "get_field v k = Some None"

definition is_text :: "json option \<Rightarrow> string \<Rightarrow> bool" where
  "is_text v s = (case v of Some (JStr l t) \<Rightarrow> t = s | _ \<Rightarrow> False)"

section \<open>The list of jobs\<close>

definition formatTime :: "browser \<Rightarrow> json option \<Rightarrow> string option" where
  "formatTime B v = (if \<not> truthy B v then Some ''just now'' else br_date B (the v))"

definition middot :: string where "middot = [CHR 0xC2, CHR 0xB7]"
definition ellipsis :: string where "ellipsis = [CHR 0xE2, CHR 0x80, CHR 0xA6]"

text \<open>\<open>None\<close>: an exception.\<close>

definition renderJob :: "browser \<Rightarrow> json \<Rightarrow> node option" where
  "renderJob B job =
     (case (get_field job ''url'', get_field job ''id'', get_field job ''updated_at'', get_field job ''status'',
            get_field job ''error'') of
        (Some url, Some jid, Some updated, Some status, Some err) \<Rightarrow>
          (case formatTime B updated of
             None \<Rightarrow> None
           | Some time \<Rightarrow>
               Some (Element ''article'' [(''class'', ''job'')]
                 ([Element ''div'' [(''class'', ''job-header'')]
                     [Element ''div'' []
                        [Element ''div'' [(''class'', ''url'')]
                           (if truthy B url then set_text B url else text_content ''(unknown URL)''),
                         Element ''div'' [(''class'', ''meta'')]
                           (text_content (as_text B jid @ '' '' @ middot @ '' updated '' @ time))],
                      Element ''span'' [(''class'', ''badge '' @ as_text B status)] (set_text B status)]]
                  @ (if is_text status ''completed''
                     then [Element ''a'' [(''href'', ''/pdf/'' @ as_text B jid)] (text_content ''Download PDF'')]
                     else [])
                  @ (if truthy B err
                     then [Element ''div'' [(''class'', ''error'')] (set_text B err)] else []))))
      | _ \<Rightarrow> None)"

definition no_jobs :: "node list" where
  "no_jobs = [Element ''p'' [] [TextNode ''No jobs yet.'']]"

text \<open>Only an array has the method \<open>map\<close>; an object may still pass for an empty one by its length.\<close>

definition renderJobs :: "browser \<Rightarrow> json \<Rightarrow> node list option" where
  "renderJobs B jobs =
     (case jobs of
        JArr vs \<Rightarrow> if vs = [] then Some no_jobs else those (map (renderJob B) vs)
      | JObj ms \<Rightarrow> (case map_of (rev ms) ''length'' of
                     Some (JNum t) \<Rightarrow> if br_zero B t then Some no_jobs else None
                   | _ \<Rightarrow> None)
      | _ \<Rightarrow> None)"

text \<open>The handler of a message; an exception leaves the page as it is.\<close>

definition on_message :: "browser \<Rightarrow> string \<Rightarrow> node list \<Rightarrow> node list" where
  "on_message B data shown =
     (case json_unmarshal data of
        None \<Rightarrow> shown
      | Some message \<Rightarrow>
          (case (get_field message ''type'', get_field message ''jobs'') of
             (Some ty, Some jobs) \<Rightarrow>
               if is_text ty ''jobs''
               then (case renderJobs B (if truthy B jobs then the jobs else JArr []) of
                       None \<Rightarrow> shown | Some nodes \<Rightarrow> nodes)
               else shown
           | _ \<Rightarrow> shown))"

section \<open>Submitting\<close>

text \<open>\<open>JSON.stringify\<close> of a text escapes quotes, backslashes and control characters only.\<close>

definition js_escape :: "char \<Rightarrow> string" where
  "js_escape a = (if a = CHR ''<'' \<or> a = CHR ''>'' \<or> a = CHR ''&'' \<or> 0x80 \<le> byte a then [a] else escape_ascii a)"

definition js_string :: "string \<Rightarrow> string" where
  "js_string s = quote # concat (map js_escape s) @ [quote]"

definition submit_text :: "string \<Rightarrow> string" where
  "submit_text url = json_object [(''url'', js_string url)]"

datatype fetched = NetworkError string | Response int string

text \<open>The notice after the fetch, and whether the field is cleared.\<close>

definition submit_outcome :: "browser \<Rightarrow> fetched \<Rightarrow> string \<times> bool" where
  "submit_outcome B f =
     (let failed = (\<lambda>msg. (''Submit failed: '' @ msg, False))
      in case f of
           NetworkError msg \<Rightarrow> failed msg
         | Response status content \<Rightarrow>
             if \<not> (200 \<le> status \<and> status \<le> 299) then failed content
             else (case json_unmarshal content of
                     None \<Rightarrow> failed (br_syntax_error B content)
                   | Some job \<Rightarrow>
                       (case get_field job ''job_id'' of
                          None \<Rightarrow> failed (br_type_error B)
                        | Some i \<Rightarrow> (''Queued '' @ as_text B i, True))))"

section \<open>The page\<close>

datatype socket = SocketConnecting | SocketLive | SocketClosing

record page =
  pg_notice :: string
  pg_url :: string
  pg_disabled :: bool
  pg_status :: string
  pg_jobs :: "node list"
  pg_sockets :: "(nat, socket) gomap"
  pg_timers :: nat
  pg_fresh :: nat

definition socket_url :: "bool \<Rightarrow> string \<Rightarrow> string" where
  "socket_url https host = (if https then ''wss'' else ''ws'') @ ''://'' @ host @ ''/ws/jobs''"

definition connect :: "page \<Rightarrow> page" where
  "connect p = p\<lparr>pg_sockets := gm_put (pg_fresh p) SocketConnecting (pg_sockets p), pg_fresh := Suc (pg_fresh p)\<rparr>"

definition loaded_page :: page where
  "loaded_page = connect
     \<lparr>pg_notice = ''Ready'', pg_url = '''', pg_disabled = False, pg_status = ''Connecting'' @ ellipsis,
      pg_jobs = no_jobs, pg_sockets = [], pg_timers = 0, pg_fresh = 0\<rparr>"

datatype page_event =
    Typed string | Submitted_form | Fetched fetched
  | SocketOpened nat | SocketMessage nat string | SocketError nat | SocketClosed nat | TimerFired

text \<open>
  A disabled button keeps the form from being submitted again. An error closes the socket, and
  messages still on their way are not delivered to it any more; a closed socket schedules
  \<open>connect\<close>.
\<close>

fun page_step :: "browser \<Rightarrow> page_event \<Rightarrow> page \<Rightarrow> page option" where
  "page_step B (Typed s) p = Some (p\<lparr>pg_url := s\<rparr>)"
| "page_step B Submitted_form p =
     (if pg_disabled p then None
      else Some (p\<lparr>pg_disabled := True, pg_notice := ''Submitting job'' @ ellipsis\<rparr>))"
| "page_step B (Fetched f) p =
     (if pg_disabled p
      then (case submit_outcome B f of (msg, clear) \<Rightarrow>
              Some (p\<lparr>pg_notice := msg, pg_url := (if clear then '''' else pg_url p), pg_disabled := False\<rparr>))
      else None)"
| "page_step B (SocketOpened i) p =
     (if map_of (pg_sockets p) i = Some SocketConnecting
      then Some (p\<lparr>pg_status := ''Live'', pg_sockets := gm_put i SocketLive (pg_sockets p)\<rparr>) else None)"
| "page_step B (SocketMessage i data) p =
     (if map_of (pg_sockets p) i = Some SocketLive
      then Some (p\<lparr>pg_jobs := on_message B data (pg_jobs p)\<rparr>) else None)"
| "page_step B (SocketError i) p =
     (case map_of (pg_sockets p) i of
        None \<Rightarrow> None
      | Some s \<Rightarrow> Some (p\<lparr>pg_sockets := gm_put i SocketClosing (pg_sockets p)\<rparr>))"
| "page_step B (SocketClosed i) p =
     (case map_of (pg_sockets p) i of
        None \<Rightarrow> None
      | Some s \<Rightarrow> Some (p\<lparr>pg_status := ''Reconnecting'' @ ellipsis, pg_sockets := gm_del i (pg_sockets p),
                         pg_timers := Suc (pg_timers p)\<rparr>))"
| "page_step B TimerFired p =
     (if 0 < pg_timers p then Some (connect (p\<lparr>pg_timers := pg_timers p - 1\<rparr>)) else None)"

fun page_run :: "browser \<Rightarrow> page_event list \<Rightarrow> page \<Rightarrow> page option" where
  "page_run B [] p = Some p"
| "page_run B (e # es) p = (case page_step B e p of None \<Rightarrow> None | Some q \<Rightarrow> page_run B es q)"


section \<open>Nothing a job says becomes markup\<close>

text \<open>The tags and attributes the script uses; the text of a link is a path beginning with \<open>/pdf/\<close>.\<close>

fun safe_node :: "node \<Rightarrow> bool" where
  "safe_node (TextNode s) = True"
| "safe_node (Element tag attrs ns) =
     (tag \<in> {''article'', ''div'', ''span'', ''a'', ''p''}
      \<and> list_all (\<lambda>(k, v). k = ''class'' \<or> (k = ''href'' \<and> has_prefix v ''/pdf/'')) attrs
      \<and> list_all safe_node ns)"

lemma safe_text: "list_all safe_node (text_content s)" "list_all safe_node (set_text B v)"
  by (simp_all add: text_content_def set_text_def)

lemma renderJob_safe: "renderJob B job = Some n \<Longrightarrow> safe_node n"
  by (auto simp: renderJob_def safe_text has_prefix_def split: option.splits)

lemma those_range: "those (map f xs) = Some ys \<Longrightarrow> y \<in> set ys \<Longrightarrow> \<exists>x. f x = Some y"
  by (induction xs arbitrary: ys) (auto split: option.splits)

lemma renderJobs_safe: "renderJobs B jobs = Some ns \<Longrightarrow> list_all safe_node ns"
proof -
  assume r: "renderJobs B jobs = Some ns"
  have empty: "list_all safe_node no_jobs" by (simp add: no_jobs_def)
  show ?thesis
  proof (cases jobs)
    case (JArr vs)
    show ?thesis
    proof (cases "vs = []")
      case False
      then have "those (map (renderJob B) vs) = Some ns" using r JArr by (simp add: renderJobs_def)
      then have "safe_node n" if "n \<in> set ns" for n using those_range [OF _ that] renderJob_safe by blast
      then show ?thesis by (simp add: list_all_iff)
    qed (use r JArr empty in \<open>simp add: renderJobs_def\<close>)
  next
    case (JObj ms)
    then have "ns = no_jobs" using r by (simp add: renderJobs_def split: option.splits json.splits if_splits)
    then show ?thesis using empty by simp
  qed (use r in \<open>simp_all add: renderJobs_def\<close>)
qed

lemma on_message_safe: "list_all safe_node shown \<Longrightarrow> list_all safe_node (on_message B data shown)"
  by (auto simp: on_message_def split: option.splits dest: renderJobs_safe)

lemma page_step_safe:
  "page_step B e p = Some q \<Longrightarrow> list_all safe_node (pg_jobs p) \<Longrightarrow> list_all safe_node (pg_jobs q)"
  by (cases e) (auto simp: connect_def on_message_safe split: if_splits option.splits prod.splits)

lemma page_run_invariant:
  assumes "\<And>e p q. page_step B e p = Some q \<Longrightarrow> P p \<Longrightarrow> P q"
  shows "page_run B es p = Some q \<Longrightarrow> P p \<Longrightarrow> P q"
  by (induction es arbitrary: p) (auto split: option.splits dest: assms)

text \<open>C26: Whatever the sockets deliver, JSON or not, with whatever texts in the jobs, the job list holds only
  the elements the script creates: no text of a job becomes markup or an attribute but a class, and
  the text of every link is an absolute path beginning with \<open>/pdf/\<close>, so that it never names another
  host or a script. (An id with dot segments could still lead to another path of the same service;
  for the ids the service makes, \<open>dashboard_shows_last_list\<close> says where the links lead.)\<close>

theorem dashboard_never_injects:
  assumes "page_run B es loaded_page = Some p"
  shows "list_all safe_node (pg_jobs p)"
  using page_run_invariant [of B "\<lambda>p. list_all safe_node (pg_jobs p)", OF page_step_safe assms]
  by (simp add: loaded_page_def connect_def no_jobs_def)

section \<open>The connection comes back\<close>

text \<open>There is one socket or one timer, and a live socket is announced.\<close>

definition connection_ok :: "page \<Rightarrow> bool" where
  "connection_ok p \<longleftrightarrow>
     (\<exists>i st. pg_sockets p = [(i, st)] \<and> pg_timers p = 0 \<and> (st = SocketLive \<longrightarrow> pg_status p = ''Live''))
     \<or> (pg_sockets p = [] \<and> pg_timers p = 1)"

lemma page_step_connection: "page_step B e p = Some q \<Longrightarrow> connection_ok p \<Longrightarrow> connection_ok q"
  by (cases e) (auto simp: connection_ok_def connect_def split: if_splits option.splits prod.splits)

lemma page_run_connection: "page_run B es loaded_page = Some p \<Longrightarrow> connection_ok p"
  using page_run_invariant [of B connection_ok, OF page_step_connection]
  by (simp add: loaded_page_def connect_def connection_ok_def)

fun is_network :: "page_event \<Rightarrow> bool" where
  "is_network (SocketOpened i) = True"
| "is_network (SocketClosed i) = True"
| "is_network TimerFired = True"
| "is_network e = False"

text \<open>C27: Whatever has happened, at most three events of the network and the timer bring the page back to
  one live connection, announced as such, with the list it showed still there; there are never two
  connections or a connection beside a timer.\<close>

theorem dashboard_reconnects:
  assumes "page_run B es loaded_page = Some p"
  shows "length (pg_sockets p) + pg_timers p = 1
    \<and> (\<exists>fs q i. list_all is_network fs \<and> length fs \<le> 3 \<and> page_run B fs p = Some q
        \<and> pg_sockets q = [(i, SocketLive)] \<and> pg_status q = ''Live'' \<and> pg_jobs q = pg_jobs p)"
proof -
  have open1: "\<exists>fs q i. list_all is_network fs \<and> length fs \<le> 1 \<and> page_run B fs p = Some q
        \<and> pg_sockets q = [(i, SocketLive)] \<and> pg_status q = ''Live'' \<and> pg_jobs q = pg_jobs p"
    if "pg_sockets p = [(j, SocketConnecting)]" for p j
    by (rule exI [of _ "[SocketOpened j]"]) (simp add: that)
  have timer2: "\<exists>fs q i. list_all is_network fs \<and> length fs \<le> 2 \<and> page_run B fs p = Some q
        \<and> pg_sockets q = [(i, SocketLive)] \<and> pg_status q = ''Live'' \<and> pg_jobs q = pg_jobs p"
    if t: "pg_sockets p = []" "pg_timers p = 1" for p
  proof -
    let ?p = "connect (p\<lparr>pg_timers := pg_timers p - 1\<rparr>)"
    have "pg_sockets ?p = [(pg_fresh p, SocketConnecting)]" by (simp add: connect_def t)
    from open1 [OF this] obtain fs q i where "list_all is_network fs" "length fs \<le> 1" "page_run B fs ?p = Some q"
        "pg_sockets q = [(i, SocketLive)]" "pg_status q = ''Live''" "pg_jobs q = pg_jobs ?p" by blast
    then show ?thesis using t
      by (intro exI [of _ "TimerFired # fs"] exI [of _ q] exI [of _ i]) (simp add: connect_def)
  qed
  have ok: "connection_ok p" by (rule page_run_connection [OF assms])
  then consider i st where "pg_sockets p = [(i, st)]" "pg_timers p = 0" "st = SocketLive \<longrightarrow> pg_status p = ''Live''"
    | "pg_sockets p = []" "pg_timers p = 1" by (auto simp: connection_ok_def)
  then show ?thesis
  proof cases
    case (1 i st)
    show ?thesis
    proof (cases st)
      case SocketConnecting
      then show ?thesis using open1 [of p i] 1 by fastforce
    next
      case SocketLive
      then show ?thesis using 1 by (intro conjI exI [of _ "[]"]) auto
    next
      case SocketClosing
      let ?p = "p\<lparr>pg_status := ''Reconnecting'' @ ellipsis, pg_sockets := [], pg_timers := 1\<rparr>"
      from timer2 [of ?p] obtain fs q j where "list_all is_network fs" "length fs \<le> 2" "page_run B fs ?p = Some q"
        "pg_sockets q = [(j, SocketLive)]" "pg_status q = ''Live''" "pg_jobs q = pg_jobs ?p" by auto
      then show ?thesis using 1
        by (intro conjI exI [of _ "SocketClosed i # fs"] exI [of _ q] exI [of _ j]) simp_all
    qed
  next
    case 2
    then show ?thesis using timer2 [OF 2] by fastforce
  qed
qed

section \<open>What the hub sends is shown\<close>

text \<open>The visible texts of a document in order, and where its links lead.\<close>

fun shown_texts :: "node \<Rightarrow> string list" where
  "shown_texts (TextNode s) = [s]"
| "shown_texts (Element tag attrs ns) = concat (map shown_texts ns)"

fun links :: "node \<Rightarrow> string list" where
  "links (TextNode s) = []"
| "links (Element tag attrs ns) = map snd (filter (\<lambda>a. fst a = ''href'') attrs) @ concat (map links ns)"

text \<open>What a reader should see of one job; \<open>date\<close> prints a time.\<close>

definition nonempty :: "string \<Rightarrow> string list" where
  "nonempty s = (if s = '''' then [] else [s])"

definition job_texts :: "(time \<Rightarrow> string) \<Rightarrow> job_snapshot \<Rightarrow> string list" where
  "job_texts date s =
     [if json_repair (snap_URL s) = '''' then ''(unknown URL)'' else json_repair (snap_URL s),
      json_repair (snap_ID s) @ '' '' @ middot @ '' updated '' @ date (snap_UpdatedAt s)]
     @ nonempty (json_repair (status_text (snap_Status s)))
     @ (if json_repair (status_text (snap_Status s)) = ''completed'' then [''Download PDF''] else [])
     @ (if snap_Error s = '''' then [] else nonempty (json_repair (snap_Error s)))"

definition job_links :: "job_snapshot \<Rightarrow> string list" where
  "job_links s = (if json_repair (status_text (snap_Status s)) = ''completed''
     then [''/pdf/'' @ json_repair (snap_ID s)] else [])"

definition prints_dates :: "browser \<Rightarrow> (time \<Rightarrow> string) \<Rightarrow> bool" where
  "prints_dates B date \<longleftrightarrow>
     (\<forall>t. four_digit_year t \<longrightarrow> br_date B (JStr (format_time t) (format_time t)) = Some (date t))"

lemma format_time_nonempty: "format_time t \<noteq> ''''"
  by (simp add: format_time_def)

lemma text_shown: "concat (map shown_texts (text_content s)) = nonempty s" "concat (map links (text_content s)) = []"
  by (simp_all add: text_content_def nonempty_def)

lemma snapshot_field:
  "get_field (snapshot_json s) ''id'' = Some (Some (json_of_text (snap_ID s)))"
  "get_field (snapshot_json s) ''url'' = Some (Some (json_of_text (snap_URL s)))"
  "get_field (snapshot_json s) ''status'' = Some (Some (json_of_text (status_text (snap_Status s))))"
  "get_field (snapshot_json s) ''error'' =
     Some (if snap_Error s = '''' then None else Some (json_of_text (snap_Error s)))"
  "get_field (snapshot_json s) ''updated_at'' =
     Some (Some (JStr (format_time (snap_UpdatedAt s)) (format_time (snap_UpdatedAt s))))"
  by (simp_all add: snapshot_json_def snapshot_members_def)

lemma renderJob_shows:
  assumes "prints_dates B date" and "four_digit_year (snap_UpdatedAt s)"
  shows "\<exists>n. renderJob B (snapshot_json s) = Some n \<and> shown_texts n = job_texts date s \<and> links n = job_links s"
proof -
  have "formatTime B (Some (JStr (format_time (snap_UpdatedAt s)) (format_time (snap_UpdatedAt s)))) = Some (date (snap_UpdatedAt s))"
    using assms format_time_nonempty by (simp add: formatTime_def prints_dates_def)
  then show ?thesis
    by (auto simp: renderJob_def snapshot_field json_of_text_def is_text_def set_text_def text_shown nonempty_def
        job_texts_def job_links_def middot_def text_content_def)
qed

lemma renderJobs_shows:
  assumes "prints_dates B date" and "\<forall>s \<in> set js. four_digit_year (snap_UpdatedAt s)"
  shows "\<exists>ns. those (map (renderJob B) (map snapshot_json js)) = Some ns
    \<and> concat (map shown_texts ns) = concat (map (job_texts date) js) \<and> concat (map links ns) = concat (map job_links js)"
  using assms(2)
proof (induction js)
  case (Cons s js)
  then obtain ns where ns: "those (map (renderJob B) (map snapshot_json js)) = Some ns"
    "concat (map shown_texts ns) = concat (map (job_texts date) js)" "concat (map links ns) = concat (map job_links js)"
    by auto
  obtain n where "renderJob B (snapshot_json s) = Some n" "shown_texts n = job_texts date s" "links n = job_links s"
    using renderJob_shows [OF assms(1), of s] Cons.prems by auto
  then show ?case using ns by (intro exI [of _ "n # ns"]) simp
qed simp

lemma on_message_shows:
  assumes "prints_dates B date" and "hub_text js = Some m"
  shows "concat (map shown_texts (on_message B m shown)) =
      (if js = [] then [''No jobs yet.''] else concat (map (job_texts date) js))
    \<and> concat (map links (on_message B m shown)) = concat (map job_links js)"
proof -
  have years: "\<forall>s \<in> set js. four_digit_year (snap_UpdatedAt s)"
    using assms(2) by (auto simp: MarshalJobs_def list_all_iff split: if_splits)
  have read: "json_unmarshal m = Some (jobs_json js)" by (rule MarshalJobs_reads [OF assms(2)])
  obtain ns where ns: "those (map (renderJob B) (map snapshot_json js)) = Some ns"
    "concat (map shown_texts ns) = concat (map (job_texts date) js)" "concat (map links ns) = concat (map job_links js)"
    using renderJobs_shows [OF assms(1) years] by blast
  show ?thesis
  proof (cases js)
    case Nil
    then show ?thesis by (simp add: on_message_def read jobs_json_def is_text_def renderJobs_def no_jobs_def)
  next
    case (Cons s js')
    then have "on_message B m shown = ns"
      using ns(1) by (simp add: on_message_def read jobs_json_def is_text_def renderJobs_def del: list.map)
    then show ?thesis using ns(2,3) Cons by simp
  qed
qed

lemma page_run_append: "page_run B (es @ fs) p = Option.bind (page_run B es p) (page_run B fs)"
  by (induction es arbitrary: p) (auto split: option.splits)

lemma messages_run:
  "map_of (pg_sockets p) i = Some SocketLive \<Longrightarrow>
     \<exists>q. page_run B (map (SocketMessage i) ms) p = Some q \<and> map_of (pg_sockets q) i = Some SocketLive"
  by (induction ms arbitrary: p) auto

lemma uuid_utf8: "list_all uuid_char i \<Longrightarrow> utf8_valid i"
proof (rule utf8_valid_ascii)
  have "list_all (\<lambda>c. byte c < 0x80) ''0123456789abcdef-''" by code_simp
  then show "list_all uuid_char i \<Longrightarrow> list_all (\<lambda>c. byte c < 0x80) i"
    unfolding list_all_iff uuid_char_def by blast
qed

text \<open>C6: From the hub to the screen: in every interleaving of broadcasts and clients, a page that receives
  the messages written to its connection shows the last list among them, job by job in its order: URL,
  id and time, status, error, and a link for completed jobs only, which the service routes to the
  download of that job.\<close>

theorem dashboard_shows_last_list:
  assumes tr: "hub_trace hub_text NewHub tr h" and cl: "map_of h c = Some cl" "written cl = ms @ [m]"
    and dates: "prints_dates B date" and live: "map_of (pg_sockets p) i = Some SocketLive"
  shows "\<exists>q js. page_run B (map (SocketMessage i) (written cl)) p = Some q \<and> js \<in> listed tr \<and> hub_text js = Some m
    \<and> concat (map shown_texts (pg_jobs q)) =
        (if js = [] then [''No jobs yet.''] else concat (map (job_texts date) js))
    \<and> concat (map links (pg_jobs q)) = concat (map job_links js)
    \<and> (\<forall>s \<in> set js. \<forall>r. list_all uuid_char (snap_ID s) \<and> snap_ID s \<noteq> '''' \<and> hr_uri r \<in> set (job_links s) \<longrightarrow>
         mux_find routes ''GET'' (escaped_path r) = Found ''GET /pdf/{id}'' RGet [(''id'', snap_ID s)])"
proof -
  obtain js where js: "js \<in> listed tr" "hub_text js = Some m"
    using written_reads [OF tr cl(1), of m] cl(2) by auto
  obtain q0 where q0: "page_run B (map (SocketMessage i) ms) p = Some q0" "map_of (pg_sockets q0) i = Some SocketLive"
    using messages_run [OF live] by blast
  let ?q = "q0\<lparr>pg_jobs := on_message B m (pg_jobs q0)\<rparr>"
  have run: "page_run B (map (SocketMessage i) (written cl)) p = Some ?q"
    by (simp add: cl(2) page_run_append q0)
  have "mux_find routes ''GET'' (escaped_path r) = Found ''GET /pdf/{id}'' RGet [(''id'', snap_ID s)]"
    if "list_all uuid_char (snap_ID s) \<and> snap_ID s \<noteq> '''' \<and> hr_uri r \<in> set (job_links s)" for s r
  proof (rule job_link_found)
    show "hr_uri r = ''/pdf/'' @ snap_ID s"
      using that json_repair_valid [OF uuid_utf8, of "snap_ID s"] by (auto simp: job_links_def split: if_splits)
  qed (use that in simp_all)
  then show ?thesis using run js on_message_shows [OF dates js(2), of "pg_jobs q0"]
    by (intro exI [of _ ?q] exI [of _ js]) simp
qed

section \<open>A form that is submitted is queued\<close>

lemma rune_tail_bytes: "rune_tail x = Some rs \<Longrightarrow> list_all (\<lambda>(lo, hi). 0x80 \<le> lo) rs"
  by (auto simp: rune_tail_def split: if_splits)

lemma follows_bytes:
  "follows rs s \<Longrightarrow> list_all (\<lambda>(lo, hi). 0x80 \<le> lo) rs \<Longrightarrow> list_all (\<lambda>c. 0x80 \<le> byte c) (take (length rs) s)"
  by (induction rs s rule: follows.induct) auto

lemma rune_bytes:
  assumes "rune_size s = Some n" and "\<not> byte (hd s) < 0x80"
  shows "list_all (\<lambda>c. 0x80 \<le> byte c) (take n s)"
proof -
  obtain a s' where s: "s = a # s'" using assms(1) by (cases s) auto
  then obtain rs where rs: "rune_tail (byte a) = Some rs" "follows rs s'" "n = Suc (length rs)"
    using assms(1) by (auto split: option.splits if_splits)
  then show ?thesis using follows_bytes [OF rs(2) rune_tail_bytes [OF rs(1)]] assms(2) s by simp
qed

lemma js_escape_high: "list_all (\<lambda>c. 0x80 \<le> byte c) s \<Longrightarrow> concat (map js_escape s) = s"
  by (induction s) (simp_all add: js_escape_def)

lemma js_escape_step: "byte a < 0x80 \<Longrightarrow> unquote_step (js_escape a @ t) = Some ([a], t) \<and> hd (js_escape a @ t) \<noteq> quote"
  using unquote_escape_ascii [of a t] escape_ascii_head [of a]
  by (auto simp: js_escape_def unquote_step_def)

lemma js_string_reads: "utf8_valid s \<Longrightarrow> json_unquote (concat (map js_escape s) @ quote # r) = Some (s, r)"
proof (induction s rule: utf8_valid.induct)
  case (1 s)
  show ?case
  proof (cases "s = []")
    case True
    then show ?thesis by (simp add: json_unquote_end)
  next
    case nonempty: False
    then obtain n where n: "rune_size s = Some n" using 1(2) utf8_valid_invalid by (cases "rune_size s") auto
    let ?r = "take n s" and ?d = "drop n s"
    have "utf8_valid ?d" using 1(2) utf8_valid_rune [OF n] by simp
    then have IH: "json_unquote (concat (map js_escape ?d) @ quote # r) = Some (?d, r)" using 1(1) nonempty n by simp
    have "unquote_step (concat (map js_escape ?r) @ t) = Some (?r, t) \<and> hd (concat (map js_escape ?r) @ t) \<noteq> quote" for t
    proof (cases "byte (hd s) < 0x80")
      case True
      then have "n = 1" using n nonempty by (cases s) (auto simp: rune_tail_def)
      then have "?r = [hd s]" using nonempty by (cases s) auto
      then show ?thesis using js_escape_step [OF True, of t] by simp
    next
      case False
      then show ?thesis using js_escape_high [OF rune_bytes [OF n False]] unquote_rune [OF n False] by simp
    qed
    then have "json_unquote (concat (map js_escape ?r) @ concat (map js_escape ?d) @ quote # r)
        = map_option (\<lambda>(ds, r'). (?r @ ds, r')) (json_unquote (concat (map js_escape ?d) @ quote # r))"
      by (intro json_unquote_step) blast+
    moreover have "concat (map js_escape s) = concat (map js_escape ?r) @ concat (map js_escape ?d)"
      by (metis append_take_drop_id concat_append map_append)
    ultimately show ?thesis using IH by simp
  qed
qed

lemma decode_submit_text:
  assumes "utf8_valid u" and "length (submit_text u) \<le> max_body"
  shows "decode_submit (submit_text u) = Inr \<lparr>req_URL = u, req_IdempotencyKey = '''', req_CallbackURL = ''''\<rparr>"
proof -
  let ?v = "JStr (concat (map js_escape u)) u"
  have v: "reads_deep 0 (js_string u) ?v" unfolding js_string_def by (intro text_reads_deep js_string_reads assms(1))
  have "reads_deep (Suc 0) (json_object (map (\<lambda>(k, vt, v). (k, vt)) [(''url'', js_string u, ?v)]))
      (JObj (map (\<lambda>(k, vt, v). (k, v)) [(''url'', js_string u, ?v)]))"
    by (rule object_reads_deep) (simp_all add: members_deep_def v submit_names)
  then have "reads_deep (Suc 0) (submit_text u) (JObj [(''url'', ?v)])" by (simp add: submit_text_def)
  then have "json_decode (submit_text u) = Some (JObj [(''url'', ?v)], [])"
    by (rule deep_decode(1)) (simp add: max_nesting_def)
  then show ?thesis using assms(2)
    by (simp add: decode_submit_def submit_member_def set_submit_text_def submit_names empty_submit_def
        del: equal_fold.simps)
qed

lemma accepted_body_reads:
  assumes "utf8_valid i"
  shows "\<exists>job. json_unmarshal (json_object (submit_fields i (''/pdf/'' @ i) False) @ [CHR 0x0A]) = Some job
    \<and> get_field job ''job_id'' = Some (Some (JStr (json_escape i) i))"
proof -
  have "utf8_valid ''/pdf/''" by code_simp
  then have u: "utf8_valid (''/pdf/'' @ i)" by (rule utf8_valid_append [OF _ assms])
  let ?ms = "[(''job_id'', json_string i, JStr (json_escape i) i),
    (''status_url'', json_string (''/pdf/'' @ i), JStr (json_escape (''/pdf/'' @ i)) (''/pdf/'' @ i))]"
  have "json_decode (json_object (map (\<lambda>(k, vt, v). (k, vt)) ?ms) @ [CHR 0x0A])
      = Some (JObj (map (\<lambda>(k, vt, v). (k, v)) ?ms), [CHR 0x0A])"
    using assms u by (intro json_object_decode) (simp_all add: text_member_ok names_utf8)
  then show ?thesis
    by (simp add: json_unmarshal_def submit_fields_def text_field_def skip_ws_def is_ws_def)
qed

text \<open>C7: From the form to the queue: a valid URL in the form of an idle page, submitted while the queue
  has room, is posted as JSON, decoded by the service as that URL and queued; when the answer
  arrives the page names the new job's id, empties the field and takes the next submission.\<close>

theorem dashboard_submits:
  fixes E :: "(mem_storage, mem_queue, mem_blobs) env"
  assumes mem: "e_store E = mem_store_ops" "e_queue E = mem_queue_ops"
    and opts: "\<not> RequireIdempotencyKey (e_options E)" "trim_space (DefaultWebhookURL (e_options E)) = ''''"
    and wf: "ms_wf (a_store a)" "mq_wf (a_queue a)" and room: "queue_has_room (a_queue a)"
    and t: "e_now E \<noteq> 0" "e_set_now E \<noteq> 0"
    and new: "ms_view (a_store a) (e_job_id E) = None" "e_job_id E \<noteq> ''''" "list_all uuid_char (e_job_id E)"
    and url: "utf8_valid (pg_url p)" "validateURL (trim_space (pg_url p)) = None"
    and press: "page_step B Submitted_form p = Some p1"
    and post: "hr_method r = ''POST''" "hr_uri r = ''/pdf''" "trim_space (header_get r ''Idempotency-Key'') = ''''"
      "hr_text r = submit_text (pg_url p)" "length (hr_text r) \<le> max_body"
    and run: "serve E r a = Some (cs, r', a1)"
  shows "mq_pending (a_queue a1) = mq_pending (a_queue a)
        @ [submitted_job (e_job_id E) (trim_space (pg_url p)) '''' '''' (request_id (e_request_id E) r)]
    \<and> (\<exists>p2. page_step B (Fetched (Response (sent_status cs) (sent_body cs))) p1 = Some p2
        \<and> pg_notice p2 = ''Queued '' @ e_job_id E \<and> pg_url p2 = '''' \<and> \<not> pg_disabled p2 \<and> pg_jobs p2 = pg_jobs p)"
proof -
  define q where "q = r\<lparr>hr_method := ''GET'', hr_uri := ''/pdf/'' @ e_job_id E\<rparr>"
  have q: "hr_method q = ''GET''" "hr_uri q = ''/pdf/'' @ e_job_id E" by (simp_all add: q_def)
  obtain cs2 a2 where ask: "serve E q a1 = Some (cs2, q, a2)"
    using serve_answers [of q _ _ _ E a1] job_link_found [OF q(2) new(2,3)] q by fastforce
  have body: "decode_submit (hr_text r) = Inr \<lparr>req_URL = pg_url p, req_IdempotencyKey = '''', req_CallbackURL = ''''\<rparr>"
    using decode_submit_text [OF url(1)] post(4,5) by simp
  note sent = post_then_get [OF mem mem(1) opts wf room t url(2) post(1-3) body new run q ask]
  obtain job where job: "json_unmarshal (sent_body cs) = Some job"
    "get_field job ''job_id'' = Some (Some (JStr (json_escape (e_job_id E)) (e_job_id E)))"
    using accepted_body_reads [OF uuid_utf8 [OF new(3)]] sent by metis
  have "submit_outcome B (Response (sent_status cs) (sent_body cs)) = (''Queued '' @ e_job_id E, True)"
    using sent job by (simp add: submit_outcome_def)
  moreover have "p1 = p\<lparr>pg_disabled := True, pg_notice := ''Submitting job'' @ ellipsis\<rparr>"
    using press by (auto split: if_splits)
  ultimately show ?thesis using sent by simp
qed


definition demo_browser :: browser where
  "demo_browser = \<lparr>br_zero = (\<lambda>t. t = ''0''), br_text = (\<lambda>_. ''[object Object]''),
     br_date = (\<lambda>v. case v of JStr l s \<Rightarrow> Some s | _ \<Rightarrow> None), br_type_error = ''TypeError'',
     br_syntax_error = (\<lambda>_. ''SyntaxError'')\<rparr>"

lemma demo_page_live:
  "\<exists>p. page_run demo_browser [SocketOpened 0, SocketMessage 0 data] loaded_page = Some p \<and> pg_status p = ''Live''
     \<and> pg_jobs p = on_message demo_browser data no_jobs \<and> map_of (pg_sockets p) 0 = Some SocketLive"
  by (simp add: loaded_page_def connect_def)

theorem dashboard_never_injects_witness:
  "\<exists>p. page_run demo_browser [SocketOpened 0, SocketMessage 0 ''[]''] loaded_page = Some p
     \<and> pg_status p = ''Live'' \<and> list_all safe_node (pg_jobs p)"
  using demo_page_live [of "''[]''"] dashboard_never_injects by blast

theorem dashboard_reconnects_witness:
  "\<exists>p. page_run demo_browser [SocketOpened 0, SocketError 0] loaded_page = Some p
     \<and> length (pg_sockets p) + pg_timers p = 1
     \<and> (\<exists>fs q i. list_all is_network fs \<and> length fs \<le> 3 \<and> page_run demo_browser fs p = Some q
          \<and> pg_sockets q = [(i, SocketLive)] \<and> pg_status q = ''Live'' \<and> pg_jobs q = pg_jobs p)"
proof -
  obtain p where "page_run demo_browser [SocketOpened 0, SocketError 0] loaded_page = Some p"
    by (simp add: loaded_page_def connect_def)
  then show ?thesis using dashboard_reconnects by blast
qed

theorem dashboard_shows_last_list_witness:
  "\<exists>h cl p q. hub_trace hub_text NewHub demo_events h \<and> map_of h 1 = Some cl
     \<and> page_run demo_browser [SocketOpened 0, SocketMessage 0 ''[]''] loaded_page = Some p
     \<and> page_run demo_browser (map (SocketMessage 0) (written cl)) p = Some q
     \<and> concat (map shown_texts (pg_jobs q)) = concat (map (job_texts format_time) demo_listed)
     \<and> concat (map links (pg_jobs q)) = concat (map job_links demo_listed)"
proof -
  obtain h m where tr: "hub_trace hub_text NewHub demo_events h"
    and cl: "map_of h 1 = Some \<lparr>phase = Looping, send = [], written = [m]\<rparr>" using demo_trace by blast
  obtain p where p: "page_run demo_browser [SocketOpened 0, SocketMessage 0 ''[]''] loaded_page = Some p"
    "map_of (pg_sockets p) 0 = Some SocketLive" using demo_page_live [of "''[]''"] by blast
  have dates: "prints_dates demo_browser format_time" by (simp add: prints_dates_def demo_browser_def)
  have l: "listed demo_events = {demo_listed}" by (simp add: listed_def)
  have "demo_listed \<noteq> []" by (simp add: demo_listed_def)
  with dashboard_shows_last_list [OF tr cl, of "[]" m demo_browser format_time p 0] dates p(2) obtain q where
    "page_run demo_browser (map (SocketMessage 0) [m]) p = Some q"
    "concat (map shown_texts (pg_jobs q)) = concat (map (job_texts format_time) demo_listed)"
    "concat (map links (pg_jobs q)) = concat (map job_links demo_listed)"
    unfolding l by (auto simp del: page_run.simps)
  then show ?thesis using tr cl p(1)
    by (intro exI [of _ h] exI [of _ "\<lparr>phase = Looping, send = [], written = [m]\<rparr>"] exI [of _ p] exI [of _ q]) simp
qed

theorem dashboard_submits_witness:
  "\<exists>p1 cs r a1 p2.
     page_step demo_browser Submitted_form (loaded_page\<lparr>pg_url := ''http://e/p''\<rparr>) = Some p1
     \<and> serve demo_server (demo_http ''POST'' ''/pdf'' (submit_text ''http://e/p'')) demo_state = Some (cs, r, a1)
     \<and> page_step demo_browser (Fetched (Response (sent_status cs) (sent_body cs))) p1 = Some p2
     \<and> pg_notice p2 = ''Queued 1f-2'' \<and> \<not> pg_disabled p2"
proof -
  let ?p = "loaded_page\<lparr>pg_url := ''http://e/p''\<rparr>" and ?r = "demo_http ''POST'' ''/pdf'' (submit_text ''http://e/p'')"
  obtain p1 where press: "page_step demo_browser Submitted_form ?p = Some p1"
    by (simp add: loaded_page_def connect_def)
  have "mux_find routes (hr_method ?r) (escaped_path ?r) = Found ''POST /pdf'' RSubmit []" by code_simp
  then obtain cs a1 where run: "serve demo_server ?r demo_state = Some (cs, ?r, a1)"
    using serve_answers [of ?r _ _ _ demo_server demo_state] by (auto simp: demo_http_def)
  have url: "utf8_valid (pg_url ?p)" "validateURL (trim_space (pg_url ?p)) = None"
  proof -
    have "utf8_valid ''http://e/p''" "validateURL (trim_space ''http://e/p'') = None" by code_simp+
    then show "utf8_valid (pg_url ?p)" "validateURL (trim_space (pg_url ?p)) = None" by simp_all
  qed
  have len: "length (hr_text ?r) \<le> max_body"
  proof -
    have "length (hr_text ?r) = 20" by code_simp
    then show ?thesis by (simp add: max_body_def)
  qed
  have state: "ms_wf (a_store demo_state)" "mq_wf (a_queue demo_state)" "queue_has_room (a_queue demo_state)"
    "ms_view (a_store demo_state) (e_job_id demo_server) = None"
    by (simp_all add: demo_state_def demo_server_def mq_wf_def queue_has_room_def ms_view_def NewMemoryStorage_def
        ms_wf_def gm_wf_def)
  have id: "e_job_id demo_server = ''1f-2''" "list_all uuid_char (e_job_id demo_server)" by code_simp+
  have header: "trim_space (header_get ?r ''Idempotency-Key'') = ''''" by code_simp
  have posted: "hr_text ?r = submit_text (pg_url ?p)" by (simp add: demo_http_def)
  note all = dashboard_submits [OF _ _ _ _ state(1-3) _ _ state(4) _ id(2) url press _ _ header posted len run]
  have "\<exists>p2. page_step demo_browser (Fetched (Response (sent_status cs) (sent_body cs))) p1 = Some p2
      \<and> pg_notice p2 = ''Queued 1f-2'' \<and> \<not> pg_disabled p2"
    using all by (auto simp: id demo_server_def demo_http_def simp del: page_step.simps)
  then show ?thesis using press run by blast
qed

end
