(* ===== verification/S3_Store.thy ===== *)
theory S3_Store
  imports Blob_Store Go_Url Go_Time Go_Sha256
begin

text \<open>
  The S3 blob store (\<open>internal/blob/s3.go\<close>): requests signed with AWS Signature Version 4 over an HTTP
  client that is a parameter. A request carries what reaches the wire: method, host, escaped path,
  headers, body. The text of a URL parse error is not modelled.
\<close>

section \<open>Requests\<close>

record s3_request =
  rq_method :: string
  rq_host :: string
  rq_path :: string
  rq_headers :: "(string, string) gomap"
  rq_body :: bytes

record http_reply =
  rp_status :: int
  rp_body :: bytes
  rp_error :: "go_error option"

record 'w s3_env =
  s3_http :: "s3_request \<Rightarrow> 'w \<Rightarrow> 'w \<times> http_reply result"
  s3_clock :: "'w \<Rightarrow> 'w \<times> time"

text \<open>The path of a URL text as it was written: what \<open>setPath\<close> gets.\<close>

definition url_raw_path :: "string \<Rightarrow> string" where
  "url_raw_path raw =
     (let u = fst (cut raw (CHR ''#''))
      in case get_scheme u [] u of
           None \<Rightarrow> ''''
         | Some (scheme, rest) \<Rightarrow>
             let p = fst (split_query rest)
             in if has_prefix p ''//'' then dropWhile (\<lambda>c. c \<noteq> CHR ''/'') (drop 2 p) else p)"

definition NewRequest :: "string \<Rightarrow> string \<Rightarrow> bytes \<Rightarrow> s3_request result" where
  "NewRequest meth u data =
     (case Parse u of
        None \<Rightarrow> Inl (ErrNew ''invalid URL'')
      | Some url \<Rightarrow>
          Inr \<lparr>rq_method = meth, rq_host = trim_suffix (Host url) '':'',
               rq_path = EscapedPath (url_raw_path u) (Path url), rq_headers = [], rq_body = data\<rparr>)"

section \<open>The store\<close>

record S3Config =
  Endpoint :: string
  AccessKeyID :: string
  SecretAccessKey :: string
  Bucket :: string
  Region :: string
  UseSSL :: bool

record s3_store =
  endpoint :: string
  accessKeyID :: string
  secretAccessKey :: string
  bucket :: string
  region :: string
  scheme :: string

definition s3_of_config :: "S3Config \<Rightarrow> s3_store" where
  "s3_of_config cfg =
     \<lparr>endpoint = trim_prefix (trim_prefix (Endpoint cfg) ''https://'') ''http://'',
      accessKeyID = AccessKeyID cfg, secretAccessKey = SecretAccessKey cfg, bucket = Bucket cfg,
      region = (if Region cfg = '''' then ''us-east-1'' else Region cfg),
      scheme = (if UseSSL cfg then ''https'' else ''http'')\<rparr>"

text \<open>\<open>Format("20060102")\<close> and \<open>Format("20060102T150405Z")\<close>.\<close>

definition date_stamp :: "time \<Rightarrow> string" where
  "date_stamp t =
     (case date_of_days (t div day_ns) of (y, m, d) \<Rightarrow>
        (if y < 0 then CHR ''-'' # zero_pad 4 (nat (- y)) else zero_pad 4 (nat y))
          @ digits 2 (nat m) @ digits 2 (nat d))"

definition amz_date :: "time \<Rightarrow> string" where
  "amz_date t =
     (let sec = nat (t mod day_ns div second)
      in date_stamp t @ ''T'' @ digits 2 (sec div 3600) @ digits 2 (sec div 60 mod 60)
           @ digits 2 (sec mod 60) @ ''Z'')"

definition hmacSHA256 :: "bytes \<Rightarrow> string \<Rightarrow> bytes" where
  "hmacSHA256 key data = hmac_sha256 key (string_bytes data)"

definition awsSigningKey :: "string \<Rightarrow> string \<Rightarrow> string \<Rightarrow> string \<Rightarrow> bytes" where
  "awsSigningKey secret date reg service =
     (let kDate = hmacSHA256 (string_bytes (''AWS4'' @ secret)) date;
          kRegion = hmacSHA256 kDate reg;
          kService = hmacSHA256 kRegion service
      in hmacSHA256 kService ''aws4_request'')"

abbreviation nl :: string where "nl \<equiv> [CHR 0x0A]"

definition signed_headers :: string where
  "signed_headers = ''host;x-amz-content-sha256;x-amz-date''"

definition sign :: "s3_store \<Rightarrow> time \<Rightarrow> s3_request \<Rightarrow> s3_request" where
  "sign S now req =
     (let amzDate = amz_date now;
          dateStamp = date_stamp now;
          payloadHash = hex_encode (sha256 (rq_body req));
          h1 = gm_put ''X-Amz-Content-Sha256'' payloadHash
                 (gm_put ''X-Amz-Date'' amzDate (gm_put ''Host'' (rq_host req) (rq_headers req)));
          canonicalHeaders = ''host:'' @ rq_host req @ nl @ ''x-amz-content-sha256:'' @ payloadHash @ nl
                               @ ''x-amz-date:'' @ amzDate @ nl;
          canonicalRequest = join_with nl [rq_method req, rq_path req, '''', canonicalHeaders,
                                           signed_headers, payloadHash];
          credentialScope = dateStamp @ ''/'' @ region S @ ''/s3/aws4_request'';
          canonicalHash = sha256 (string_bytes canonicalRequest);
          stringToSign = join_with nl [''AWS4-HMAC-SHA256'', amzDate, credentialScope, hex_encode canonicalHash];
          signingKey = awsSigningKey (secretAccessKey S) dateStamp (region S) ''s3'';
          signature = hex_encode (hmac_sha256 signingKey (string_bytes stringToSign))
      in req\<lparr>rq_headers := gm_put ''Authorization''
           (''AWS4-HMAC-SHA256 Credential='' @ accessKeyID S @ ''/'' @ credentialScope
              @ '', SignedHeaders='' @ signed_headers @ '', Signature='' @ signature) h1\<rparr>)"

definition pathEscapeObject :: "string \<Rightarrow> string" where
  "pathEscapeObject key = join_with ''/'' (map path_escape (split_on (CHR ''/'') key))"

definition bucket_url :: "s3_store \<Rightarrow> string" where
  "bucket_url S = scheme S @ ''://'' @ endpoint S @ ''/'' @ bucket S"

definition object_url :: "s3_store \<Rightarrow> string \<Rightarrow> string" where
  "object_url S key = bucket_url S @ ''/'' @ pathEscapeObject (dropWhile (\<lambda>c. c = CHR ''/'') key)"

text \<open>\<open>NewRequest\<close>, then \<open>sign\<close> with the clock's time.\<close>

definition signed_request ::
    "'w s3_env \<Rightarrow> s3_store \<Rightarrow> string \<Rightarrow> string \<Rightarrow> bytes \<Rightarrow> 'w \<Rightarrow> 'w \<times> s3_request result" where
  "signed_request E S meth u data w =
     (case NewRequest meth u data of
        Inl e \<Rightarrow> (w, Inl e)
      | Inr req \<Rightarrow> (case s3_clock E w of (w', now) \<Rightarrow> (w', Inr (sign S now req))))"

text \<open>The text of an error answer: its first 4096 bytes without the blanks around them.\<close>

definition error_body :: "http_reply \<Rightarrow> string" where
  "error_body rp = trim_space (bytes_string (take 4096 (rp_body rp)))"

definition status_failure :: "string \<Rightarrow> http_reply \<Rightarrow> go_error" where
  "status_failure what rp = ErrNew (what @ '': status '' @ itoa (rp_status rp) @ '': '' @ error_body rp)"

definition ensureBucket :: "'w s3_env \<Rightarrow> s3_store \<Rightarrow> 'w \<Rightarrow> 'w \<times> go_error option" where
  "ensureBucket E S w =
     (case signed_request E S ''HEAD'' (bucket_url S) [] w of
        (w1, Inl e) \<Rightarrow> (w1, Some e)
      | (w1, Inr req) \<Rightarrow>
          (case s3_http E req w1 of
             (w2, Inl e) \<Rightarrow> (w2, Some (ErrWrap ''check bucket'' e))
           | (w2, Inr rp) \<Rightarrow>
               if rp_status rp = 200 then (w2, None)
               else if rp_status rp \<noteq> 404
               then (w2, Some (ErrNew (''check bucket: status '' @ itoa (rp_status rp))))
               else (case signed_request E S ''PUT'' (bucket_url S) [] w2 of
                       (w3, Inl e) \<Rightarrow> (w3, Some e)
                     | (w3, Inr req') \<Rightarrow>
                         (case s3_http E req' w3 of
                            (w4, Inl e) \<Rightarrow> (w4, Some (ErrWrap ''create bucket'' e))
                          | (w4, Inr rp') \<Rightarrow>
                              if rp_status rp' \<noteq> 200 then (w4, Some (status_failure ''create bucket'' rp'))
                              else (w4, None)))))"

definition NewS3Store :: "'w s3_env \<Rightarrow> S3Config \<Rightarrow> 'w \<Rightarrow> 'w \<times> s3_store result" where
  "NewS3Store E cfg w =
     (case ensureBucket E (s3_of_config cfg) w of
        (w', Some e) \<Rightarrow> (w', Inl e)
      | (w', None) \<Rightarrow> (w', Inr (s3_of_config cfg)))"

definition doNoBody :: "'w s3_env \<Rightarrow> s3_request \<Rightarrow> int \<Rightarrow> 'w \<Rightarrow> 'w \<times> go_error option" where
  "doNoBody E req ok w =
     (case s3_http E req w of
        (w', Inl e) \<Rightarrow> (w', Some (ErrWrap ''object request'' e))
      | (w', Inr rp) \<Rightarrow>
          if rp_status rp \<noteq> ok \<and> rp_status rp \<noteq> 200 \<and> rp_status rp \<noteq> 204
          then (w', Some (status_failure ''object request'' rp))
          else (w', None))"

definition s3_Put :: "'w s3_env \<Rightarrow> s3_store \<Rightarrow> string \<Rightarrow> bytes \<Rightarrow> 'w \<Rightarrow> 'w \<times> go_error option" where
  "s3_Put E S key data w =
     (case signed_request E S ''PUT'' (object_url S key) data w of
        (w1, Inl e) \<Rightarrow> (w1, Some e)
      | (w1, Inr req) \<Rightarrow>
          doNoBody E (req\<lparr>rq_headers := gm_put ''Content-Type'' ''application/pdf'' (rq_headers req)\<rparr>) 200 w1)"

definition s3_Get :: "'w s3_env \<Rightarrow> s3_store \<Rightarrow> string \<Rightarrow> 'w \<Rightarrow> 'w \<times> bytes result" where
  "s3_Get E S key w =
     (case signed_request E S ''GET'' (object_url S key) [] w of
        (w1, Inl e) \<Rightarrow> (w1, Inl e)
      | (w1, Inr req) \<Rightarrow>
          (case s3_http E req w1 of
             (w2, Inl e) \<Rightarrow> (w2, Inl (ErrWrap ''get object'' e))
           | (w2, Inr rp) \<Rightarrow>
               if rp_status rp \<noteq> 200 then (w2, Inl (status_failure ''get object'' rp))
               else (case rp_error rp of
                       Some e \<Rightarrow> (w2, Inl (ErrWrap ''read object'' e))
                     | None \<Rightarrow> (w2, Inr (rp_body rp)))))"

definition s3_Delete :: "'w s3_env \<Rightarrow> s3_store \<Rightarrow> string \<Rightarrow> 'w \<Rightarrow> 'w \<times> go_error option" where
  "s3_Delete E S key w =
     (case signed_request E S ''DELETE'' (object_url S key) [] w of
        (w1, Inl e) \<Rightarrow> (w1, Some e)
      | (w1, Inr req) \<Rightarrow> doNoBody E req 204 w1)"

definition s3_blob_ops :: "'w s3_env \<Rightarrow> s3_store \<Rightarrow> 'w blob_ops" where
  "s3_blob_ops E S = \<lparr>b_Put = s3_Put E S, b_Get = s3_Get E S, b_Delete = s3_Delete E S\<rparr>"

end
