(* ===== verification/S3_Properties.thy ===== *)
theory S3_Properties
  imports S3_Store
begin

text \<open>
  What the S3 store puts on the wire: the URL of an object names exactly that object, the signature is
  the one the AWS documentation prescribes, and on a server that accepts such requests the store
  keeps the contract \<open>blob_store\<close>.
\<close>

section \<open>Object paths\<close>

lemma unescape_path_modes: "unescape EncodePath s = unescape EncodePathSegment s"
  by (induction "EncodePath" s rule: unescape.induct) (auto split: list.splits)

definition object_char :: "char \<Rightarrow> string" where
  "object_char c = (if c = CHR ''/'' then [c] else escape_char EncodePathSegment c)"

lemma pathEscapeObject_flat: "pathEscapeObject key = concat (map object_char key)"
proof (induction key)
  case Nil
  then show ?case by (simp add: pathEscapeObject_def path_escape_def escape_def)
next
  case (Cons c key)
  obtain p ps where p: "split_on (CHR ''/'') key = p # ps" by (metis list.exhaust split_on_nonempty)
  have "join_with ''/'' (map path_escape (p # ps)) = concat (map object_char key)"
    using Cons p by (simp add: pathEscapeObject_def)
  moreover have "object_char (CHR ''/'') = ''/''" by (simp add: object_char_def)
  ultimately show ?case using p
    by (cases "c = CHR ''/''"; cases ps)
      (simp_all add: pathEscapeObject_def path_escape_def escape_def object_char_def [of c])
qed

lemma unescape_slash: "unescape EncodePath (CHR ''/'' # s) = map_option ((#) (CHR ''/'')) (unescape EncodePath s)"
  by simp

lemma unescape_object: "unescape EncodePath (concat (map object_char key) @ s)
    = map_option ((@) key) (unescape EncodePath s)"
proof (induction key)
  case (Cons c key)
  have "unescape EncodePath (object_char c @ t) = map_option ((#) c) (unescape EncodePath t)" for t
    using unescape_escape_char [of EncodePathSegment c t]
    by (simp add: object_char_def unescape_path_modes)
  then show ?case using Cons by (simp add: option.map_comp comp_def)
qed (simp add: option.map_ident)

text \<open>The characters of an escaped path.\<close>

definition path_char :: "char \<Rightarrow> bool" where
  "path_char c \<longleftrightarrow> is_alnum c \<or> c \<in> set ''-_.~$&+:=@/%''"

lemma hex_digit_alnum: "d < 16 \<Longrightarrow> is_alnum (hex_digit d)"
proof -
  assume "d < 16"
  moreover have "\<forall>d \<in> set [0..<16]. is_alnum (hex_digit d)" by code_simp
  ultimately show ?thesis by simp
qed

lemma object_char_chars: "x \<in> set (object_char c) \<Longrightarrow> path_char x"
proof -
  have b: "(of_char c :: nat) < 256" using of_char_mod_256 [of c] by (metis mod_less_divisor zero_less_numeral)
  have "is_alnum (hex_digit (of_char c div 16))" "is_alnum (hex_digit (of_char c mod 16))"
    using b by (auto intro!: hex_digit_alnum simp: div_less_iff_less_mult)
  moreover have "is_alnum c \<or> c \<in> set ''-_.~$&+:=@''" if "\<not> should_escape c EncodePathSegment"
    using that by (auto simp: should_escape_def split: if_splits)
  moreover assume "x \<in> set (object_char c)"
  ultimately show ?thesis by (auto simp: object_char_def escape_char_def path_char_def split: if_splits)
qed

lemma escaped_chars: "\<forall>c \<in> set (pathEscapeObject key). path_char c"
  using object_char_chars by (auto simp: pathEscapeObject_flat)

lemma path_char_facts:
  assumes "path_char c"
  shows "c \<noteq> CHR ''#''" "c \<noteq> CHR ''?''" "\<not> c < CHR '' ''" "c \<noteq> char_of (0x7F :: nat)"
    "c \<in> set ''!$&()*+,;=:@[]%'' \<or> c = CHR 0x27 \<or> \<not> should_escape c EncodePath"
proof -
  have del: "(char_of (0x7F :: nat) :: char) = CHR 0x7F" by code_simp
  show "c \<noteq> CHR ''#''" "c \<noteq> CHR ''?''" "\<not> c < CHR '' ''" "c \<noteq> char_of (0x7F :: nat)"
    using assms by (auto simp: path_char_def is_alnum_def is_upper_def is_lower_def is_digit_def less_eq_char_def
        less_char_def del)
  show "c \<in> set ''!$&()*+,;=:@[]%'' \<or> c = CHR 0x27 \<or> \<not> should_escape c EncodePath"
    using assms by (auto simp: path_char_def should_escape_def)
qed

section \<open>The URL of an object\<close>

definition host_char :: "char \<Rightarrow> bool" where
  "host_char c \<longleftrightarrow> is_alnum c \<or> c \<in> set ''-._''"

text \<open>A scheme as the store sets it, an endpoint \<open>host\<close> or \<open>host:port\<close>, a bucket name.\<close>

definition endpoint_ok :: "string \<Rightarrow> bool" where
  "endpoint_ok e \<longleftrightarrow>
     (let h = takeWhile (\<lambda>c. c \<noteq> CHR '':'') e; p = dropWhile (\<lambda>c. c \<noteq> CHR '':'') e
      in h \<noteq> [] \<and> list_all host_char h
         \<and> (p = [] \<or> tl p \<noteq> [] \<and> list_all is_digit (tl p)))"

definition s3_ok :: "s3_store \<Rightarrow> bool" where
  "s3_ok S \<longleftrightarrow> (scheme S = ''http'' \<or> scheme S = ''https'') \<and> endpoint_ok (endpoint S)
     \<and> bucket S \<noteq> [] \<and> list_all host_char (bucket S)"

lemma host_char_facts:
  assumes "host_char c"
  shows "path_char c" "c \<noteq> CHR '':''" "c \<noteq> CHR ''/''" "c \<noteq> CHR ''@''" "c \<noteq> CHR ''[''" "c \<noteq> CHR ''%''"
    "\<not> should_escape c EncodeHost"
  using assms by (auto simp: host_char_def path_char_def is_alnum_def is_upper_def is_lower_def is_digit_def
      less_eq_char_def should_escape_def)

lemma digit_host: "is_digit c \<Longrightarrow> host_char c"
  by (simp add: host_char_def is_alnum_def)

lemma parse_endpoint:
  assumes "endpoint_ok e"
  shows "parse_authority e = Some (None, e)" "\<forall>c \<in> set e. path_char c \<and> c \<noteq> CHR ''/''"
    "\<not> has_suffix e '':''"
proof -
  let ?h = "takeWhile (\<lambda>c. c \<noteq> CHR '':'') e" and ?p = "dropWhile (\<lambda>c. c \<noteq> CHR '':'') e"
  have h: "?h \<noteq> []" "list_all host_char ?h" and p: "?p = [] \<or> tl ?p \<noteq> [] \<and> list_all is_digit (tl ?p)"
    using assms by (auto simp: endpoint_ok_def Let_def)
  have hc: "\<forall>c \<in> set ?h. host_char c" using h(2) by (simp only: list_all_iff)
  have e: "e = ?h @ ?p" by simp
  consider "?p = []" | ds where "?p = CHR '':'' # ds" "ds \<noteq> []" "list_all is_digit ds"
    using p hd_dropWhile [of "\<lambda>c. c \<noteq> CHR '':''" e] by (cases ?p) auto
  then have "\<exists>ds. (e = ?h \<and> ds = [] \<or> e = ?h @ CHR '':'' # ds \<and> ds \<noteq> []) \<and> (\<forall>c \<in> set ds. is_digit c)"
  proof cases
    case 1
    then have "e = ?h" by (metis append_Nil2 takeWhile_dropWhile_id)
    then show ?thesis by (intro exI [of _ "[]"]) simp
  next
    case (2 ds)
    then have "e = ?h @ CHR '':'' # ds" using e by simp
    then show ?thesis using 2 by (intro exI [of _ ds]) (simp add: list_all_iff)
  qed
  then obtain ds where ds: "e = ?h \<and> ds = [] \<or> e = ?h @ CHR '':'' # ds \<and> ds \<noteq> []" "\<forall>c \<in> set ds. is_digit c"
    by blast
  define h where "h = ?h"
  have H: "h \<noteq> []" "\<forall>c \<in> set h. host_char c" using h(1) hc by (simp_all add: h_def)
  have E: "e = h \<or> e = h @ CHR '':'' # ds \<and> ds \<noteq> []" using ds(1) unfolding h_def [symmetric] by blast
  have chars: "\<forall>c \<in> set e. host_char c \<or> c = CHR '':''"
    using E H(2) ds(2) digit_host by auto
  have colon: "path_char (CHR '':'')" "\<not> should_escape (CHR '':'') EncodeHost" by code_simp+
  show "\<forall>c \<in> set e. path_char c \<and> c \<noteq> CHR ''/''" using chars host_char_facts colon by fastforce
  have esc: "unescape EncodeHost e = Some e" using chars
  proof (induction e)
    case (Cons c e)
    then have "c \<noteq> CHR ''%''" "\<not> should_escape c EncodeHost" using host_char_facts colon by fastforce+
    then show ?case using Cons by simp
  qed simp
  have "hd e \<noteq> CHR ''[''" using E H host_char_facts(5) by (cases h) auto
  then have br: "\<not> has_prefix e ''[''" using E H by (cases h) (auto simp: has_prefix_def)
  have "CHR '':'' \<notin> set h" "CHR '':'' \<notin> set ds" using H(2) ds(2) digit_host host_char_facts(2) by blast+
  then have "takeWhile (\<lambda>x. x \<noteq> CHR '':'') (rev ds @ CHR '':'' # rev h) = rev ds"
    by (subst takeWhile_append2) auto
  then have "CHR '':'' \<notin> set e \<or> snd (cut_last e (CHR '':'')) = ds"
    using E \<open>CHR '':'' \<notin> set h\<close> by (auto simp: cut_last_def)
  then have "\<not> (CHR '':'' \<in> set e \<and> \<not> valid_optional_port (CHR '':'' # snd (cut_last e (CHR '':''))))"
    using ds(2) by (auto simp: valid_optional_port_def list_all_iff)
  then have "parse_host e = Some e" using br esc by (simp add: parse_host_def)
  moreover have "CHR ''@'' \<notin> set e" using chars host_char_facts(4) by fastforce
  ultimately show "parse_authority e = Some (None, e)" by (simp add: parse_authority_def)
  have "last e \<noteq> CHR '':''" using E H ds(2) digit_host host_char_facts(2) by (metis last_in_set last_ConsR last_appendR list.distinct(1))
  then show "\<not> has_suffix e '':''" using E H by (cases e rule: rev_cases) (auto simp: has_suffix_def has_prefix_def)
qed

lemma path_text_facts:
  assumes "\<forall>c \<in> set s. path_char c"
  shows "cut s (CHR ''#'') = (s, [], False)" "split_query s = (s, [])" "\<not> has_ctl_byte s" "valid_encoded s"
proof -
  have "takeWhile (\<lambda>x. x \<noteq> CHR ''#'') s = s" "takeWhile (\<lambda>x. x \<noteq> CHR ''?'') s = s"
    "dropWhile (\<lambda>x. x \<noteq> CHR ''#'') s = []" "dropWhile (\<lambda>x. x \<noteq> CHR ''?'') s = []"
    "CHR ''#'' \<notin> set s" "CHR ''?'' \<notin> set s"
    using assms path_char_facts(1,2) by (auto simp: takeWhile_eq_all_conv dropWhile_eq_Nil_conv)
  then show "cut s (CHR ''#'') = (s, [], False)" "split_query s = (s, [])"
    by (simp_all only: cut_def split_query_def list.sel simp_thms prod.case)
  show "\<not> has_ctl_byte s" using assms path_char_facts(3,4) by (auto simp: has_ctl_byte_def list_ex_iff)
  show "valid_encoded s" using assms path_char_facts(5) unfolding valid_encoded_def list_all_iff by blast
qed

lemma get_scheme_letters:
  "list_all is_lower s \<Longrightarrow> rev acc @ s \<noteq> [] \<Longrightarrow> get_scheme raw acc (s @ CHR '':'' # r) = Some (rev acc @ s, r)"
proof (induction s arbitrary: acc)
  case Nil
  have "\<not> is_upper (CHR '':'')" "\<not> is_lower (CHR '':'')" "\<not> is_digit (CHR '':'')" by code_simp+
  then show ?case using Nil by simp
next
  case (Cons c s)
  then show ?case using Cons.IH [of "c # acc"] by simp
qed

lemma scheme_text:
  assumes "sch = ''http'' \<or> sch = ''https''"
  shows "get_scheme raw [] (sch @ CHR '':'' # r) = Some (sch, r)" "map lower_char sch = sch"
    "\<forall>c \<in> set sch. path_char c" "sch \<noteq> []"
proof -
  have l: "list_all is_lower ''http'' \<and> map lower_char ''http'' = ''http'' \<and> list_all path_char ''http'' \<and> ''http'' \<noteq> []"
    "list_all is_lower ''https'' \<and> map lower_char ''https'' = ''https'' \<and> list_all path_char ''https'' \<and> ''https'' \<noteq> []"
    by code_simp+
  have "list_all is_lower sch \<and> map lower_char sch = sch \<and> list_all path_char sch \<and> sch \<noteq> []"
    using assms
  proof
    assume "sch = ''http''"
    show ?thesis unfolding \<open>sch = ''http''\<close> by (rule l(1))
  next
    assume "sch = ''https''"
    show ?thesis unfolding \<open>sch = ''https''\<close> by (rule l(2))
  qed
  then show "get_scheme raw [] (sch @ CHR '':'' # r) = Some (sch, r)" "map lower_char sch = sch"
    "\<forall>c \<in> set sch. path_char c" "sch \<noteq> []"
    using get_scheme_letters [of sch "[]" raw r] by (simp_all add: list_all_iff)
qed

lemma parse_object_url:
  assumes sch: "sch = ''http'' \<or> sch = ''https''" and e: "endpoint_ok e"
    and p: "\<forall>c \<in> set p. path_char c" "p = CHR ''/'' # p'" "unescape EncodePath p = Some q"
  defines "u \<equiv> sch @ ''://'' @ e @ p"
  shows "Parse u = Some (empty_url\<lparr>Scheme := sch, Host := e, Path := q\<rparr>)" "url_raw_path u = p"
proof -
  note E = parse_endpoint [OF e] and S = scheme_text [OF sch]
  have "path_char (CHR '':'')" "path_char (CHR ''/'')" by code_simp+
  then have u: "\<forall>c \<in> set u. path_char c" using S(3) E(2) p(1) by (auto simp: u_def)
  note U = path_text_facts [OF u]
  have gs: "get_scheme u [] u = Some (sch, ''//'' @ e @ p)" using S(1) [of u "''//'' @ e @ p"] by (simp add: u_def)
  have rest: "\<forall>c \<in> set (''//'' @ e @ p). path_char c" using u by (auto simp: u_def)
  note R = path_text_facts [OF rest]
  have slash: "takeWhile (\<lambda>c. c \<noteq> CHR ''/'') (e @ p) = e" "dropWhile (\<lambda>c. c \<noteq> CHR ''/'') (e @ p) = p"
    using E(2) p(2) by (simp_all add: takeWhile_append2 dropWhile_append2)
  have ne: "u \<noteq> []" "u \<noteq> ''*''"
  proof -
    have "CHR '':'' \<in> set u" by (simp add: u_def)
    then show "u \<noteq> []" "u \<noteq> ''*''" by auto
  qed
  have "parse_after_scheme False sch (''//'' @ e @ p) = Some (empty_url\<lparr>Scheme := sch, Host := e, Path := q\<rparr>)"
    using R(2) slash E(1) p(3) S(4) by (simp add: parse_after_scheme_def has_prefix_def empty_url_def)
  then have "parse_url False u = Some (empty_url\<lparr>Scheme := sch, Host := e, Path := q\<rparr>)"
    using U(3) gs ne S(2) by (simp add: parse_url_def)
  then show "Parse u = Some (empty_url\<lparr>Scheme := sch, Host := e, Path := q\<rparr>)"
    using U(1) by (simp add: Parse_def)
  show "url_raw_path u = p"
    using U(1) gs R(2) slash by (simp add: url_raw_path_def has_prefix_def)
qed

text \<open>The key without its leading slashes, and the path of its object.\<close>

abbreviation trim_key :: "string \<Rightarrow> string" where
  "trim_key key \<equiv> dropWhile (\<lambda>c. c = CHR ''/'') key"

definition object_path :: "s3_store \<Rightarrow> string \<Rightarrow> string" where
  "object_path S key = ''/'' @ bucket S @ ''/'' @ trim_key key"

lemma unescape_plain: "\<forall>c \<in> set b. c \<noteq> CHR ''%'' \<Longrightarrow> unescape EncodePath (b @ s) = map_option ((@) b) (unescape EncodePath s)"
proof (induction b)
  case (Cons c b)
  then show ?case by (simp add: option.map_comp comp_def)
qed (cases "unescape EncodePath s", simp_all)

lemma NewRequest_url:
  assumes ok: "s3_ok S"
  shows "NewRequest meth (object_url S key) data = Inr \<lparr>rq_method = meth, rq_host = endpoint S,
      rq_path = ''/'' @ bucket S @ ''/'' @ pathEscapeObject (trim_key key), rq_headers = [], rq_body = data\<rparr>"
    and "unescape EncodePath (''/'' @ bucket S @ ''/'' @ pathEscapeObject (trim_key key)) = Some (object_path S key)"
proof -
  let ?p = "''/'' @ bucket S @ ''/'' @ pathEscapeObject (trim_key key)"
  have sch: "scheme S = ''http'' \<or> scheme S = ''https''" and e: "endpoint_ok (endpoint S)"
    and b: "\<forall>c \<in> set (bucket S). host_char c" using ok by (auto simp: s3_ok_def list_all_iff)
  have slash: "path_char (CHR ''/'')" by code_simp
  then have p: "\<forall>c \<in> set ?p. path_char c" using b host_char_facts(1) escaped_chars by auto
  have "unescape EncodePath (pathEscapeObject (trim_key key)) = Some (trim_key key)"
    using unescape_object [of "trim_key key" "[]"] by (simp add: pathEscapeObject_flat)
  then have "unescape EncodePath (''/'' @ pathEscapeObject (trim_key key)) = Some (''/'' @ trim_key key)" by simp
  then show q: "unescape EncodePath ?p = Some (object_path S key)"
    using unescape_plain [of "bucket S" "''/'' @ pathEscapeObject (trim_key key)"] b host_char_facts(6)
    by (simp add: object_path_def)
  have u: "object_url S key = scheme S @ ''://'' @ endpoint S @ ?p" by (simp add: object_url_def bucket_url_def)
  have parse: "Parse (object_url S key)
      = Some (empty_url\<lparr>Scheme := scheme S, Host := endpoint S, Path := object_path S key\<rparr>)"
    unfolding u by (rule parse_object_url [OF sch e p _ q]) simp
  have raw: "url_raw_path (object_url S key) = ?p" unfolding u by (rule parse_object_url [OF sch e p _ q]) simp
  have "trim_suffix (endpoint S) '':'' = endpoint S" using parse_endpoint(3) [OF e] by (simp add: trim_suffix_def)
  then show "NewRequest meth (object_url S key) data = Inr \<lparr>rq_method = meth, rq_host = endpoint S,
      rq_path = ?p, rq_headers = [], rq_body = data\<rparr>"
    using parse raw path_text_facts(4) [OF p] by (simp add: NewRequest_def EscapedPath_def)
qed

section \<open>The signature the documentation prescribes\<close>

text \<open>
  Signature Version 4 as S3 checks it on a request that arrives: the path is decoded and encoded
  again with only unreserved characters left alone; the signed headers are listed in the order of
  their names; the key is derived from the secret by date, region and service.
\<close>

definition aws_unreserved :: "char \<Rightarrow> bool" where
  "aws_unreserved c \<longleftrightarrow> is_alnum c \<or> c \<in> set ''-_.~''"

definition aws_uri :: "string \<Rightarrow> string" where
  "aws_uri path = concat (map (\<lambda>c. if aws_unreserved c \<or> c = CHR ''/'' then [c]
      else [CHR ''%'', hex_digit (of_char c div 16), hex_digit (of_char c mod 16)]) path)"

definition header_or_empty :: "s3_request \<Rightarrow> string \<Rightarrow> string" where
  "header_or_empty r name = (case map_of (rq_headers r) name of None \<Rightarrow> [] | Some v \<Rightarrow> v)"

definition aws_header :: "s3_request \<Rightarrow> string \<Rightarrow> string" where
  "aws_header r name =
     (if name = ''host'' then rq_host r
      else if name = ''x-amz-content-sha256'' then header_or_empty r ''X-Amz-Content-Sha256''
      else header_or_empty r ''X-Amz-Date'')"

definition aws_signed :: "string list" where
  "aws_signed = [''host'', ''x-amz-content-sha256'', ''x-amz-date'']"

definition aws_canonical_request :: "s3_request \<Rightarrow> string \<Rightarrow> string" where
  "aws_canonical_request r path =
     rq_method r @ nl @ aws_uri path @ nl @ nl
     @ concat (map (\<lambda>h. h @ '':'' @ aws_header r h @ nl) aws_signed) @ nl
     @ join_with '';'' aws_signed @ nl @ aws_header r ''x-amz-content-sha256''"

definition aws_signature :: "string \<Rightarrow> string \<Rightarrow> s3_request \<Rightarrow> string \<Rightarrow> string" where
  "aws_signature secret reg r path =
     (let date = aws_header r ''x-amz-date'';
          scope = join_with ''/'' [take 8 date, reg, ''s3'', ''aws4_request''];
          to_sign = ''AWS4-HMAC-SHA256'' @ nl @ date @ nl @ scope @ nl
            @ hex_encode (sha256 (string_bytes (aws_canonical_request r path)));
          key = fold (\<lambda>part k. hmac_sha256 k (string_bytes part)) [take 8 date, reg, ''s3'', ''aws4_request'']
                  (string_bytes (''AWS4'' @ secret))
      in hex_encode (hmac_sha256 key (string_bytes to_sign)))"

definition authorized :: "string \<Rightarrow> string \<Rightarrow> string \<Rightarrow> s3_request \<Rightarrow> string \<Rightarrow> bool" where
  "authorized access secret reg r path \<longleftrightarrow>
     unescape EncodePath (rq_path r) = Some path
     \<and> aws_header r ''x-amz-content-sha256'' = hex_encode (sha256 (rq_body r))
     \<and> map_of (rq_headers r) ''Authorization'' = Some
         (''AWS4-HMAC-SHA256 Credential='' @ access @ ''/'' @ take 8 (aws_header r ''x-amz-date'') @ ''/'' @ reg
           @ ''/s3/aws4_request, SignedHeaders='' @ join_with '';'' aws_signed
           @ '', Signature='' @ aws_signature secret reg r path)"

text \<open>Keys whose escaped form is the canonical one: the few characters that Go leaves alone are absent.\<close>

definition canonical_key :: "string \<Rightarrow> bool" where
  "canonical_key key \<longleftrightarrow> list_all (\<lambda>c. c \<notin> set ''$&+:=@'') key"

lemma object_char_aws:
  assumes "c \<notin> set ''$&+:=@''"
  shows "object_char c = (if aws_unreserved c \<or> c = CHR ''/'' then [c]
      else [CHR ''%'', hex_digit (of_char c div 16), hex_digit (of_char c mod 16)])"
proof -
  have "should_escape c EncodePathSegment = (\<not> aws_unreserved c)" if "c \<noteq> CHR ''/''"
    using assms that unfolding should_escape_def aws_unreserved_def
    by (cases "is_alnum c"; cases "c \<in> set ''-_.~''") auto
  then show ?thesis by (simp add: object_char_def escape_char_def)
qed

lemma aws_uri_append: "aws_uri (s @ t) = aws_uri s @ aws_uri t"
  by (simp add: aws_uri_def)

lemma aws_uri_object: "canonical_key key \<Longrightarrow> aws_uri key = pathEscapeObject key"
  by (induction key) (simp_all add: aws_uri_def pathEscapeObject_flat canonical_key_def object_char_aws)

lemma aws_uri_bucket: "\<forall>c \<in> set b. host_char c \<or> c = CHR ''/'' \<Longrightarrow> aws_uri b = b"
  by (induction b) (auto simp: aws_uri_def aws_unreserved_def host_char_def)

lemma take_date_stamp:
  assumes "four_digit_year t"
  shows "take 8 (amz_date t) = date_stamp t"
proof -
  obtain y m d where ymd: "date_of_days (t div day_ns) = (y, m, d)" by (metis prod_cases3)
  have "0 \<le> y" "y \<le> 9999" using assms ymd by (auto simp: four_digit_year_def Let_def split: prod.splits)
  then have "nat y < 10 ^ 4" by simp
  then have "length (date_stamp t) = 8" using ymd \<open>0 \<le> y\<close> by (simp add: date_stamp_def zero_pad_def del: digits.simps)
  then show ?thesis by (simp add: amz_date_def Let_def)
qed

lemma sign_headers:
  "header_or_empty (sign S now r) ''X-Amz-Content-Sha256'' = hex_encode (sha256 (rq_body r))"
  "header_or_empty (sign S now r) ''X-Amz-Date'' = amz_date now"
  "rq_method (sign S now r) = rq_method r" "rq_host (sign S now r) = rq_host r"
  "rq_path (sign S now r) = rq_path r" "rq_body (sign S now r) = rq_body r"
  by (simp_all add: sign_def Let_def header_or_empty_def)

text \<open>Neither the signature nor its check looks at other headers.\<close>

lemma authorized_other_header:
  assumes "n \<notin> {''X-Amz-Content-Sha256'', ''X-Amz-Date'', ''Authorization''}"
  shows "authorized access secret reg (r\<lparr>rq_headers := gm_put n v (rq_headers r)\<rparr>) path
    = authorized access secret reg r path"
proof -
  let ?r = "r\<lparr>rq_headers := gm_put n v (rq_headers r)\<rparr>"
  have h: "aws_header ?r = aws_header r"
    using assms by (auto simp: aws_header_def header_or_empty_def fun_eq_iff)
  then have "aws_canonical_request ?r = aws_canonical_request r"
    by (simp add: fun_eq_iff aws_canonical_request_def)
  then have "aws_signature secret reg ?r path = aws_signature secret reg r path"
    by (simp add: aws_signature_def h)
  moreover have "map_of (rq_headers ?r) ''Authorization'' = map_of (rq_headers r) ''Authorization''"
    using assms by auto
  ultimately show ?thesis by (simp only: authorized_def h) simp
qed

lemma sign_authorized:
  assumes now: "four_digit_year now"
    and path: "unescape EncodePath (rq_path r) = Some path" "aws_uri path = rq_path r"
  shows "authorized (accessKeyID S) (secretAccessKey S) (region S) (sign S now r) path"
proof -
  let ?s = "sign S now r" and ?h = "hex_encode (sha256 (rq_body r))"
  have hdr: "aws_header ?s ''x-amz-content-sha256'' = ?h" "aws_header ?s ''x-amz-date'' = amz_date now"
    "aws_header ?s ''host'' = rq_host r"
    by (simp_all add: aws_header_def sign_headers)
  have canon: "aws_canonical_request ?s path = join_with nl [rq_method r, rq_path r, [],
      ''host:'' @ rq_host r @ nl @ ''x-amz-content-sha256:'' @ ?h @ nl
        @ ''x-amz-date:'' @ amz_date now @ nl, signed_headers, ?h]"
    using path(2) hdr by (simp add: aws_canonical_request_def aws_signed_def signed_headers_def sign_headers)
  have sig: "aws_signature (secretAccessKey S) (region S) ?s path = hex_encode (hmac_sha256
      (awsSigningKey (secretAccessKey S) (date_stamp now) (region S) ''s3'') (string_bytes
        (join_with nl [''AWS4-HMAC-SHA256'', amz_date now, date_stamp now @ ''/'' @ region S @ ''/s3/aws4_request'',
          hex_encode (sha256 (string_bytes (aws_canonical_request ?s path)))])))"
    using hdr take_date_stamp [OF now]
    by (simp add: aws_signature_def Let_def awsSigningKey_def hmacSHA256_def)
  have auth: "map_of (rq_headers ?s) ''Authorization'' = Some (''AWS4-HMAC-SHA256 Credential='' @ accessKeyID S @ ''/''
      @ date_stamp now @ ''/'' @ region S @ ''/s3/aws4_request'' @ '', SignedHeaders='' @ signed_headers
      @ '', Signature='' @ aws_signature (secretAccessKey S) (region S) ?s path)"
    unfolding sig canon by (simp add: sign_def Let_def)
  show ?thesis using path(1) auth hdr take_date_stamp [OF now]
    by (simp add: authorized_def sign_headers aws_signed_def signed_headers_def)
qed

section \<open>A server that accepts such requests\<close>

text \<open>A key without a leading slash and in canonical form names an object of its own.\<close>

definition usable_key :: "string \<Rightarrow> bool" where
  "usable_key key \<longleftrightarrow> trim_key key = key \<and> canonical_key key"

text \<open>
  What the S3 documentation promises of an authorized request for an object of a bucket, as far as the
  store relies on it. A request may always fail without an answer; then a \<open>PUT\<close> or \<open>DELETE\<close> may or may
  not have happened, but only to its own object.
\<close>

definition only_at :: "string \<Rightarrow> (string \<rightharpoonup> bytes) \<Rightarrow> (string \<rightharpoonup> bytes) \<Rightarrow> bool" where
  "only_at p d d' \<longleftrightarrow> (\<forall>q. q \<noteq> p \<longrightarrow> d' q = d q)"

text \<open>The objects as the store names them.\<close>

definition s3_view :: "s3_store \<Rightarrow> ('w \<Rightarrow> (string \<rightharpoonup> bytes)) \<Rightarrow> 'w \<Rightarrow> (string \<rightharpoonup> bytes)" where
  "s3_view S stored w key = stored w (object_path S key)"

lemma object_path_inj: "usable_key j \<Longrightarrow> usable_key k \<Longrightarrow> object_path S j = object_path S k \<longleftrightarrow> j = k"
  by (simp add: object_path_def usable_key_def)

locale s3_server =
  fixes E :: "'w s3_env" and S :: s3_store and stored :: "'w \<Rightarrow> (string \<rightharpoonup> bytes)"
  assumes store_ok: "s3_ok S"
    and clock: "s3_clock E w = (w', now) \<Longrightarrow> stored w' = stored w \<and> four_digit_year now"
    and put: "authorized (accessKeyID S) (secretAccessKey S) (region S) r path \<Longrightarrow> rq_method r = ''PUT'' \<Longrightarrow>
      rq_host r = endpoint S \<Longrightarrow> s3_http E r w = (w', res) \<Longrightarrow>
      only_at path (stored w) (stored w')
      \<and> (\<forall>rp. res = Inr rp \<longrightarrow> rp_status rp = 200 \<or> rp_status rp = 204 \<longrightarrow>
           stored w' = (stored w)(path \<mapsto> rq_body r))"
    and get: "authorized (accessKeyID S) (secretAccessKey S) (region S) r path \<Longrightarrow> rq_method r = ''GET'' \<Longrightarrow>
      rq_host r = endpoint S \<Longrightarrow> s3_http E r w = (w', res) \<Longrightarrow>
      stored w' = stored w
      \<and> (\<forall>rp. res = Inr rp \<longrightarrow> rp_status rp = 200 \<longrightarrow> rp_error rp = None \<longrightarrow> stored w path = Some (rp_body rp))"
    and delete: "authorized (accessKeyID S) (secretAccessKey S) (region S) r path \<Longrightarrow> rq_method r = ''DELETE'' \<Longrightarrow>
      rq_host r = endpoint S \<Longrightarrow> s3_http E r w = (w', res) \<Longrightarrow>
      only_at path (stored w) (stored w')
      \<and> (\<forall>rp. res = Inr rp \<longrightarrow> rp_status rp = 200 \<or> rp_status rp = 204 \<longrightarrow> stored w' = (stored w)(path := None))"
begin

lemma object_request:
  assumes key: "usable_key key" and run: "signed_request E S meth (object_url S key) data w = (w1, res)"
  shows "\<exists>r. res = Inr r \<and> authorized (accessKeyID S) (secretAccessKey S) (region S) r (object_path S key)
    \<and> rq_method r = meth \<and> rq_host r = endpoint S \<and> rq_body r = data \<and> stored w1 = stored w"
proof -
  note N = NewRequest_url [OF store_ok]
  obtain w' now where c: "s3_clock E w = (w', now)" by (metis surj_pair)
  let ?p = "''/'' @ bucket S @ ''/'' @ pathEscapeObject (trim_key key)"
  let ?q = "\<lparr>rq_method = meth, rq_host = endpoint S, rq_path = ?p, rq_headers = [], rq_body = data\<rparr>"
  have res: "w1 = w'" "res = Inr (sign S now ?q)" using run c N(1) by (simp_all add: signed_request_def)
  have b: "\<forall>c \<in> set (bucket S). host_char c" using store_ok by (auto simp: s3_ok_def list_all_iff)
  have "aws_uri (''/'' @ bucket S @ ''/'') = ''/'' @ bucket S @ ''/''" using b by (intro aws_uri_bucket) auto
  moreover have "canonical_key (trim_key key)" using key by (simp add: usable_key_def)
  ultimately have "aws_uri (object_path S key) = ?p"
    using aws_uri_append [of "''/'' @ bucket S @ ''/''" "trim_key key"] aws_uri_object
    by (simp add: object_path_def)
  then have "authorized (accessKeyID S) (secretAccessKey S) (region S) (sign S now ?q) (object_path S key)"
    using N(2) clock [OF c] by (intro sign_authorized) simp_all
  then show ?thesis using res clock [OF c] by (simp add: sign_headers)
qed

end

context s3_server
begin

lemma put_object:
  assumes key: "usable_key key" and run: "s3_Put E S key d w = (w', e)"
  shows "only_at (object_path S key) (stored w) (stored w')"
    "e = None \<Longrightarrow> stored w' = (stored w)(object_path S key \<mapsto> d)"
proof -
  obtain w1 res where q: "signed_request E S ''PUT'' (object_url S key) d w = (w1, res)" by (metis surj_pair)
  obtain r where r: "res = Inr r" "authorized (accessKeyID S) (secretAccessKey S) (region S) r (object_path S key)"
    "rq_method r = ''PUT''" "rq_host r = endpoint S" "rq_body r = d" "stored w1 = stored w"
    using object_request [OF key q] by blast
  let ?r = "r\<lparr>rq_headers := gm_put ''Content-Type'' ''application/pdf'' (rq_headers r)\<rparr>"
  have auth: "authorized (accessKeyID S) (secretAccessKey S) (region S) ?r (object_path S key)"
    using r(2) by (subst authorized_other_header) auto
  obtain w2 ans where h: "s3_http E ?r w1 = (w2, ans)" by (metis surj_pair)
  have ok: "\<And>rp. ans = Inr rp \<Longrightarrow> e = None \<Longrightarrow> rp_status rp = 200 \<or> rp_status rp = 204" and w': "w' = w2"
    and none: "e = None \<Longrightarrow> \<exists>rp. ans = Inr rp"
    using run q r(1) h by (auto simp: s3_Put_def doNoBody_def split: sum.splits if_splits)
  note P = put [OF auth _ _ h]
  show "only_at (object_path S key) (stored w) (stored w')" using P r w' by simp
  show "stored w' = (stored w)(object_path S key \<mapsto> d)" if "e = None"
    using P r w' none [OF that] ok that by auto
qed

lemma delete_object:
  assumes key: "usable_key key" and run: "s3_Delete E S key w = (w', e)"
  shows "only_at (object_path S key) (stored w) (stored w')"
    "e = None \<Longrightarrow> stored w' = (stored w)(object_path S key := None)"
proof -
  obtain w1 res where q: "signed_request E S ''DELETE'' (object_url S key) [] w = (w1, res)" by (metis surj_pair)
  obtain r where r: "res = Inr r" "authorized (accessKeyID S) (secretAccessKey S) (region S) r (object_path S key)"
    "rq_method r = ''DELETE''" "rq_host r = endpoint S" "stored w1 = stored w"
    using object_request [OF key q] by blast
  obtain w2 ans where h: "s3_http E r w1 = (w2, ans)" by (metis surj_pair)
  have ok: "\<And>rp. ans = Inr rp \<Longrightarrow> e = None \<Longrightarrow> rp_status rp = 200 \<or> rp_status rp = 204" and w': "w' = w2"
    and none: "e = None \<Longrightarrow> \<exists>rp. ans = Inr rp"
    using run q r(1) h by (auto simp: s3_Delete_def doNoBody_def split: sum.splits if_splits)
  note P = delete [OF r(2) _ _ h]
  show "only_at (object_path S key) (stored w) (stored w')" using P r w' by simp
  show "stored w' = (stored w)(object_path S key := None)" if "e = None"
    using P r w' none [OF that] ok that by auto
qed

lemma get_object:
  assumes key: "usable_key key" and run: "s3_Get E S key w = (w', res)"
  shows "stored w' = stored w" "res = Inr d \<Longrightarrow> stored w (object_path S key) = Some d"
proof -
  obtain w1 q where q: "signed_request E S ''GET'' (object_url S key) [] w = (w1, q)" by (metis surj_pair)
  obtain r where r: "q = Inr r" "authorized (accessKeyID S) (secretAccessKey S) (region S) r (object_path S key)"
    "rq_method r = ''GET''" "rq_host r = endpoint S" "stored w1 = stored w"
    using object_request [OF key q] by blast
  obtain w2 ans where h: "s3_http E r w1 = (w2, ans)" by (metis surj_pair)
  note P = get [OF r(2) _ _ h]
  have "w' = w2" using run q r(1) h by (auto simp: s3_Get_def split: sum.splits if_splits option.splits)
  then show "stored w' = stored w" using P r by simp
  show "stored w (object_path S key) = Some d" if "res = Inr d"
    using run q r h P that by (auto simp: s3_Get_def split: sum.splits if_splits option.splits)
qed

end

sublocale s3_server \<subseteq> s3: blob_store "s3_blob_ops E S" "s3_view S stored" usable_key
proof (unfold_locales, goal_cases)
  case (1 k d b b' j)
  then show ?case using put_object [of k d b b' None] object_path_inj [of j k S]
    by (simp add: s3_blob_ops_def s3_view_def)
next
  case (2 k d b b' e j)
  then show ?case using put_object(1) [of k d b b' "Some e"] object_path_inj [of j k S]
    by (simp add: s3_blob_ops_def s3_view_def only_at_def)
next
  case (3 k j b)
  obtain b' res where "s3_Get E S k b = (b', res)" by (metis surj_pair)
  then show ?case using 3 get_object(1) [of k b b' res] by (simp add: s3_blob_ops_def s3_view_def)
next
  case (4 k b b' d)
  then show ?case using get_object(2) [of k b b' "Inr d" d] by (simp add: s3_blob_ops_def s3_view_def)
next
  case (5 k b b' j)
  then show ?case using delete_object [of k b b' None] object_path_inj [of j k S]
    by (simp add: s3_blob_ops_def s3_view_def)
next
  case (6 k b b' e j)
  then show ?case using delete_object(1) [of k b b' "Some e"] object_path_inj [of j k S]
    by (simp add: s3_blob_ops_def s3_view_def only_at_def)
qed

section \<open>An executable server\<close>

definition demo_reply :: "int \<Rightarrow> bytes \<Rightarrow> http_reply result" where
  "demo_reply st d = Inr \<lparr>rp_status = st, rp_body = d, rp_error = None\<rparr>"

text \<open>A bucket in memory that checks every signature.\<close>

definition bucket_http :: "s3_store \<Rightarrow> s3_request \<Rightarrow> (string, bytes) gomap \<Rightarrow> (string, bytes) gomap \<times> http_reply result" where
  "bucket_http S r w =
     (case unescape EncodePath (rq_path r) of
        None \<Rightarrow> (w, demo_reply 400 [])
      | Some p \<Rightarrow>
          if \<not> authorized (accessKeyID S) (secretAccessKey S) (region S) r p then (w, demo_reply 403 [])
          else if rq_method r = ''PUT'' then (gm_put p (rq_body r) w, demo_reply 200 [])
          else if rq_method r = ''DELETE'' then (gm_del p w, demo_reply 204 [])
          else (case map_of w p of None \<Rightarrow> (w, demo_reply 404 []) | Some d \<Rightarrow> (w, demo_reply 200 d)))"

definition bucket_env :: "s3_store \<Rightarrow> (string, bytes) gomap s3_env" where
  "bucket_env S = \<lparr>s3_http = bucket_http S, s3_clock = (\<lambda>w. (w, 0))\<rparr>"

definition demo_s3 :: s3_store where
  "demo_s3 = s3_of_config \<lparr>Endpoint = ''localhost:9000'', AccessKeyID = ''minioadmin'',
     SecretAccessKey = ''minioadmin'', Bucket = ''chromaflow-pdfs'', Region = '''', UseSSL = False\<rparr>"

lemma demo_s3_ok: "s3_ok demo_s3"
  by code_simp

lemma authorized_path: "authorized a s g r p \<Longrightarrow> unescape EncodePath (rq_path r) = Some p"
  by (simp add: authorized_def)

interpretation bk: s3_server "bucket_env demo_s3" demo_s3 map_of
proof (unfold_locales, goal_cases)
  case 1
  show ?case by (rule demo_s3_ok)
next
  case (2 w w' now)
  then show ?case by (auto simp: bucket_env_def) code_simp
next
  case (3 r path w w' res)
  then show ?case using authorized_path [OF 3(1)]
    by (auto simp: bucket_env_def bucket_http_def only_at_def demo_reply_def)
next
  case (4 r path w w' res)
  then show ?case using authorized_path [OF 4(1)]
    by (auto simp: bucket_env_def bucket_http_def demo_reply_def split: option.splits)
next
  case (5 r path w w' res)
  then show ?case using authorized_path [OF 5(1)]
    by (auto simp: bucket_env_def bucket_http_def only_at_def demo_reply_def)
qed

section \<open>Properties of the store\<close>

text \<open>Whatever bytes an object key holds, the URL built for it parses to a request to the configured
  host whose path decodes to the bucket and exactly that key (without its leading slashes): no key
  can add a query, a fragment or another bucket.\<close>

theorem s3_key_confined:
  assumes "s3_ok S"
  shows "\<exists>r. NewRequest meth (object_url S key) data = Inr r \<and> rq_host r = endpoint S \<and> rq_body r = data
    \<and> unescape EncodePath (rq_path r) = Some (''/'' @ bucket S @ ''/'' @ dropWhile (\<lambda>c. c = CHR ''/'') key)"
  using NewRequest_url [OF assms] by (auto simp: object_path_def)

theorem s3_key_confined_witness:
  "\<exists>r. NewRequest ''GET'' (object_url demo_s3 ''/pdf/a?x#y%2F.pdf'') [] = Inr r \<and> rq_host r = endpoint demo_s3
    \<and> unescape EncodePath (rq_path r) = Some ''/chromaflow-pdfs/pdf/a?x#y%2F.pdf''"
proof -
  have "''/'' @ bucket demo_s3 @ ''/'' @ dropWhile (\<lambda>c. c = CHR ''/'') ''/pdf/a?x#y%2F.pdf''
      = ''/chromaflow-pdfs/pdf/a?x#y%2F.pdf''"
    by (simp add: demo_s3_def s3_of_config_def)
  then show ?thesis using s3_key_confined [OF demo_s3_ok, of "''GET''" "''/pdf/a?x#y%2F.pdf''" "[]"] by metis
qed

lemma NewRequest_bucket:
  assumes ok: "s3_ok S"
  shows "NewRequest meth (bucket_url S) data = Inr \<lparr>rq_method = meth, rq_host = endpoint S,
      rq_path = ''/'' @ bucket S, rq_headers = [], rq_body = data\<rparr>"
    and "unescape EncodePath (''/'' @ bucket S) = Some (''/'' @ bucket S)"
proof -
  let ?p = "''/'' @ bucket S"
  have sch: "scheme S = ''http'' \<or> scheme S = ''https''" and e: "endpoint_ok (endpoint S)"
    and b: "\<forall>c \<in> set (bucket S). host_char c" using ok by (auto simp: s3_ok_def list_all_iff)
  have "path_char (CHR ''/'')" by code_simp
  then have p: "\<forall>c \<in> set ?p. path_char c" using b host_char_facts(1) by auto
  show q: "unescape EncodePath ?p = Some ?p"
    using unescape_plain [of "bucket S" "[]"] b host_char_facts(6) by simp
  have u: "bucket_url S = scheme S @ ''://'' @ endpoint S @ ?p" by (simp add: bucket_url_def)
  have parse: "Parse (bucket_url S) = Some (empty_url\<lparr>Scheme := scheme S, Host := endpoint S, Path := ?p\<rparr>)"
    unfolding u by (rule parse_object_url [OF sch e p _ q]) simp
  have raw: "url_raw_path (bucket_url S) = ?p" unfolding u by (rule parse_object_url [OF sch e p _ q]) simp
  have "trim_suffix (endpoint S) '':'' = endpoint S" using parse_endpoint(3) [OF e] by (simp add: trim_suffix_def)
  then show "NewRequest meth (bucket_url S) data = Inr \<lparr>rq_method = meth, rq_host = endpoint S,
      rq_path = ?p, rq_headers = [], rq_body = data\<rparr>"
    using parse raw path_text_facts(4) [OF p] by (simp add: NewRequest_def EscapedPath_def)
qed

lemma bucket_authorized:
  assumes "s3_ok S" and "four_digit_year now"
  shows "\<exists>r. NewRequest meth (bucket_url S) data = Inr r
    \<and> authorized (accessKeyID S) (secretAccessKey S) (region S) (sign S now r) (''/'' @ bucket S)"
proof -
  have b: "\<forall>c \<in> set (bucket S). host_char c" using assms(1) by (auto simp: s3_ok_def list_all_iff)
  have "aws_uri (''/'' @ bucket S) = ''/'' @ bucket S" using b by (intro aws_uri_bucket) auto
  then show ?thesis using NewRequest_bucket [OF assms(1)] sign_authorized [OF assms(2)] by simp
qed

lemma object_authorized:
  assumes "s3_ok S" and "usable_key key" and "four_digit_year now"
  shows "\<exists>r. NewRequest meth (object_url S key) data = Inr r
    \<and> authorized (accessKeyID S) (secretAccessKey S) (region S) (sign S now r) (object_path S key)"
proof -
  have b: "\<forall>c \<in> set (bucket S). host_char c" using assms(1) by (auto simp: s3_ok_def list_all_iff)
  have "aws_uri (''/'' @ bucket S @ ''/'') = ''/'' @ bucket S @ ''/''" using b by (intro aws_uri_bucket) auto
  then have "aws_uri (object_path S key) = ''/'' @ bucket S @ ''/'' @ pathEscapeObject (trim_key key)"
    using aws_uri_append [of "''/'' @ bucket S @ ''/''" "trim_key key"] aws_uri_object assms(2)
    by (simp add: object_path_def usable_key_def)
  then show ?thesis using NewRequest_url [OF assms(1)] sign_authorized [OF assms(3)] by simp
qed

text \<open>Two servers that treat such requests alike.\<close>

definition same_for_authorized :: "s3_store \<Rightarrow> 'w s3_env \<Rightarrow> 'w s3_env \<Rightarrow> bool" where
  "same_for_authorized S E F \<longleftrightarrow> s3_clock F = s3_clock E
     \<and> (\<forall>r path w. authorized (accessKeyID S) (secretAccessKey S) (region S) r path \<longrightarrow> s3_http F r w = s3_http E r w)"

lemma signed_authorized:
  assumes "\<And>now. four_digit_year now \<Longrightarrow> \<exists>r. NewRequest meth u data = Inr r
      \<and> authorized (accessKeyID S) (secretAccessKey S) (region S) (sign S now r) path"
    and "\<And>w. four_digit_year (snd (s3_clock E w))"
  shows "\<exists>w' r. signed_request E S meth u data w = (w', Inr r)
    \<and> authorized (accessKeyID S) (secretAccessKey S) (region S) r path"
proof -
  obtain w' now where c: "s3_clock E w = (w', now)" by (metis surj_pair)
  then have "four_digit_year now" using assms(2) [of w] by simp
  from assms(1) [OF this] c show ?thesis by (auto simp: signed_request_def)
qed

lemma signed_same: "s3_clock F = s3_clock E \<Longrightarrow> signed_request F S meth u data w = signed_request E S meth u data w"
  by (simp add: signed_request_def split: sum.split)

text \<open>C30: Every request the store sends, to find or create its bucket and to put, get or delete an object
  whose key has none of \<open>$&+:=@\<close> (the characters Go's path escaping leaves alone; the keys of the
  program are \<open>pdf/<id>.pdf\<close>), carries the signature that the documentation of Signature Version 4
  prescribes for the request as it arrives, for every payload: the request is so signed, and a server
  that treats requests without such a signature in any other way makes no difference to the store.\<close>

theorem s3_requests_authorized:
  assumes ok: "s3_ok S" and key: "usable_key key" and clock: "\<And>w. four_digit_year (snd (s3_clock E w))"
    and same: "same_for_authorized S E F"
  shows "(\<exists>w' r. signed_request E S meth (object_url S key) data w = (w', Inr r)
      \<and> authorized (accessKeyID S) (secretAccessKey S) (region S) r (object_path S key))
    \<and> (\<exists>w' r. signed_request E S meth (bucket_url S) data w = (w', Inr r)
      \<and> authorized (accessKeyID S) (secretAccessKey S) (region S) r (''/'' @ bucket S))
    \<and> ensureBucket F S w = ensureBucket E S w \<and> s3_Put F S key data w = s3_Put E S key data w
    \<and> s3_Get F S key w = s3_Get E S key w \<and> s3_Delete F S key w = s3_Delete E S key w"
proof -
  have F: "s3_clock F = s3_clock E"
    and http: "authorized (accessKeyID S) (secretAccessKey S) (region S) r path \<Longrightarrow> s3_http F r w = s3_http E r w" for r path w
    using same by (auto simp: same_for_authorized_def)
  have obj: "\<exists>w' r. signed_request E S m (object_url S key) d v = (w', Inr r)
      \<and> authorized (accessKeyID S) (secretAccessKey S) (region S) r (object_path S key)" for m d v
    by (rule signed_authorized [OF object_authorized [OF ok key] clock])
  have bkt: "\<exists>w' r. signed_request E S m (bucket_url S) d v = (w', Inr r)
      \<and> authorized (accessKeyID S) (secretAccessKey S) (region S) r (''/'' @ bucket S)" for m d v
    by (rule signed_authorized [OF bucket_authorized [OF ok] clock])
  have "ensureBucket F S w = ensureBucket E S w"
  proof -
    obtain w1 r1 where r1: "signed_request E S ''HEAD'' (bucket_url S) [] w = (w1, Inr r1)"
      "s3_http F r1 w1 = s3_http E r1 w1" using bkt http by metis
    have put: "\<exists>w3 r3. signed_request E S ''PUT'' (bucket_url S) [] v = (w3, Inr r3)
        \<and> s3_http F r3 w3 = s3_http E r3 w3" for v using bkt http by metis
    obtain w2 a where a: "s3_http E r1 w1 = (w2, a)" by (metis surj_pair)
    obtain w3 r3 where r3: "signed_request E S ''PUT'' (bucket_url S) [] w2 = (w3, Inr r3)"
      "s3_http F r3 w3 = s3_http E r3 w3" using put by metis
    show ?thesis unfolding ensureBucket_def signed_same [OF F] using r1 r3 a by (simp split: sum.split)
  qed
  moreover have "s3_Put F S key data w = s3_Put E S key data w"
  proof -
    obtain w1 r where r: "signed_request E S ''PUT'' (object_url S key) data w = (w1, Inr r)"
      "authorized (accessKeyID S) (secretAccessKey S) (region S) r (object_path S key)" using obj by metis
    let ?r = "r\<lparr>rq_headers := gm_put ''Content-Type'' ''application/pdf'' (rq_headers r)\<rparr>"
    have "authorized (accessKeyID S) (secretAccessKey S) (region S) ?r (object_path S key)"
      using r(2) by (subst authorized_other_header) auto
    from http [OF this] r(1) show ?thesis by (simp add: s3_Put_def doNoBody_def signed_same [OF F])
  qed
  moreover have "s3_Get F S key w = s3_Get E S key w"
  proof -
    obtain w1 r where "signed_request E S ''GET'' (object_url S key) [] w = (w1, Inr r)"
      "s3_http F r w1 = s3_http E r w1" using obj http by metis
    then show ?thesis by (simp add: s3_Get_def signed_same [OF F])
  qed
  moreover have "s3_Delete F S key w = s3_Delete E S key w"
  proof -
    obtain w1 r where "signed_request E S ''DELETE'' (object_url S key) [] w = (w1, Inr r)"
      "s3_http F r w1 = s3_http E r w1" using obj http by metis
    then show ?thesis by (simp add: s3_Delete_def doNoBody_def signed_same [OF F])
  qed
  ultimately show ?thesis using obj bkt by blast
qed

theorem s3_requests_authorized_witness:
  "s3_Put \<lparr>s3_http = (\<lambda>r w. if \<exists>path. authorized ''minioadmin'' ''minioadmin'' ''us-east-1'' r path
        then bucket_http demo_s3 r w else ([], Inl (ErrNew ''refused''))), s3_clock = (\<lambda>w. (w, 0))\<rparr>
      demo_s3 ''pdf/1f.pdf'' [1, 2] []
    = s3_Put (bucket_env demo_s3) demo_s3 ''pdf/1f.pdf'' [1, 2] []"
proof -
  have k: "usable_key ''pdf/1f.pdf''" by code_simp
  have c: "accessKeyID demo_s3 = ''minioadmin''" "secretAccessKey demo_s3 = ''minioadmin''" "region demo_s3 = ''us-east-1''"
    by (simp_all add: demo_s3_def s3_of_config_def)
  have "four_digit_year 0" by code_simp
  then have clock: "four_digit_year (snd (s3_clock (bucket_env demo_s3) w))" for w by (simp add: bucket_env_def)
  show ?thesis
    by (rule s3_requests_authorized [OF demo_s3_ok k clock, THEN conjunct2, THEN conjunct2, THEN conjunct2, THEN conjunct1])
      (auto simp: same_for_authorized_def bucket_env_def c)
qed

text \<open>C15: On a server that follows the S3 documentation the store is a blob store: what \<open>Put\<close> reported
  stored is what \<open>Get\<close> returns, if it returns anything; a \<open>Delete\<close> that succeeded leaves nothing to
  get; and no operation, failed or not, touches another key.\<close>

theorem s3_store_keeps_blobs:
  assumes server: "s3_server E S stored" and key: "usable_key key" "usable_key j" "j \<noteq> key"
    and put: "s3_Put E S key d w = (w1, pe)" and get: "s3_Get E S key w1 = (w2, res)"
    and del: "s3_Delete E S key w2 = (w3, de)"
  shows "(pe = None \<longrightarrow> (\<exists>e. res = Inl e) \<or> res = Inr d)
    \<and> (de = None \<longrightarrow> (\<exists>e. snd (s3_Get E S key w3) = Inl e))
    \<and> s3_view S stored w3 j = s3_view S stored w j"
proof -
  note P = s3_server.put_object [OF server key(1) put] and G = s3_server.get_object [OF server key(1) get]
    and D = s3_server.delete_object [OF server key(1) del]
  have put_get: "(\<exists>e. res = Inl e) \<or> res = Inr d" if "pe = None"
    using P(2) [OF that] G(2) by (cases res) auto
  have gone: "\<exists>e. snd (s3_Get E S key w3) = Inl e" if "de = None"
  proof -
    obtain w4 r where g: "s3_Get E S key w3 = (w4, r)" by (metis surj_pair)
    have "stored w3 (object_path S key) = None" using D(2) [OF that] by simp
    then show ?thesis using s3_server.get_object(2) [OF server key(1) g] g by (cases r) auto
  qed
  have "object_path S j \<noteq> object_path S key" using object_path_inj key by blast
  then have "s3_view S stored w3 j = s3_view S stored w j"
    using P(1) D(1) G(1) by (simp add: s3_view_def only_at_def)
  then show ?thesis using put_get gone by blast
qed

theorem s3_store_keeps_blobs_witness:
  "\<exists>w1 w2. s3_Put (bucket_env demo_s3) demo_s3 ''pdf/1.pdf'' [37, 80] [] = (w1, None)
    \<and> s3_Get (bucket_env demo_s3) demo_s3 ''pdf/1.pdf'' w1 = (w2, Inr [37, 80])"
proof -
  let ?E = "bucket_env demo_s3" and ?k = "''pdf/1.pdf''"
  have k: "usable_key ?k" "usable_key ''pdf/2.pdf''" "''pdf/2.pdf'' \<noteq> ?k" by code_simp+
  have served: "\<exists>r. signed_request ?E demo_s3 m (object_url demo_s3 ?k) d w = (w, Inr r)
      \<and> authorized (accessKeyID demo_s3) (secretAccessKey demo_s3) (region demo_s3) r (object_path demo_s3 ?k)
      \<and> rq_method r = m \<and> rq_body r = d" for m d w
  proof -
    obtain w1 q where q: "signed_request ?E demo_s3 m (object_url demo_s3 ?k) d w = (w1, q)" by (metis surj_pair)
    moreover have "w1 = w"
      using q NewRequest_url(1) [OF demo_s3_ok] by (simp add: signed_request_def bucket_env_def)
    ultimately show ?thesis using bk.object_request [OF k(1) q] by auto
  qed
  obtain r where r: "signed_request ?E demo_s3 ''PUT'' (object_url demo_s3 ?k) [37, 80] [] = ([], Inr r)"
    "authorized (accessKeyID demo_s3) (secretAccessKey demo_s3) (region demo_s3) r (object_path demo_s3 ?k)"
    "rq_method r = ''PUT''" "rq_body r = [37, 80]" using served by blast
  let ?r = "r\<lparr>rq_headers := gm_put ''Content-Type'' ''application/pdf'' (rq_headers r)\<rparr>"
  let ?w = "gm_put (object_path demo_s3 ?k) [37, 80] []"
  have auth: "authorized (accessKeyID demo_s3) (secretAccessKey demo_s3) (region demo_s3) ?r (object_path demo_s3 ?k)"
    using r(2) by (subst authorized_other_header) auto
  have put: "s3_Put ?E demo_s3 ?k [37, 80] [] = (?w, None)"
    using r auth authorized_path [OF auth]
    by (simp add: s3_Put_def doNoBody_def bucket_env_def bucket_http_def demo_reply_def)
  obtain g where g: "signed_request ?E demo_s3 ''GET'' (object_url demo_s3 ?k) [] ?w = (?w, Inr g)"
    "authorized (accessKeyID demo_s3) (secretAccessKey demo_s3) (region demo_s3) g (object_path demo_s3 ?k)"
    "rq_method g = ''GET''" using served by blast
  obtain e w2 where get: "s3_Get ?E demo_s3 ?k ?w = (w2, e)" by (metis surj_pair)
  have ok: "\<exists>d. e = Inr d" using get g authorized_path [OF g(2)]
    by (auto simp: s3_Get_def bucket_env_def bucket_http_def demo_reply_def)
  obtain w3 de where del: "s3_Delete ?E demo_s3 ?k w2 = (w3, de)" by (metis surj_pair)
  have "e = Inr [37, 80]"
    using s3_store_keeps_blobs [OF bk.s3_server_axioms k put get del] ok by auto
  then show ?thesis using put get by blast
qed

end
