(* ===== verification/Generator.thy ===== *)
theory Generator
  imports Queue_Types "HOL-Library.Multiset"
begin

text \<open>
  The PDF generator (\<open>internal/pdf/generator.go\<close>): one browser shared by all jobs, started on first
  use and kept, one page per job. The browser library (go-rod, not in the repository) is a
  parameter: what its calls do to the world \<open>'w\<close> and what they return. The clean-up function the
  code keeps is the launched process it would kill, or nothing.
\<close>

section \<open>The library and the state\<close>

type_synonym ctx = nat

record ('w, 'b, 'p, 's) rod =
  rod_with_timeout :: "ctx \<Rightarrow> duration \<Rightarrow> 'w \<Rightarrow> 'w \<times> ctx"
  rod_cancel :: "ctx \<Rightarrow> 'w \<Rightarrow> 'w"
  rod_look_path :: "'w \<Rightarrow> string"
  rod_launch :: "ctx \<Rightarrow> string \<Rightarrow> 'w \<Rightarrow> 'w \<times> string result"
  rod_kill :: "string \<Rightarrow> 'w \<Rightarrow> 'w"
  rod_connect :: "ctx \<Rightarrow> string \<Rightarrow> 'w \<Rightarrow> 'w \<times> 'b result"
  rod_close :: "'b \<Rightarrow> 'w \<Rightarrow> 'w"
  rod_page :: "'b \<Rightarrow> ctx \<Rightarrow> string \<Rightarrow> 'w \<Rightarrow> 'w \<times> 'p result"
  rod_wait_load :: "'p \<Rightarrow> ctx \<Rightarrow> 'w \<Rightarrow> 'w \<times> go_error option"
  rod_pdf :: "'p \<Rightarrow> ctx \<Rightarrow> 'w \<Rightarrow> 'w \<times> 's result"
  rod_read :: "'s \<Rightarrow> 'w \<Rightarrow> 'w \<times> bytes result"
  rod_stream_close :: "'s \<Rightarrow> 'w \<Rightarrow> 'w"
  rod_page_close :: "'p \<Rightarrow> 'w \<Rightarrow> 'w"

datatype cleanup = Nothing | Kill string

record 'b generator =
  g_timeout :: duration
  chromeWSURL :: string
  browserInst :: "'b option"
  g_cleanup :: "cleanup option"

definition NewGenerator :: "int \<Rightarrow> string \<Rightarrow> 'b generator" where
  "NewGenerator timeoutSec url =
     \<lparr>g_timeout = to_int64 ((if timeoutSec \<le> 0 then 30 else timeoutSec) * second), chromeWSURL = url,
      browserInst = None, g_cleanup = None\<rparr>"

section \<open>Operations\<close>

definition browserControlURL ::
    "('w, 'b, 'p, 's) rod \<Rightarrow> string \<Rightarrow> ctx \<Rightarrow> 'b generator \<Rightarrow> 'w \<Rightarrow> 'w \<times> (string \<times> cleanup) result" where
  "browserControlURL R chrome_bin c g w =
     (if chromeWSURL g \<noteq> '''' then (w, Inr (chromeWSURL g, Nothing))
      else
        let found = (if chrome_bin = '''' then rod_look_path R w else chrome_bin);
            path = (if found = '''' then ''/usr/bin/chromium-browser'' else found)
        in (case rod_launch R c path w of
              (w1, Inl e) \<Rightarrow> (w1, Inl (ErrWrap ''launch browser'' e))
            | (w1, Inr url) \<Rightarrow> (w1, Inr (url, Kill url))))"

fun run_cleanup :: "('w, 'b, 'p, 's) rod \<Rightarrow> cleanup \<Rightarrow> 'w \<Rightarrow> 'w" where
  "run_cleanup R Nothing w = w"
| "run_cleanup R (Kill url) w = rod_kill R url w"

definition ensureBrowser ::
    "('w, 'b, 'p, 's) rod \<Rightarrow> string \<Rightarrow> ctx \<Rightarrow> 'b generator \<Rightarrow> 'w \<Rightarrow> 'b generator \<times> 'w \<times> 'b result" where
  "ensureBrowser R chrome_bin c g w =
     (case browserInst g of
        Some b \<Rightarrow> (g, w, Inr b)
      | None \<Rightarrow>
          (case browserControlURL R chrome_bin c g w of
             (w1, Inl e) \<Rightarrow> (g, w1, Inl e)
           | (w1, Inr (url, cl)) \<Rightarrow>
               (case rod_connect R c url w1 of
                  (w2, Inl e) \<Rightarrow> (g, run_cleanup R cl w2, Inl (ErrWrap ''connect browser'' e))
                | (w2, Inr b) \<Rightarrow> (g\<lparr>browserInst := Some b, g_cleanup := Some cl\<rparr>, w2, Inr b))))"

text \<open>The page from its opening to its closing; deferred calls run last-in first-out.\<close>

definition render_page ::
    "('w, 'b, 'p, 's) rod \<Rightarrow> 'b \<Rightarrow> ctx \<Rightarrow> string \<Rightarrow> 'w \<Rightarrow> 'w \<times> bytes result" where
  "render_page R b c url w =
     (case rod_page R b c url w of
        (w1, Inl e) \<Rightarrow> (w1, Inl (ErrWrap ''open page'' e))
      | (w1, Inr p) \<Rightarrow>
          (case rod_wait_load R p c w1 of
             (w2, Some e) \<Rightarrow> (rod_page_close R p w2, Inl (ErrWrap ''wait for page load'' e))
           | (w2, None) \<Rightarrow>
               (case rod_pdf R p c w2 of
                  (w3, Inl e) \<Rightarrow> (rod_page_close R p w3, Inl (ErrWrap ''print pdf'' e))
                | (w3, Inr s) \<Rightarrow>
                    (case rod_read R s w3 of
                       (w4, Inl e) \<Rightarrow>
                         (rod_page_close R p (rod_stream_close R s w4), Inl (ErrWrap ''read pdf stream'' e))
                     | (w4, Inr pdf) \<Rightarrow> (rod_page_close R p (rod_stream_close R s w4), Inr pdf)))))"

definition GeneratePDF ::
    "('w, 'b, 'p, 's) rod \<Rightarrow> string \<Rightarrow> ctx \<Rightarrow> string \<Rightarrow> 'b generator \<Rightarrow> 'w
       \<Rightarrow> 'b generator \<times> 'w \<times> bytes result" where
  "GeneratePDF R chrome_bin c0 url g w =
     (case rod_with_timeout R c0 (g_timeout g) w of (w1, c) \<Rightarrow>
      case ensureBrowser R chrome_bin c g w1 of
        (g', w2, Inl e) \<Rightarrow> (g', rod_cancel R c w2, Inl e)
      | (g', w2, Inr b) \<Rightarrow>
          (case render_page R b c url w2 of (w3, res) \<Rightarrow> (g', rod_cancel R c w3, res)))"

definition CloseBrowser :: "('w, 'b, 'p, 's) rod \<Rightarrow> 'b generator \<Rightarrow> 'w \<Rightarrow> 'b generator \<times> 'w" where
  "CloseBrowser R g w =
     (let w1 = (case browserInst g of None \<Rightarrow> w | Some b \<Rightarrow> rod_close R b w);
          w2 = (case g_cleanup g of None \<Rightarrow> w1 | Some cl \<Rightarrow> run_cleanup R cl w1)
      in (g\<lparr>browserInst := None, g_cleanup := None\<rparr>, w2))"

section \<open>Every page and stream is closed\<close>

text \<open>The library with a record of its calls.\<close>

datatype ('b, 'p, 's) rod_call =
    Opened 'p | Closed 'p | Streamed 's | StreamClosed 's | Connected 'b | BrowserClosed 'b
  | Launched string | Killed string | Began ctx | Cancelled ctx

abbreviation log_of :: "('c \<Rightarrow> 'x) \<Rightarrow> 'w \<times> 'c result \<Rightarrow> 'x list" where
  "log_of f r \<equiv> (case snd r of Inl _ \<Rightarrow> [] | Inr x \<Rightarrow> [f x])"

definition logged ::
    "('w, 'b, 'p, 's) rod \<Rightarrow> ('w \<times> ('b, 'p, 's) rod_call list, 'b, 'p, 's) rod" where
  "logged R =
     \<lparr>rod_with_timeout = (\<lambda>c d (w, l). case rod_with_timeout R c d w of (w', c') \<Rightarrow> ((w', l @ [Began c']), c')),
      rod_cancel = (\<lambda>c (w, l). (rod_cancel R c w, l @ [Cancelled c])),
      rod_look_path = (\<lambda>(w, l). rod_look_path R w),
      rod_launch = (\<lambda>c p (w, l). let r = rod_launch R c p w in ((fst r, l @ log_of Launched r), snd r)),
      rod_kill = (\<lambda>u (w, l). (rod_kill R u w, l @ [Killed u])),
      rod_connect = (\<lambda>c u (w, l). let r = rod_connect R c u w in ((fst r, l @ log_of Connected r), snd r)),
      rod_close = (\<lambda>b (w, l). (rod_close R b w, l @ [BrowserClosed b])),
      rod_page = (\<lambda>b c u (w, l). let r = rod_page R b c u w in ((fst r, l @ log_of Opened r), snd r)),
      rod_wait_load = (\<lambda>p c (w, l). case rod_wait_load R p c w of (w', e) \<Rightarrow> ((w', l), e)),
      rod_pdf = (\<lambda>p c (w, l). let r = rod_pdf R p c w in ((fst r, l @ log_of Streamed r), snd r)),
      rod_read = (\<lambda>s (w, l). case rod_read R s w of (w', r) \<Rightarrow> ((w', l), r)),
      rod_stream_close = (\<lambda>s (w, l). (rod_stream_close R s w, l @ [StreamClosed s])),
      rod_page_close = (\<lambda>p (w, l). (rod_page_close R p w, l @ [Closed p]))\<rparr>"

definition picked :: "('c \<Rightarrow> 'x option) \<Rightarrow> 'c list \<Rightarrow> 'x multiset" where
  "picked f l = mset (List.map_filter f l)"

lemma picked_append [simp]: "picked f (l @ m) = picked f l + picked f m"
  by (simp add: picked_def List.map_filter_def)

lemma picked_Cons [simp]: "picked f (c # l) = (case f c of None \<Rightarrow> {#} | Some x \<Rightarrow> {#x#}) + picked f l"
  by (simp add: picked_def List.map_filter_simps split: option.split)

lemma picked_Nil [simp]: "picked f [] = {#}"
  by (simp add: picked_def List.map_filter_simps)

fun opened where "opened (Opened p) = Some p" | "opened _ = None"
fun closed where "closed (Closed p) = Some p" | "closed _ = None"
fun streamed where "streamed (Streamed s) = Some s" | "streamed _ = None"
fun stream_closed where "stream_closed (StreamClosed s) = Some s" | "stream_closed _ = None"
fun connected where "connected (Connected b) = Some b" | "connected _ = None"
fun browser_closed where "browser_closed (BrowserClosed b) = Some b" | "browser_closed _ = None"
fun launched where "launched (Launched u) = Some u" | "launched _ = None"
fun killed where "killed (Killed u) = Some u" | "killed _ = None"
fun began where "began (Began c) = Some c" | "began _ = None"
fun cancelled where "cancelled (Cancelled c) = Some c" | "cancelled _ = None"

text \<open>What is open is what the generator holds: nothing of a job, at most one browser and process.\<close>

definition owns :: "'b generator \<Rightarrow> ('b, 'p, 's) rod_call list \<Rightarrow> bool" where
  "owns g l \<longleftrightarrow> picked opened l = picked closed l \<and> picked streamed l = picked stream_closed l
     \<and> picked began l = picked cancelled l
     \<and> picked connected l = picked browser_closed l + (case browserInst g of None \<Rightarrow> {#} | Some b \<Rightarrow> {#b#})
     \<and> picked launched l = picked killed l + (case g_cleanup g of Some (Kill u) \<Rightarrow> {#u#} | _ \<Rightarrow> {#})
     \<and> (browserInst g = None \<longleftrightarrow> g_cleanup g = None)"

datatype gen_op = Generate ctx string | Shut

fun gen_step ::
    "('w, 'b, 'p, 's) rod \<Rightarrow> string \<Rightarrow> gen_op \<Rightarrow> 'b generator \<times> 'w \<Rightarrow> 'b generator \<times> 'w" where
  "gen_step R bin (Generate c url) (g, w) = (case GeneratePDF R bin c url g w of (g', w', _) \<Rightarrow> (g', w'))"
| "gen_step R bin Shut (g, w) = CloseBrowser R g w"

lemma logged_simps [simp]:
  "rod_with_timeout (logged R) c d (w, l) = (let r = rod_with_timeout R c d w in ((fst r, l @ [Began (snd r)]), snd r))"
  "rod_cancel (logged R) c (w, l) = (rod_cancel R c w, l @ [Cancelled c])"
  "rod_look_path (logged R) (w, l) = rod_look_path R w"
  "rod_launch (logged R) c bin (w, l) = (let r = rod_launch R c bin w in ((fst r, l @ log_of Launched r), snd r))"
  "rod_kill (logged R) u (w, l) = (rod_kill R u w, l @ [Killed u])"
  "rod_connect (logged R) c u (w, l) = (let r = rod_connect R c u w in ((fst r, l @ log_of Connected r), snd r))"
  "rod_close (logged R) b (w, l) = (rod_close R b w, l @ [BrowserClosed b])"
  "rod_page (logged R) b c url (w, l) = (let r = rod_page R b c url w in ((fst r, l @ log_of Opened r), snd r))"
  "rod_wait_load (logged R) p c (w, l) = (let r = rod_wait_load R p c w in ((fst r, l), snd r))"
  "rod_pdf (logged R) p c (w, l) = (let r = rod_pdf R p c w in ((fst r, l @ log_of Streamed r), snd r))"
  "rod_read (logged R) s (w, l) = (let r = rod_read R s w in ((fst r, l), snd r))"
  "rod_stream_close (logged R) s (w, l) = (rod_stream_close R s w, l @ [StreamClosed s])"
  "rod_page_close (logged R) p (w, l) = (rod_page_close R p w, l @ [Closed p])"
  by (simp_all add: logged_def Let_def split: prod.split)

lemma render_page_log:
  assumes "render_page (logged R) b c url (w, l) = ((w', l'), res)"
  shows "l' = l \<or> (\<exists>p. l' = l @ [Opened p, Closed p])
    \<or> (\<exists>p s. l' = l @ [Opened p, Streamed s, StreamClosed s, Closed p])"
  using assms by (auto simp: render_page_def Let_def split: prod.splits sum.splits option.splits)

lemma run_cleanup_log:
  "run_cleanup (logged R) cl (w, l) = (run_cleanup R cl w, l @ (case cl of Nothing \<Rightarrow> [] | Kill u \<Rightarrow> [Killed u]))"
  by (cases cl) simp_all

lemma browserControlURL_log:
  assumes "browserControlURL (logged R) bin c g (w, l) = ((w', l'), res)"
  shows "(\<exists>e. res = Inl e \<and> l' = l) \<or> (\<exists>u. res = Inr (u, Nothing) \<and> l' = l)
    \<or> (\<exists>u. res = Inr (u, Kill u) \<and> l' = l @ [Launched u])"
  using assms by (auto simp: browserControlURL_def Let_def split: if_splits prod.splits sum.splits)

lemma ensureBrowser_log:
  assumes run: "ensureBrowser (logged R) bin c g (w, l) = (g', (w', l'), res)" and own: "owns g m"
  shows "\<exists>k. l' = l @ k \<and> owns g' (m @ k)"
proof (cases "browserInst g")
  case (Some b)
  then show ?thesis
    using run own by (auto simp: ensureBrowser_def)
next
  case None
  obtain w1 l1 r where url: "browserControlURL (logged R) bin c g (w, l) = ((w1, l1), r)"
    by (metis prod.exhaust)
  from browserControlURL_log [OF url] show ?thesis
    using run own None url
    by (auto simp: ensureBrowser_def run_cleanup_log owns_def Let_def
        split: prod.splits sum.splits cleanup.splits option.splits)
qed

lemma owns_job:
  assumes "owns g' (m @ k)"
    and "j = [] \<or> (\<exists>p. j = [Opened p, Closed p])
      \<or> (\<exists>p s. j = [Opened p, Streamed s, StreamClosed s, Closed p])"
  shows "owns g' (m @ Began c # k @ j @ [Cancelled c])"
  using assms by (auto simp: owns_def)

lemma GeneratePDF_owns:
  assumes own: "owns g l" and run: "GeneratePDF (logged R) bin c0 url g (w, l) = (g', (w', l'), res)"
  shows "owns g' l'"
proof -
  define c where "c = snd (rod_with_timeout R c0 (g_timeout g) w)"
  define w1 where "w1 = fst (rod_with_timeout R c0 (g_timeout g) w)"
  obtain g2 w2 l2 r where boot: "ensureBrowser (logged R) bin c g (w1, l @ [Began c]) = (g2, (w2, l2), r)"
    by (metis prod.exhaust)
  from ensureBrowser_log [OF boot own] obtain k
    where l2: "l2 = (l @ [Began c]) @ k" and own2: "owns g2 (l @ k)" by blast
  show ?thesis
  proof (cases r)
    case (Inl e)
    then show ?thesis
      using run boot l2 owns_job [OF own2, of "[]" c]
      by (auto simp: GeneratePDF_def c_def w1_def Let_def)
  next
    case (Inr b)
    obtain w3 l3 out where page: "render_page (logged R) b c url (w2, l2) = ((w3, l3), out)"
      by (metis prod.exhaust)
    from render_page_log [OF page] obtain j where "l3 = l2 @ j"
      "j = [] \<or> (\<exists>p. j = [Opened p, Closed p]) \<or> (\<exists>p s. j = [Opened p, Streamed s, StreamClosed s, Closed p])"
      by (metis append_Nil2)
    with owns_job [OF own2 this(2), of c] show ?thesis
      using run boot l2 page Inr by (auto simp: GeneratePDF_def c_def w1_def Let_def)
  qed
qed

lemma CloseBrowser_owns:
  assumes "owns g l" and "CloseBrowser (logged R) g (w, l) = (g', (w', l'))"
  shows "owns g' l' \<and> browserInst g' = None"
  using assms
  by (auto simp: CloseBrowser_def owns_def run_cleanup_log Let_def split: option.splits cleanup.splits)

lemma gen_step_owns:
  assumes "owns g l" and "gen_step (logged R) bin op (g, (w, l)) = (g', (w', l'))"
  shows "owns g' l'"
  using assms
  by (cases op) (auto dest: GeneratePDF_owns CloseBrowser_owns split: prod.splits)

definition gen_run ::
    "('w, 'b, 'p, 's) rod \<Rightarrow> string \<Rightarrow> gen_op list \<Rightarrow> 'b generator \<times> 'w \<Rightarrow> 'b generator \<times> 'w" where
  "gen_run R bin ops s = fold (gen_step R bin) ops s"

lemma gen_run_owns:
  "owns g l \<Longrightarrow> gen_run (logged R) bin ops (g, (w, l)) = (g', (w', l')) \<Longrightarrow> owns g' l'"
proof (induction ops arbitrary: g w l)
  case Nil
  then show ?case by (simp add: gen_run_def)
next
  case (Cons op ops)
  obtain g1 w1 l1 where s: "gen_step (logged R) bin op (g, (w, l)) = (g1, (w1, l1))"
    by (metis prod.exhaust)
  show ?case
    using Cons.IH [OF gen_step_owns [OF Cons.prems(1) s]] Cons.prems(2) s by (simp add: gen_run_def)
qed

text \<open>C24: Whatever jobs are rendered and whenever the generator is shut, whatever the browser answers:
  every page opened was closed, every stream closed, every job's context cancelled; the browsers
  not yet closed are the one the generator holds, if any, the processes not yet killed are the one
  its clean-up would kill, and after a shut-down nothing is left.\<close>

theorem generator_owns_resources:
  assumes "gen_run (logged R) bin ops (NewGenerator sec url, (w, [])) = (g, (w', l))"
  shows "picked opened l = picked closed l \<and> picked streamed l = picked stream_closed l
    \<and> picked began l = picked cancelled l
    \<and> picked connected l = picked browser_closed l + (case browserInst g of None \<Rightarrow> {#} | Some b \<Rightarrow> {#b#})
    \<and> picked launched l = picked killed l + (case g_cleanup g of Some (Kill u) \<Rightarrow> {#u#} | _ \<Rightarrow> {#})
    \<and> (case CloseBrowser (logged R) g (w', l) of (g2, _, l2) \<Rightarrow>
         browserInst g2 = None \<and> picked connected l2 = picked browser_closed l2
         \<and> picked launched l2 = picked killed l2)"
proof -
  have "owns (NewGenerator sec url) []" by (simp add: owns_def NewGenerator_def)
  from gen_run_owns [OF this assms] have own: "owns g l" .
  obtain g2 w2 l2 where shut: "CloseBrowser (logged R) g (w', l) = (g2, (w2, l2))" by (metis prod.exhaust)
  from CloseBrowser_owns [OF own shut] have "owns g2 l2" "browserInst g2 = None" by simp_all
  with own shut show ?thesis by (simp add: owns_def)
qed

text \<open>A browser that fails to print the second page.\<close>

definition demo_rod :: "(nat, nat, nat, nat) rod" where
  "demo_rod =
     \<lparr>rod_with_timeout = (\<lambda>c d w. (w + 1, w)), rod_cancel = (\<lambda>c w. w), rod_look_path = (\<lambda>w. ''''),
      rod_launch = (\<lambda>c p w. (w + 1, Inr ''ws'')), rod_kill = (\<lambda>u w. w),
      rod_connect = (\<lambda>c u w. (w + 1, Inr w)), rod_close = (\<lambda>b w. w),
      rod_page = (\<lambda>b c u w. (w + 1, Inr w)),
      rod_wait_load = (\<lambda>p c w. (w + 1, None)),
      rod_pdf = (\<lambda>p c w. (w + 1, if w < 6 then Inr w else Inl (ErrNew ''crashed''))),
      rod_read = (\<lambda>s w. (w, Inr [])), rod_stream_close = (\<lambda>s w. w), rod_page_close = (\<lambda>p w. w)\<rparr>"

theorem generator_owns_resources_witness:
  "case gen_run (logged demo_rod) '''' [Generate 0 ''a'', Generate 0 ''b''] (NewGenerator 0 '''', (0, []))
   of (g, w, l) \<Rightarrow>
     l = [Began 0, Launched ''ws'', Connected 2, Opened 3, Streamed 5, StreamClosed 5, Closed 3,
          Cancelled 0, Began 6, Opened 7, Closed 7, Cancelled 6]
     \<and> picked opened l = picked closed l"
proof -
  let ?r = "gen_run (logged demo_rod) '''' [Generate 0 ''a'', Generate 0 ''b''] (NewGenerator 0 '''', (0, []))"
  have r: "?r = (fst ?r, (fst (snd ?r), snd (snd ?r)))" by simp
  from generator_owns_resources [OF r] have "picked opened (snd (snd ?r)) = picked closed (snd (snd ?r))"
    by (rule conjunct1)
  moreover have "snd (snd ?r) = [Began 0, Launched ''ws'', Connected 2, Opened 3, Streamed 5, StreamClosed 5,
     Closed 3, Cancelled 0, Began 6, Opened 7, Closed 7, Cancelled 6]"
    by code_simp
  ultimately show ?thesis by (subst r) simp
qed

section \<open>A lost browser\<close>

text \<open>The browser is never replaced: once the browser the generator holds opens no more pages (its
  process crashed, the remote end dropped the connection), every later job fails with
  \<open>open page\<close>, whatever the library could launch or connect to, until the generator is shut.\<close>

theorem lost_browser_is_kept:
  assumes held: "browserInst g = Some b"
    and lost: "\<And>c url w. \<exists>e. snd (rod_page R b c url w) = Inl e"
    and jobs: "\<forall>op \<in> set ops. op \<noteq> Shut"
  shows "browserInst (fst (gen_run R bin ops (g, w))) = Some b
    \<and> (\<exists>e. snd (snd (GeneratePDF R bin c url (fst (gen_run R bin ops (g, w))) w')) = Inl (ErrWrap ''open page'' e))"
proof -
  have one: "fst (gen_step R bin op (g, v)) = g" if "op \<noteq> Shut" for op v
    using that held by (cases op) (simp_all add: GeneratePDF_def ensureBrowser_def split: prod.split)
  have "fst (gen_run R bin ops (g, w)) = g"
    using jobs
  proof (induction ops arbitrary: w)
    case Nil
    then show ?case by (simp add: gen_run_def)
  next
    case (Cons op ops)
    then have "gen_step R bin op (g, w) = (g, snd (gen_step R bin op (g, w)))"
      using one [of op w] by (metis list.set_intros(1) prod.collapse)
    then show ?case
      using Cons by (metis fold_simps(2) gen_run_def list.set_intros(2))
  qed
  moreover have "\<exists>e. snd (snd (GeneratePDF R bin c url g w')) = Inl (ErrWrap ''open page'' e)"
  proof -
    obtain w1 c1 where "rod_with_timeout R c (g_timeout g) w' = (w1, c1)" by (metis prod.exhaust)
    moreover obtain e where "snd (rod_page R b c1 url w1) = Inl e" using lost by blast
    then obtain w2 where "rod_page R b c1 url w1 = (w2, Inl e)" by (metis prod.collapse)
    ultimately show ?thesis
      using held by (simp add: GeneratePDF_def ensureBrowser_def render_page_def)
  qed
  ultimately show ?thesis using held by simp
qed

definition dead_rod :: "(nat, nat, nat, nat) rod" where
  "dead_rod = demo_rod\<lparr>rod_page := (\<lambda>b c u w. (w, if b = 2 then Inl (ErrNew ''closed'') else Inr w))\<rparr>"

theorem lost_browser_is_kept_witness:
  "\<exists>e. snd (snd (GeneratePDF dead_rod '''' 0 ''c''
     (fst (gen_run dead_rod '''' [Generate 0 ''b'']
        ((NewGenerator 0 '''')\<lparr>browserInst := Some 2, g_cleanup := Some (Kill ''ws'')\<rparr>, 9))) 9))
     = Inl (ErrWrap ''open page'' e)"
  by (rule lost_browser_is_kept [where b = 2, THEN conjunct2])
    (simp_all add: dead_rod_def NewGenerator_def)

end
