(* ===== verification/Server_Main.thy ===== *)
theory Server_Main
  imports Http_Stack Redis_Shared S3_Store Generator Worker
begin

text \<open>
  The program's start and stop (\<open>cmd/server/main.go\<close>), its configuration (\<open>config.go\<close>), the log
  level (\<open>logging.go\<close>) and the start and the waiting of the worker pool (\<open>worker.go\<close>). The library
  that reads the environment into the configuration, the network to Redis and the HTTP client of S3
  are parameters.
\<close>

section \<open>Configuration\<close>



record config =
  Port :: int
  NumWorkers :: int
  QueueSize :: int
  PageTimeout :: int
  ResultTTL :: int
  ChromeWSURL :: string
  LogLevel :: string
  QueueBackend :: string
  StorageBackend :: string
  RedisURL :: string
  RedisKeyPrefix :: string
  RedisVisibilityTimeout :: int
  BlobBackend :: string
  S3Endpoint :: string
  S3AccessKeyID :: string
  S3SecretAccessKey :: string
  S3Bucket :: string
  S3Region :: string
  S3UseSSL :: bool
  RequireKey :: bool
  WebhookURL :: string
  WebhookTimeout :: int
  MaxRetries :: int
  RetryBackoffMS :: int

text \<open>The tags of the fields: variable and default, in the order of the fields.\<close>

definition config_tags :: "(string \<times> string) list" where
  "config_tags =
     [(''PORT'', ''8080''), (''NUM_WORKERS'', ''0''), (''QUEUE_SIZE'', ''100''), (''PAGE_TIMEOUT'', ''30''),
      (''RESULT_TTL'', ''3600''), (''CHROME_WS_URL'', ''''), (''LOG_LEVEL'', ''info''),
      (''QUEUE_BACKEND'', ''memory''), (''STORAGE_BACKEND'', ''memory''),
      (''REDIS_URL'', ''redis://localhost:6379/0''), (''REDIS_KEY_PREFIX'', ''chromaflow''),
      (''REDIS_VISIBILITY_TIMEOUT'', ''300''), (''BLOB_BACKEND'', ''memory''),
      (''S3_ENDPOINT'', ''localhost:9000''), (''S3_ACCESS_KEY_ID'', ''minioadmin''),
      (''S3_SECRET_ACCESS_KEY'', ''minioadmin''), (''S3_BUCKET'', ''chromaflow-pdfs''),
      (''S3_REGION'', ''us-east-1''), (''S3_USE_SSL'', ''false''), (''REQUIRE_IDEMPOTENCY_KEY'', ''false''),
      (''WEBHOOK_URL'', ''''), (''WEBHOOK_TIMEOUT'', ''10''), (''RENDER_MAX_RETRIES'', ''1''),
      (''RENDER_RETRY_BACKOFF_MS'', ''500'')]"

text \<open>\<open>None\<close> is the exit after a configuration that cannot be parsed.\<close>

definition Load :: "((string \<times> string) list \<Rightarrow> config result) \<Rightarrow> int \<Rightarrow> config option" where
  "Load parse num_cpu =
     (case parse config_tags of
        Inl e \<Rightarrow> None
      | Inr cfg \<Rightarrow>
          Some (if NumWorkers cfg = 0 then cfg\<lparr>NumWorkers := to_int64 (num_cpu * 2)\<rparr> else cfg))"

section \<open>Back-ends\<close>

datatype 'c queue_backend = MemQueue mem_queue | RedisBackedQueue "'c client redis_queue" "'c client"

definition unsupported :: "(nat \<Rightarrow> bool) \<Rightarrow> string \<Rightarrow> string \<Rightarrow> go_error" where
  "unsupported is_print name value = ErrNew (''unsupported '' @ name @ '' '' @ go_quote is_print value)"

text \<open>The outer \<open>None\<close> is the panic of a channel of negative size.\<close>

definition buildQueue :: "(nat \<Rightarrow> bool) \<Rightarrow> 'c net \<Rightarrow> config \<Rightarrow> 'c queue_backend result option" where
  "buildQueue is_print net cfg =
     (let backend = to_lower (QueueBackend cfg)
      in if backend = '''' \<or> backend = ''memory''
         then map_option (\<lambda>q. Inr (MemQueue q)) (NewMemoryQueue (QueueSize cfg))
         else if backend = ''redis''
         then Some (case NewRedisQueue net (RedisURL cfg) (RedisKeyPrefix cfg) (QueueSize cfg)
                           (to_int64 (RedisVisibilityTimeout cfg * second)) of
                      Inl e \<Rightarrow> Inl e | Inr (q, c) \<Rightarrow> Inr (RedisBackedQueue q c))
         else Some (Inl (unsupported is_print ''QUEUE_BACKEND'' (QueueBackend cfg))))"



section \<open>The worker pool\<close>


text \<open>
  \<open>Wait\<close> selects between the end of its context and the end of the last worker; when both are
  ready either may be taken. \<open>None\<close> means it is still waiting.
\<close>

definition pool_Wait :: "go_error option \<Rightarrow> nat \<Rightarrow> bool \<Rightarrow> go_error option option" where
  "pool_Wait ctx_err running prefer_ctx =
     (case ctx_err of
        None \<Rightarrow> if running = 0 then Some None else None
      | Some e \<Rightarrow> if running = 0 \<and> \<not> prefer_ctx then Some None else Some (Some e))"

section \<open>Start\<close>




section \<open>Stop\<close>

text \<open>
  After a signal: the server is shut down; if that fails the process exits at once, without the
  deferred calls. Otherwise the workers are cancelled and waited for, and the deferred calls close
  the generator. The result is the exit status with the generator and its world.
\<close>

definition stop_service ::
    "('w, 'b, 'p, 's) rod \<Rightarrow> go_error option \<Rightarrow> 'b generator \<times> 'w \<Rightarrow> nat \<times> 'b generator \<times> 'w" where
  "stop_service R shutdown_err s =
     (case shutdown_err of
        Some _ \<Rightarrow> (1, s)
      | None \<Rightarrow> (0, CloseBrowser R (fst s) (snd s)))"


section \<open>What a started service satisfies\<close>











text \<open>C39: \<open>QUEUE_SIZE\<close> means different things to the two queues. At 0 the memory queue, after whatever
  pushes and pops, never holds a job: it takes one exactly when a worker is blocked in \<open>Pop\<close>, to whom
  it is handed, and refuses every other one, while the Redis queue takes any number; below 0 the
  memory queue is a panic at start-up instead of an error, while the Redis queue still has no limit.\<close>

theorem queue_size_zero_diverges:
  assumes mem: "to_lower (QueueBackend m) = ''memory''" and red: "to_lower (QueueBackend r) = ''redis''"
    and none: "QueueSize m \<le> 0" "QueueSize r \<le> 0"
  shows "(QueueSize m = 0 \<longrightarrow> (\<exists>q. buildQueue is_print net m = Some (Inr (MemQueue q))
            \<and> (\<forall>ops q' acc out j. mq_run ops q = (q', acc, out) \<longrightarrow>
                 buf q' = [] \<and> (snd (mq_Push j q') = None \<longleftrightarrow> 0 < recvq q')
                 \<and> (recvq q' = 0 \<longrightarrow> mq_Push j q' = (q', Some ErrQueueFull))
                 \<and> (0 < recvq q' \<longrightarrow> handed (fst (mq_Push j q')) = handed q' @ [j]))))
    \<and> (QueueSize m < 0 \<longrightarrow> buildQueue is_print net m = None)
    \<and> (\<forall>Q c. buildQueue is_print net r = Some (Inr (RedisBackedQueue Q c))
         \<longrightarrow> (\<forall>uuid j s. rq_Push Q uuid j s = rq_enqueue Q uuid j s))"
proof (intro conjI impI allI)
  let ?q = "\<lparr>buf = [], capacity = 0, recvq = 0, handed = []\<rparr>"
  have run: "buf q' = [] \<and> capacity q' = 0" if "mq_run ops ?q = (q', acc, out)" for ops q' acc out
    using mq_run_fifo_wf [OF _ that] by (auto simp: mq_wf_def)
  show "\<exists>q. buildQueue is_print net m = Some (Inr (MemQueue q))
            \<and> (\<forall>ops q' acc out j. mq_run ops q = (q', acc, out) \<longrightarrow>
                 buf q' = [] \<and> (snd (mq_Push j q') = None \<longleftrightarrow> 0 < recvq q')
                 \<and> (recvq q' = 0 \<longrightarrow> mq_Push j q' = (q', Some ErrQueueFull))
                 \<and> (0 < recvq q' \<longrightarrow> handed (fst (mq_Push j q')) = handed q' @ [j]))"
    if "QueueSize m = 0"
  proof -
    have "buildQueue is_print net m = Some (Inr (MemQueue ?q))"
      using that mem by (simp add: buildQueue_def NewMemoryQueue_def)
    moreover have "buf q' = [] \<and> (snd (mq_Push j q') = None \<longleftrightarrow> 0 < recvq q')
        \<and> (recvq q' = 0 \<longrightarrow> mq_Push j q' = (q', Some ErrQueueFull))
        \<and> (0 < recvq q' \<longrightarrow> handed (fst (mq_Push j q')) = handed q' @ [j])"
      if "mq_run ops ?q = (q', acc, out)" for ops q' acc out j
      using run [OF that] by (simp add: mq_Push_def)
    ultimately show ?thesis by blast
  qed
  show "buildQueue is_print net m = None" if "QueueSize m < 0"
    using that mem by (simp add: buildQueue_def NewMemoryQueue_def)
  fix Q c uuid j s
  assume "buildQueue is_print net r = Some (Inr (RedisBackedQueue Q c))"
  then have "rq_capacity Q = QueueSize r"
    using red by (auto simp: buildQueue_def NewRedisQueue_def Let_def split: sum.splits)
  then show "rq_Push Q uuid j s = rq_enqueue Q uuid j s" using none by (simp add: rq_Push_def)
qed

text \<open>An orderly stop closes the browser and kills its process; a shutdown that times out does
  neither, since \<open>os.Exit\<close> skips the deferred calls: what the generator launched goes on running.\<close>

theorem failed_shutdown_leaks_browser:
  assumes "gen_run (logged R) bin ops (NewGenerator sec url, (w, [])) = (g, (w', l))"
    and "stop_service (logged R) err (g, (w', l)) = (status, g', (w2, l2))"
  shows "(err = None \<longrightarrow> status = 0 \<and> picked launched l2 = picked killed l2
            \<and> picked connected l2 = picked browser_closed l2)
    \<and> (\<forall>e u. err = Some e \<and> g_cleanup g = Some (Kill u) \<longrightarrow>
         status = 1 \<and> picked launched l2 = picked killed l2 + {#u#})"
proof -
  have "owns (NewGenerator sec url) []" by (simp add: owns_def NewGenerator_def)
  from gen_run_owns [OF this assms(1)] have own: "owns g l" .
  show ?thesis
  proof (cases err)
    case None
    then have shut: "CloseBrowser (logged R) g (w', l) = (g', (w2, l2))" "status = 0"
      using assms(2) by (simp_all add: stop_service_def)
    from CloseBrowser_owns [OF own shut(1)] have "owns g' l2" "browserInst g' = None" by simp_all
    then show ?thesis using None shut(2) by (simp add: owns_def)
  next
    case (Some e)
    then show ?thesis using own assms(2) by (auto simp: stop_service_def owns_def)
  qed
qed


section \<open>Examples\<close>

definition demo_config :: config where
  "demo_config =
     \<lparr>Port = 8080, NumWorkers = 2, QueueSize = 0, PageTimeout = 30, ResultTTL = 3600, ChromeWSURL = '''',
      LogLevel = ''WARN '', QueueBackend = ''Redis'', StorageBackend = '''', RedisURL = ''redis://h'',
      RedisKeyPrefix = '''', RedisVisibilityTimeout = 0, BlobBackend = ''memory'', S3Endpoint = '''',
      S3AccessKeyID = '''', S3SecretAccessKey = '''', S3Bucket = '''', S3Region = '''', S3UseSSL = False,
      RequireKey = False, WebhookURL = '''', WebhookTimeout = 0, MaxRetries = -1, RetryBackoffMS = 0\<rparr>"

lemma demo_client: "\<exists>c. NewClient ''redis://h'' = Inr c"
proof -
  have "(case (NewClient ''redis://h'' :: 'c client result) of Inl _ \<Rightarrow> False | Inr _ \<Rightarrow> True)" by code_simp
  then show ?thesis by (auto split: sum.splits)
qed

lemma demo_backend: "to_lower ''Redis'' = ''redis''" "to_lower ''memory'' = ''memory''" by code_simp+


theorem queue_size_zero_diverges_witness:
  "\<forall>net :: 'c net. (\<exists>q. buildQueue (\<lambda>_. False) net (demo_config\<lparr>QueueBackend := ''memory''\<rparr>) = Some (Inr (MemQueue q))
        \<and> (\<forall>j. mq_Push j q = (q, Some ErrQueueFull))
        \<and> (\<forall>j. snd (mq_Push j (fst (mq_run [OpPop False False] q))) = None))
     \<and> (\<exists>Q c. buildQueue (\<lambda>_. False) net demo_config = Some (Inr (RedisBackedQueue Q c))
          \<and> (\<forall>uuid j s. rq_Push Q uuid j s = rq_enqueue Q uuid j s))"
proof
  fix net :: "'c net"
  let ?m = "demo_config\<lparr>QueueBackend := ''memory''\<rparr>"
  have h: "to_lower (QueueBackend ?m) = ''memory''" "to_lower (QueueBackend demo_config) = ''redis''"
    "QueueSize ?m \<le> 0" "QueueSize demo_config \<le> 0" "QueueSize ?m = 0"
    by (simp_all add: demo_config_def demo_backend del: to_lower.simps)
  obtain c :: "'c client" where c: "NewClient ''redis://h'' = Inr c" using demo_client by blast
  obtain Q where Q: "buildQueue (\<lambda>_. False) net demo_config = Some (Inr (RedisBackedQueue Q c))"
    by (simp add: buildQueue_def demo_config_def demo_backend NewRedisQueue_def c del: to_lower.simps)
  let ?q = "\<lparr>buf = [], capacity = 0, recvq = 0, handed = []\<rparr>"
  have q: "buildQueue (\<lambda>_. False) net ?m = Some (Inr (MemQueue ?q))"
    using h(1,5) by (simp add: buildQueue_def NewMemoryQueue_def)
  note all = queue_size_zero_diverges [OF h(1-4), of "\<lambda>_. False" net]
  obtain q0 where q0: "buildQueue (\<lambda>_. False) net ?m = Some (Inr (MemQueue q0))"
    "\<forall>ops q' acc out j. mq_run ops q0 = (q', acc, out) \<longrightarrow> buf q' = []
       \<and> (snd (mq_Push j q') = None \<longleftrightarrow> 0 < recvq q') \<and> (recvq q' = 0 \<longrightarrow> mq_Push j q' = (q', Some ErrQueueFull))
       \<and> (0 < recvq q' \<longrightarrow> handed (fst (mq_Push j q')) = handed q' @ [j])"
    using conjunct1 [OF all] h(5) by blast
  have "q0 = ?q" using q0(1) q by simp
  then have zero: "mq_run ops ?q = (q', acc, out) \<Longrightarrow> (snd (mq_Push j q') = None \<longleftrightarrow> 0 < recvq q')
      \<and> (recvq q' = 0 \<longrightarrow> mq_Push j q' = (q', Some ErrQueueFull))" for ops q' acc out j
    using q0(2) by blast
  have "mq_run [] ?q = (?q, [], [])" "mq_run [OpPop False False] ?q = (?q\<lparr>recvq := 1\<rparr>, [], [])"
    by (simp_all add: mq_Pop_def)
  from zero [OF this(1)] zero [OF this(2)] this(2)
  have pq: "mq_Push j ?q = (?q, Some ErrQueueFull)" "snd (mq_Push j (fst (mq_run [OpPop False False] ?q))) = None" for j
    by simp_all
  show "(\<exists>q. buildQueue (\<lambda>_. False) net ?m = Some (Inr (MemQueue q))
        \<and> (\<forall>j. mq_Push j q = (q, Some ErrQueueFull))
        \<and> (\<forall>j. snd (mq_Push j (fst (mq_run [OpPop False False] q))) = None))
     \<and> (\<exists>Q c. buildQueue (\<lambda>_. False) net demo_config = Some (Inr (RedisBackedQueue Q c))
          \<and> (\<forall>uuid j s. rq_Push Q uuid j s = rq_enqueue Q uuid j s))"
    using pq q Q conjunct2 [OF conjunct2 [OF all]] by blast
qed

theorem failed_shutdown_leaks_browser_witness:
  "case gen_run (logged demo_rod) '''' [Generate 0 ''a''] (NewGenerator 0 '''', (0, [])) of (g, w, l) \<Rightarrow>
     g_cleanup g = Some (Kill ''ws'')
     \<and> (case stop_service (logged demo_rod) (Some ErrDeadlineExceeded) (g, (w, l)) of (status, g', w2, l2) \<Rightarrow>
          status = 1 \<and> picked launched l2 = picked killed l2 + {#''ws''#})"
proof -
  let ?r = "gen_run (logged demo_rod) '''' [Generate 0 ''a''] (NewGenerator 0 '''', (0, []))"
  obtain g w l where r: "?r = (g, (w, l))" by (metis prod.exhaust)
  have "g_cleanup (fst ?r) = Some (Kill ''ws'')" by code_simp
  then have g: "g_cleanup g = Some (Kill ''ws'')" by (simp add: r)
  obtain status g' w2 l2 where s: "stop_service (logged demo_rod) (Some ErrDeadlineExceeded) (g, (w, l)) = (status, g', (w2, l2))"
    by (metis prod.exhaust)
  show ?thesis using failed_shutdown_leaks_browser [OF r s] g r s by simp
qed

end
