(* ===== verification/Load_Test.thy ===== *)
theory Load_Test
  imports Api_Json
begin

text \<open>
  The load test tool (\<open>tools/loadtest/main.go\<close>): the request one submission makes, what counts as a
  failure, and how the loop over the requests hands them to the submitters or, once the time is up,
  skips them.
\<close>

section \<open>One submission\<close>

record load_post =
  lr_url :: string
  lr_type :: string
  lr_text :: string

definition load_key :: "int \<Rightarrow> nat \<Rightarrow> string" where
  "load_key unix_nano n = ''load-'' @ itoa unix_nano @ ''-'' @ itoa_nat n"

definition load_request :: "string \<Rightarrow> string \<Rightarrow> int \<Rightarrow> nat \<Rightarrow> load_post" where
  "load_request baseURL targetURL unix_nano n =
     \<lparr>lr_url = baseURL @ ''/pdf'', lr_type = ''application/json'',
      lr_text = json_object [text_field ''idempotency_key'' (load_key unix_nano n), text_field ''url'' targetURL]\<rparr>"

text \<open>The transport answers with a status and a body; \<open>None\<close> is success.\<close>

definition load_submit ::
    "(load_post \<Rightarrow> (int \<times> string) result) \<Rightarrow> string \<Rightarrow> string \<Rightarrow> int \<Rightarrow> nat \<Rightarrow> go_error option" where
  "load_submit transport baseURL targetURL unix_nano n =
     (case Parse (baseURL @ ''/pdf'') of
        None \<Rightarrow> Some (ErrNew ''parse'')
      | Some _ \<Rightarrow>
          (case transport (load_request baseURL targetURL unix_nano n) of
             Inl e \<Rightarrow> Some e
           | Inr (status, reply) \<Rightarrow>
               if status \<noteq> 202 then Some (ErrNew (''status '' @ itoa status @ '': '' @ take 1024 reply))
               else None))"

section \<open>The run\<close>

text \<open>
  The dispatcher's next request, the requests in the submitters' hands, the two counters, the
  requests it skipped, and whether the time is up. Submitters take from an unbuffered channel, so a
  request is handed over when a submitter is free; \<open>break\<close> leaves the \<open>select\<close> only.
\<close>

record load_state =
  ls_next :: nat
  ls_busy :: "nat list"
  ls_ok :: nat
  ls_failed :: nat
  ls_skipped :: nat
  ls_expired :: bool

definition load_init :: load_state where
  "load_init = \<lparr>ls_next = 0, ls_busy = [], ls_ok = 0, ls_failed = 0, ls_skipped = 0, ls_expired = False\<rparr>"

datatype load_event = Expire | Hand | Skip | Finish nat "go_error option"

fun load_step :: "nat \<Rightarrow> nat \<Rightarrow> load_event \<Rightarrow> load_state \<Rightarrow> load_state option" where
  "load_step requests concurrency Expire s = Some (s\<lparr>ls_expired := True\<rparr>)"
| "load_step requests concurrency Hand s =
     (if ls_next s < requests \<and> length (ls_busy s) < concurrency
      then Some (s\<lparr>ls_next := Suc (ls_next s), ls_busy := ls_busy s @ [ls_next s]\<rparr>) else None)"
| "load_step requests concurrency Skip s =
     (if ls_next s < requests \<and> ls_expired s
      then Some (s\<lparr>ls_next := Suc (ls_next s), ls_skipped := Suc (ls_skipped s)\<rparr>) else None)"
| "load_step requests concurrency (Finish n res) s =
     (if n \<in> set (ls_busy s)
      then Some (case res of
                   None \<Rightarrow> s\<lparr>ls_busy := remove1 n (ls_busy s), ls_ok := Suc (ls_ok s)\<rparr>
                 | Some e \<Rightarrow> s\<lparr>ls_busy := remove1 n (ls_busy s), ls_failed := Suc (ls_failed s)\<rparr>)
      else None)"

fun load_run :: "nat \<Rightarrow> nat \<Rightarrow> load_event list \<Rightarrow> load_state \<Rightarrow> load_state option" where
  "load_run requests concurrency [] s = Some s"
| "load_run requests concurrency (e # es) s =
     Option.bind (load_step requests concurrency e s) (load_run requests concurrency es)"

text \<open>The channel is closed and the submitters are done; a failure counted is a panic.\<close>

definition load_done :: "nat \<Rightarrow> load_state \<Rightarrow> bool" where
  "load_done requests s \<longleftrightarrow> ls_next s = requests \<and> ls_busy s = []"

definition load_panics :: "load_state \<Rightarrow> bool" where
  "load_panics s \<longleftrightarrow> 0 < ls_failed s"

section \<open>What the report accounts for\<close>

lemma load_step_accounts:
  assumes "load_step requests concurrency e s = Some s'"
    and "ls_next s = ls_ok s + ls_failed s + ls_skipped s + length (ls_busy s)"
  shows "ls_next s' = ls_ok s' + ls_failed s' + ls_skipped s' + length (ls_busy s')"
  using assms(1)
proof (cases e)
  case (Finish n res)
  then have "n \<in> set (ls_busy s)" using assms(1) by (simp split: if_splits)
  then have "0 < length (ls_busy s)" by (rule length_pos_if_in_set)
  then show ?thesis using assms Finish by (auto simp: length_remove1 split: if_splits option.splits)
qed (use assms in \<open>auto split: if_splits\<close>)

lemma load_run_accounts:
  "load_run requests concurrency es s = Some s' \<Longrightarrow>
     ls_next s = ls_ok s + ls_failed s + ls_skipped s + length (ls_busy s) \<Longrightarrow>
     ls_next s' = ls_ok s' + ls_failed s' + ls_skipped s' + length (ls_busy s')"
  by (induction es arbitrary: s) (auto simp: bind_eq_Some_conv dest: load_step_accounts)

lemma load_all_skipped:
  "ls_expired s \<Longrightarrow> ls_next s + k = requests \<Longrightarrow>
     load_run requests concurrency (replicate k Skip) s
       = Some (s\<lparr>ls_next := requests, ls_skipped := ls_skipped s + k\<rparr>)"
  by (induction k arbitrary: s) auto

text \<open>
  A finished run accounts for every request as submitted, failed or skipped, but reports only the
  first two: a run whose time is up at once submits nothing, counts no failure and succeeds.
\<close>

theorem load_run_accounts_all:
  "load_run requests concurrency es load_init = Some s \<Longrightarrow> load_done requests s \<Longrightarrow>
     ls_ok s + ls_failed s + ls_skipped s = requests"
  using load_run_accounts [of requests concurrency es load_init s]
  by (auto simp: load_init_def load_done_def)

theorem load_test_hides_skipped:
  "\<exists>es s. load_run requests concurrency es load_init = Some s \<and> load_done requests s
     \<and> ls_ok s = 0 \<and> \<not> load_panics s"
proof -
  let ?s = "load_init\<lparr>ls_expired := True\<rparr>" and ?es = "Expire # replicate requests Skip"
  let ?t = "?s\<lparr>ls_next := requests, ls_skipped := requests\<rparr>"
  have "load_run requests concurrency ?es load_init = Some ?t"
    using load_all_skipped [of ?s requests requests concurrency] by (simp add: load_init_def)
  moreover have "load_done requests ?t \<and> ls_ok ?t = 0 \<and> \<not> load_panics ?t"
    by (simp add: load_init_def load_done_def load_panics_def)
  ultimately show ?thesis by blast
qed
end
