(* ===== verification/Spec2Isabelle.thy ===== *)
theory Spec2Isabelle
  imports System Redis_Shared Resp Hub Dashboard S3_Properties Open_Api Server_Main Load_Test
begin

text \<open>
  ChromaFlow: an HTTP service that renders web pages to PDF (Go, \<open>src/\<close>).

  A client posts a URL to \<open>/pdf\<close>; the handler stores a pending record, puts a job on the queue and
  answers 202 with the job's id. A pool of workers takes jobs from the queue, renders them in a
  browser, stores the PDF in a blob store, writes the final record and posts a webhook. Clients
  poll or cancel the job; dashboards get the list of jobs over a WebSocket. Queue, metadata and blobs
  live in memory or in Redis and S3.

  Theories and sources (under \<open>src/internal/\<close> unless another path is given):

  \<^item> \<open>Prelude\<close>, \<open>Go_Runtime\<close>, \<open>Go_Strings\<close>, \<open>Go_Url\<close>, \<open>Go_Float\<close>, \<open>Go_Time\<close>, \<open>Go_Json\<close>, \<open>Go_Crypto\<close>,
    \<open>Json_Nested\<close>, \<open>Go_Sha256\<close>, \<open>Go_Format\<close>, \<open>Go_Mux\<close>: what the sources use of Go and its standard library: maps as
    association lists in iteration order, 64-bit integers with their wrap-around, errors, strings as
    bytes, \<open>url.Parse\<close>, double-precision rounding, RFC 3339 times, the JSON reader and writer, SHA-1
    and base64, SHA-256 and HMAC, the formats \<open>%d\<close>, \<open>%q\<close> and \<open>FormatFloat\<close>, \<open>http.ServeMux\<close>.
  \<^item> \<open>Queue_Types\<close> (\<open>queue/types.go\<close>): jobs, records, snapshots, and the interface \<open>queue.Backend\<close> with
    the contract \<open>job_queue\<close>. \<open>Memory_Queue\<close> (\<open>queue/memory.go\<close>) interprets it.
  \<^item> \<open>Store_Interface\<close> (\<open>storage/storage.go\<close>): the interface and the contracts of a store over an
    abstract store of records and idempotency keys; \<open>Memory_Storage\<close> and \<open>Storage_Properties\<close>
    (\<open>storage/memory.go\<close>) implement and refine it.
  \<^item> \<open>Blob_Store\<close> (\<open>blob/blob.go\<close>, \<open>blob/memory.go\<close>), \<open>Cancel_Registry\<close> (\<open>cancellation/registry.go\<close>),
    \<open>Webhook\<close> (\<open>webhook/notifier.go\<close>). \<open>S3_Store\<close> and \<open>S3_Properties\<close> (\<open>blob/s3.go\<close>): the signed requests
    over an HTTP client, and the store against a server that follows the S3 documentation.
  \<^item> \<open>Metrics\<close> (\<open>observability/metrics.go\<close>): counters and histograms; \<open>Prometheus\<close>: the text of a scrape
    and a reader of the exposition format.
  \<^item> \<open>Generator\<close> (\<open>pdf/generator.go\<close>): the one browser and a page per job, over the browser library's
    calls as a record of functions.
  \<^item> \<open>Worker\<close>, \<open>Worker_Properties\<close> (\<open>worker/worker.go\<close>): retries, one job from pop to webhook, the loop.
    What other goroutines do to the store in between is a function of the four points at which
    \<open>processJob\<close> touches it (\<open>pe_interf\<close>).
  \<^item> \<open>Api\<close>, \<open>Api_Properties\<close> (\<open>api/handler.go\<close>): the handlers over any store, queue and blob store.
  \<^item> \<open>Api_Json\<close> (\<open>api/handler.go\<close>): the JSON texts of requests and answers. \<open>Http_Stack\<close>: the middlewares
    (\<open>observability/request.go\<close>, \<open>observability/metrics.go\<close>), the routes and the small handlers
    (\<open>src/cmd/server/main.go\<close>, the dashboard and the WebSocket of \<open>api/handler.go\<close>), composed to one
    function \<open>serve\<close> from a request as received to the calls on its response writer. \<open>Http_Properties\<close>
    and \<open>Wire_Properties\<close> are about \<open>serve\<close>. \<open>Open_Api\<close> (\<open>api/openapi.go\<close>): the document and what
    conforms to it.
  \<^item> \<open>Server_Main\<close> (\<open>src/cmd/server/main.go\<close>, \<open>config/config.go\<close>, \<open>observability/logging.go\<close>, \<open>Start\<close> and
    \<open>Wait\<close> of \<open>worker/worker.go\<close>): configuration, choice of back-ends, start and stop. \<open>Load_Test\<close>
    (\<open>src/tools/loadtest/main.go\<close>): one submission and the loop that hands them out.
  \<^item> \<open>System\<close>: handlers and workers as interleaved goroutines, one atomic step for each locked section
    or channel operation, over the in-memory store and queue.
  \<^item> \<open>Resp\<close> (\<open>redisx/client.go\<close>): the RESP codec and the connection. \<open>Redis_Server\<close> states the documented
    laws of the commands the program sends as locale \<open>redis\<close>, with an executable server and one
    whose commands fail. \<open>Redis_Storage\<close> (\<open>storage/redis.go\<close>), \<open>Redis_Queue\<close> (\<open>queue/redis.go\<close>) and
    \<open>Redis_Shared\<close> (both on one server) rest on these laws only.
  \<^item> \<open>Hub\<close> (\<open>realtime/hub.go\<close>): the WebSocket handshake, the framing, and the interleaving of
    broadcasts with the goroutines of the dashboards. \<open>Message_Json\<close>: the JSON of a hub message
    (\<open>realtime/hub.go\<close>, \<open>queue/types.go\<close>) and of a webhook event (\<open>webhook/notifier.go\<close>), with what
    their readers get.
  \<^item> \<open>Dashboard\<close> (the template of \<open>api/handler.go\<close>): the script of the page, the document it builds,
    and its events as steps of a state; what the browser decides (printing of dates and of values that
    are not texts, its own error texts) is a record of functions.

  What is shown. Per component: the invariant of its state and the effect of each operation on
  every branch. For the stores: refinement of one abstract store, by the in-memory implementation and by
  Redis on a server that answers. For the queues: nothing lost, duplicated or reordered in
  memory; nothing lost or invented in Redis while commands succeed, and what goes wrong when they
  do not. For the wire formats (RESP, WebSocket frames, JSON, the Prometheus text, object URLs): round
  trips; for the signatures and for the multiplexer, redirects and refusals included: agreement with
  their documentation; for the answers of the eleven registered routes, 500s aside: conformance to
  the OpenAPI document; for the metrics and request ids: what every answer carries and is counted as,
  with the WebSocket upgrade, which goes around the response writer, as the stated exception; for the
  page: it shows what the hub last sent, and nothing a job says becomes markup. For the browser:
  nothing opened is left open. For the whole: in every interleaving on the in-memory back-ends an
  accepted job has a record and exactly one owner, and a completed one has its PDF; a valid submission
  can be downloaded once a worker has run. On one Redis server that answers, store and queue agree
  with the in-memory store after any interleaving, and a stored and queued job stays so until deleted
  or acknowledged. Several theorems show traces in which the code does something it does not mean to;
  they are listed as findings in the manifest.

  Bounds and fuel. \<open>readRESP\<close> runs with fuel \<open>2 * length s + 2\<close> and the JSON reader with
  \<open>2 * length s + 1\<close>: each call consumes a byte or ends, and \<open>readRESP_returns\<close> and \<open>json_fuel\<close> show
  that more fuel changes nothing. JSON nests at most 10000 levels, as in the standard library.
  Go's \<open>int\<close> is \<open>int\<close> with \<open>to_int64\<close> where it can wrap; times are nanoseconds as unbounded integers,
  texts of them have four-digit years. A blocking call that never returns is \<open>None\<close> or a
  \<open>Blocks\<close> outcome, and the rounds of a worker or of \<open>Pop\<close> are given as a list.

  \<open>serve\<close> and everything below it is one function per request; what other goroutines do to the stores
  between a request's steps is the subject of \<open>System\<close> and of \<open>pe_interf\<close>.

  Not modelled. Goroutine scheduling below the granularity of locks and channels, since the Go memory model
  makes locked sections atomic; log lines; the style sheet and the fixed markup of the
  dashboard page, a constant template whose output is a parameter of the handler;
  flags and signals; \<open>Close\<close> of the generator during a render. Chromium with its library, HTTP transport,
  the library that reads the environment, Redis and S3 themselves are parameters of the definitions.
\<close>

section \<open>From submission to download\<close>

text \<open>C1: End to end on the in-memory back-ends: a valid submission to an idle service is accepted, the
  next \<open>Pop\<close> of a worker returns exactly that job, and once the worker has processed it with a
  rendering that succeeds, \<open>GetJob\<close> answers 200 with the rendered bytes and the PDF headers.\<close>

theorem submitted_job_downloads:
  fixes a :: "(mem_storage, mem_queue, mem_blobs) api"
  assumes wf: "ms_wf (a_store a)" and idle: "a_queue a = \<lparr>buf = [], capacity = Suc n, recvq = 0, handed = []\<rparr>"
    and t: "now \<noteq> 0" "set_now \<noteq> 0" "pe_set1 env \<noteq> 0" "pe_set2 env \<noteq> 0"
    and alone: "\<And>k s. pe_interf env k s = s"
    and chk: "check_submission opts r = Inr (url, key, cb)"
    and new: "ms_view (a_store a) jobID = None" and free: "key_free key (ms_keys (a_store a))"
    and submit: "SubmitJob mem_store_ops mem_queue_ops opts jobID now set_now r a = (a1, resp)"
    and pop: "mq_Pop False prefer (a_queue a1) = (q, out)"
    and render: "generateWithRetries wopts env = (pdf, None)"
    and process: "w = processJob mem_store_ops mem_blob_ops wopts env job
          \<lparr>w_store = a_store a1, w_blobs = a_blobs a1, w_cancels = a_cancels a1,
           w_metrics = a_metrics a1, w_posts = []\<rparr>"
    and job: "job = submitted_job jobID url key cb (ctx_request_id r)"
    and ask: "path_id g = jobID"
  shows "resp = accepted jobID False \<and> out = PopReturns (Inr job) \<and> buf q = []
    \<and> snd (GetJob mem_store_ops mem_blob_ops g
              (a1\<lparr>a_store := w_store w, a_queue := q, a_blobs := w_blobs w\<rparr>))
        = \<lparr>code = 200,
           headers = [(''Content-Type'', ''application/pdf''),
                      (''Content-Disposition'', ''attachment; filename='' @ jobID @ ''.pdf'')],
           body = PdfBody pdf\<rparr>"
proof -
  let ?j = "submitted_job jobID url key cb (ctx_request_id r)"
  let ?w0 = "\<lparr>w_store = a_store a1, w_blobs = a_blobs a1, w_cancels = a_cancels a1,
           w_metrics = a_metrics a1, w_posts = []\<rparr>"
  have qwf: "mq_wf (a_queue a)" by (simp add: idle mq_wf_def)
  have push: "q_Push mem_queue_ops ?j (a_queue a) = ((a_queue a)\<lparr>buf := [?j]\<rparr>, None)"
    by (simp add: idle mq_Push_def)
  note sub = sub.submit_fresh [OF wf qwf t(1,2) chk new free push submit]
  have a1: "ms_wf (a_store a1)" "resp = accepted jobID False"
    "ms_view (a_store a1) jobID = Some (stored_pending now set_now url key cb (ctx_request_id r))"
    using sub by simp_all
  have "a_queue a1 = (a_queue a)\<lparr>buf := [?j]\<rparr>"
    using mem_submit_queue [OF chk free _ submit] push by simp
  then have out: "out = PopReturns (Inr job)" "buf q = []" using pop job by (auto simp: idle mq_Pop_def)
  have id: "ID job = jobID" by (simp add: job submitted_job_def zero_job_def)
  have f: "final_record wopts env job = (job_record job StatusCompleted)
      \<lparr>PDFKey := pdf_key job, PDFSize := int (length pdf)\<rparr>"
    using render by (simp add: final_record_def)
  have fin: "ms_view (w_store w) jobID = Some (merge_result (pe_set2 env)
        (spec_set (pe_set1 env) jobID (job_record job StatusProcessing) (ms_view (a_store a1)) jobID)
        (final_record wopts env job))"
    "map_of (w_blobs w) (pdf_key job) = Some pdf"
    using wb.processJob_alone [of ?w0 env job _ wopts, folded process] a1 t alone render id f
    by (simp_all add: job_record_def)
  have "Status (final_record wopts env job) = StatusCompleted"
    "PDFKey (final_record wopts env job) = pdf_key job"
    by (simp_all add: f job_record_def)
  then obtain c where c: "map_of (results (w_store w)) jobID = Some c" "Status c = StatusCompleted"
    "PDFKey c = pdf_key job"
    using fin(1) by (simp add: ms_view_def)
  show ?thesis using c fin(2) a1(2) out ask
    by (simp add: GetJob_def mem_Get_def mb_Get_def Let_def)
qed

theorem submitted_job_downloads_witness:
  "\<exists>a1 resp q out. \<exists>w :: (mem_storage, mem_blobs) world.
      SubmitJob mem_store_ops mem_queue_ops demo_handler_options ''new'' 9 10
        demo_request (demo_api 1) = (a1, resp)
    \<and> mq_Pop False False (a_queue a1) = (q, out)
    \<and> code (snd (GetJob mem_store_ops mem_blob_ops (demo_request\<lparr>path_id := ''new''\<rparr>)
          (a1\<lparr>a_store := w_store w, a_queue := q, a_blobs := w_blobs w\<rparr>))) = 200"
proof -
  obtain a1 resp where s: "SubmitJob mem_store_ops mem_queue_ops demo_handler_options ''new'' 9 10
      demo_request (demo_api 1) = (a1, resp)" by (metis surj_pair)
  obtain q out where p: "mq_Pop False False (a_queue a1) = (q, out)" by (metis surj_pair)
  have idle: "a_queue (demo_api 1) = \<lparr>buf = [], capacity = Suc 0, recvq = 0, handed = []\<rparr>"
    by (simp add: demo_api_def)
  have env: "pe_set1 demo_env \<noteq> 0" "pe_set2 demo_env \<noteq> 0" "\<And>k s. pe_interf demo_env k s = s"
    by (simp_all add: demo_env_def)
  let ?j = "submitted_job ''new'' ''http://e/p'' ''k1'' ''http://hook'' (ctx_request_id demo_request)"
  let ?w = "processJob mem_store_ops mem_blob_ops demo_opts demo_env ?j
          \<lparr>w_store = a_store a1, w_blobs = a_blobs a1, w_cancels = a_cancels a1,
           w_metrics = a_metrics a1, w_posts = []\<rparr>"
  have "code (snd (GetJob mem_store_ops mem_blob_ops (demo_request\<lparr>path_id := ''new''\<rparr>)
          (a1\<lparr>a_store := w_store ?w, a_queue := q, a_blobs := w_blobs ?w\<rparr>))) = 200"
    using submitted_job_downloads [OF demo_api_facts(1) idle _ _ env demo_checks demo_api_fresh s p
        demo_generate refl refl, of "demo_request\<lparr>path_id := ''new''\<rparr>"]
    by (elim conjE meta_impE) (simp_all only: http_response.select_convs http_request.simps, simp_all)
  then show ?thesis by (intro exI [of _ a1] exI [of _ resp] exI [of _ q] exI [of _ out] exI [of _ ?w] conjI s p)
qed

end
